(* ===== verification/Prelude.thy ===== *)
theory Prelude
  imports Main "HOL-Library.Word"
begin

text \<open>
  Shared vocabulary of the development: machine integers, the outcome type of a C function
  (a value, or the undefined behaviour it runs into), byte pointers and the memory accesses
  the sources make through them, and the byte order conversions of \<^verbatim>\<open>arpa/inet.h\<close>.

  Conventions used by every other theory:
  \<^item> a C integer of \<open>w\<close> bits is a \<open>w word\<close>, so its arithmetic wraps as in C;
  \<^item> a pointer to bytes that are only read is the list of the bytes that can be read from it
    up to the end of the object it points into; \<open>p + n\<close> drops \<open>n\<close> bytes and is
    undefined beyond the end of the object, as in the C standard;
  \<^item> a buffer that is written is the list of all its bytes together with an offset;
  \<^item> a pointer parameter that the code compares with \<^verbatim>\<open>NULL\<close> is an
    option: \<open>None\<close> is \<^verbatim>\<open>NULL\<close>, \<open>Some v\<close> points to an
    object with contents \<open>v\<close>. Objects that are written are returned with their new
    contents;
  \<^item> the host is little-endian, as the targets of the Makefile are.
\<close>

unbundle bit_operations_syntax

type_synonym u8 = "8 word"
type_synonym u16 = "16 word"
type_synonym u32 = "32 word"

section \<open>Outcomes\<close>

text \<open>The kinds of undefined behaviour the model tells apart.\<close>

datatype fault =
    Out_Of_Bounds   \<comment> \<open>access or pointer beyond the object\<close>
  | Null_Deref      \<comment> \<open>access through \<^verbatim>\<open>NULL\<close>\<close>
  | Bad_Pointer     \<comment> \<open>access to, or release of, a block that is not live\<close>
  | Uninitialised   \<comment> \<open>use of an indeterminate pointer\<close>
  | Signed_Overflow \<comment> \<open>a result beyond the range of \<^verbatim>\<open>int\<close>\<close>

type_synonym 'a res = "fault + 'a"

named_theorems mem_simps \<open>equations for memory accesses\<close>
named_theorems word_facts \<open>facts that move machine integers to natural numbers\<close>

primrec fbind :: "'a res \<Rightarrow> ('a \<Rightarrow> 'b res) \<Rightarrow> 'b res" where
  "fbind (Inl e) f = Inl e"
| "fbind (Inr x) f = f x"

lemma fbind_cong [fundef_cong]:
  "m = m' \<Longrightarrow> (\<And>x. m' = Inr x \<Longrightarrow> f x = g x) \<Longrightarrow> fbind m f = fbind m' g"
  by (cases m') auto

lemma fbind_eq_Inr: "fbind m f = Inr y \<longleftrightarrow> (\<exists>x. m = Inr x \<and> f x = Inr y)"
  by (cases m) auto

lemma fbind_eq_Inl: "fbind m f = Inl e \<longleftrightarrow> m = Inl e \<or> (\<exists>x. m = Inr x \<and> f x = Inl e)"
  by (cases m) auto

lemma fbind_assoc: "fbind (fbind m f) g = fbind m (\<lambda>x. fbind (f x) g)"
  by (cases m) auto

lemma fbind_split: "P (fbind m f) \<longleftrightarrow> (\<forall>e. m = Inl e \<longrightarrow> P (Inl e)) \<and> (\<forall>x. m = Inr x \<longrightarrow> P (f x))"
  by (cases m) auto

lemma fbind_If: "fbind (if b then m else m') f = (if b then fbind m f else fbind m' f)"
  by simp

definition deref :: "'a option \<Rightarrow> 'a res" where
  "deref p = (case p of None \<Rightarrow> Inl Null_Deref | Some x \<Rightarrow> Inr x)"

lemma deref_simps [simp]: "deref None = Inl Null_Deref" "deref (Some x) = Inr x"
  by (simp_all add: deref_def)

section \<open>Byte pointers and buffers\<close>

definition rd :: "u8 list \<Rightarrow> nat \<Rightarrow> u8 res" where
  "rd p i = (if i < length p then Inr (p ! i) else Inl Out_Of_Bounds)"

definition rd_bytes :: "u8 list \<Rightarrow> nat \<Rightarrow> u8 list res" where
  "rd_bytes p n = (if n \<le> length p then Inr (take n p) else Inl Out_Of_Bounds)"

definition adv :: "u8 list \<Rightarrow> nat \<Rightarrow> u8 list res" where
  "adv p n = (if n \<le> length p then Inr (drop n p) else Inl Out_Of_Bounds)"

definition wr_bytes :: "u8 list \<Rightarrow> nat \<Rightarrow> u8 list \<Rightarrow> u8 list res" where
  "wr_bytes buf off bs =
     (if off + length bs \<le> length buf
      then Inr (take off buf @ bs @ drop (off + length bs) buf)
      else Inl Out_Of_Bounds)"

definition wr :: "u8 list \<Rightarrow> nat \<Rightarrow> u8 \<Rightarrow> u8 list res" where
  "wr buf off b = (if off < length buf then Inr (buf[off := b]) else Inl Out_Of_Bounds)"

lemma rd_Cons_0 [mem_simps]: "rd (x # xs) 0 = Inr x"
  by (simp add: rd_def)

lemma rd_Cons_Suc [mem_simps]: "rd (x # xs) (Suc n) = rd xs n"
  by (simp add: rd_def)

lemma rd_Nil [mem_simps]: "rd [] n = Inl Out_Of_Bounds"
  by (simp add: rd_def)

lemma rd_append [mem_simps]: "rd (xs @ ys) (length xs) = rd ys 0"
  by (simp add: rd_def nth_append)

lemma rd_append_left: "i < length xs \<Longrightarrow> rd (xs @ ys) i = Inr (xs ! i)"
  by (simp add: rd_def nth_append)

lemma rd_bytes_append [mem_simps]: "n = length xs \<Longrightarrow> rd_bytes (xs @ ys) n = Inr xs"
  by (simp add: rd_bytes_def)

lemma adv_append [mem_simps]: "n = length xs \<Longrightarrow> adv (xs @ ys) n = Inr ys"
  by (simp add: adv_def)

lemma adv_Suc [mem_simps]: "adv (x # xs) (Suc n) = adv xs n"
  by (simp add: adv_def)

lemma adv_0 [simp]: "adv p 0 = Inr p"
  by (simp add: adv_def)

lemma rd_0 [simp]: "rd p 0 = (case p of [] \<Rightarrow> Inl Out_Of_Bounds | x # _ \<Rightarrow> Inr x)"
  by (cases p) (simp_all add: rd_def)

lemma adv_1_Cons [mem_simps]: "adv (x # xs) 1 = Inr xs"
  by (simp add: adv_def)

lemma adv_eq_Inr: "adv p n = Inr q \<longleftrightarrow> n \<le> length p \<and> q = drop n p"
  by (auto simp: adv_def)

lemma rd_eq_Inr: "rd p i = Inr b \<longleftrightarrow> i < length p \<and> b = p ! i"
  by (auto simp: rd_def)

lemma rd_bytes_eq_Inr: "rd_bytes p n = Inr bs \<longleftrightarrow> n \<le> length p \<and> bs = take n p"
  by (auto simp: rd_bytes_def)

lemma drop_Cons_shorter: "drop n p = x # q \<Longrightarrow> length q < length p"
  using length_drop [of n p] by (cases "length p - n") (auto dest: arg_cong [of _ _ length])

text \<open>
  The builders fill a buffer from the left. Written at the end of the prefix \<open>pre\<close>
  that is already in place, a run of bytes extends that prefix.
\<close>

lemma wr_bytes_extend:
  "off = length pre \<Longrightarrow> length bs \<le> length rest \<Longrightarrow>
   wr_bytes (pre @ rest) off bs = Inr (pre @ bs @ drop (length bs) rest)"
  by (simp add: wr_bytes_def)

lemma wr_bytes_at_0:
  "length bs \<le> length buf \<Longrightarrow> wr_bytes buf 0 bs = Inr (bs @ drop (length bs) buf)"
  by (simp add: wr_bytes_def)

lemma wr_as_bytes: "wr buf off b = wr_bytes buf off [b]"
  by (simp add: wr_def wr_bytes_def upd_conv_take_nth_drop)

lemma wr_bytes_length: "wr_bytes buf off bs = Inr buf' \<Longrightarrow> length buf' = length buf"
  by (auto simp: wr_bytes_def split: if_splits)

lemma wr_bytes_append:
  "wr_bytes buf off (xs @ ys) = fbind (wr_bytes buf off xs) (\<lambda>b. wr_bytes b (off + length xs) ys)"
  by (auto simp: wr_bytes_def add.assoc add.commute add.left_commute)

text \<open>Consecutive writes are one write.\<close>

lemma wr_bytes_seq [mem_simps]:
  "off' = off + length xs \<Longrightarrow>
   fbind (wr_bytes buf off xs) (\<lambda>b. fbind (wr_bytes b off' ys) k) = fbind (wr_bytes buf off (xs @ ys)) k"
  by (simp add: wr_bytes_append fbind_assoc)

lemma wr_bytes_fits:
  "off + length bs \<le> length buf \<Longrightarrow>
   wr_bytes buf off bs = Inr (take off buf @ bs @ drop (off + length bs) buf)"
  by (simp add: wr_bytes_def)

section \<open>Machine integers as natural numbers\<close>

lemma unat_u8_lt [simp]: "unat (b :: u8) < 256"
  using unsigned_less [of b] by simp

lemma unat_u16_lt [simp]: "unat (b :: u16) < 65536"
  using unsigned_less [of b] by simp

lemma unat_u32_lt [simp]: "unat (b :: u32) < 4294967296"
  using unsigned_less [of b] by simp

lemma unat_u16_of_nat: "n < 65536 \<Longrightarrow> unat (of_nat n :: u16) = n"
  by (simp add: unsigned_of_nat take_bit_nat_eq_self)

lemma unat_u32_of_nat: "n < 4294967296 \<Longrightarrow> unat (of_nat n :: u32) = n"
  by (simp add: unsigned_of_nat take_bit_nat_eq_self)

lemma unat_u8_of_nat: "n < 256 \<Longrightarrow> unat (of_nat n :: u8) = n"
  by (simp add: unsigned_of_nat take_bit_nat_eq_self)

lemma unat_ucast_u32_u8 [word_facts]: "unat (ucast (x :: u32) :: u8) = unat x mod 256"
  by (simp add: unsigned_ucast_eq take_bit_eq_mod)

lemma unat_ucast_u32_u16 [word_facts]: "unat (ucast (x :: u32) :: u16) = unat x mod 65536"
  by (simp add: unsigned_ucast_eq take_bit_eq_mod)

lemma unat_ucast_u16_u32 [word_facts]: "unat (ucast (x :: u16) :: u32) = unat x"
  using unat_u16_lt [of x] by (simp add: unsigned_ucast_eq take_bit_eq_mod del: unat_u16_lt)

lemma unat_ucast_u8_u32 [word_facts]: "unat (ucast (x :: u8) :: u32) = unat x"
  using unat_u8_lt [of x] by (simp add: unsigned_ucast_eq take_bit_eq_mod del: unat_u8_lt)

lemma unat_ucast_u8_u16 [word_facts]: "unat (ucast (x :: u8) :: u16) = unat x"
  using unat_u8_lt [of x] by (simp add: unsigned_ucast_eq take_bit_eq_mod del: unat_u8_lt)

lemma ucast_u8_u32_0 [simp]: "(ucast (x :: u8) :: u32) = 0 \<longleftrightarrow> x = 0"
  using unat_ucast_u8_u32 [of x] by (metis unat_eq_0)

lemma unat_u32_add: "unat a + unat b < 4294967296 \<Longrightarrow> unat (a + b :: u32) = unat a + unat b"
  by (simp add: unat_word_ariths)

lemma unat_u32_sub: "unat b \<le> unat a \<Longrightarrow> unat (a - b :: u32) = unat a - unat b"
  by (simp add: unat_sub word_le_nat_alt)

lemma u8_bit_ge [simp]: "8 \<le> n \<Longrightarrow> \<not> bit (w :: u8) n"
  by (auto dest: bit_imp_le_length)

lemma u16_bit_ge [simp]: "16 \<le> n \<Longrightarrow> \<not> bit (w :: u16) n"
  by (auto dest: bit_imp_le_length)

text \<open>The continuation bit of a byte, and the value bits below it.\<close>

lemma u8_and_128: "(b :: u8) AND 128 = 0 \<longleftrightarrow> unat b < 128"
proof -
  have "unat b div 128 < 2" by (simp add: less_mult_imp_div_less)
  then have "unat b div 128 = 0 \<or> unat b div 128 = 1" by linarith
  then have "even (unat b div 128) \<longleftrightarrow> unat b div 128 = 0" by auto
  then have lt: "even (unat b div 128) \<longleftrightarrow> unat b < 128" by (simp add: div_eq_0_iff)
  have "b AND 2 ^ 7 = 0 \<longleftrightarrow> \<not> bit b 7" by (rule and_exp_eq_0_iff_not_bit)
  also have "\<dots> \<longleftrightarrow> \<not> bit (unat b) 7" by (simp add: bit_unsigned_iff)
  also have "\<dots> \<longleftrightarrow> unat b < 128"
    using lt by (simp add: bit_iff_odd)
  finally show ?thesis by simp
qed

lemma unat_u8_and_127: "unat ((b :: u8) AND 127) = unat b mod 128"
proof -
  have "b AND 127 = take_bit 7 b" by (simp add: take_bit_eq_mask mask_eq_exp_minus_1)
  then show ?thesis by (simp only: unsigned_take_bit_eq) (simp add: take_bit_eq_mod)
qed

lemma unat_u8_or_128: "unat (b :: u8) < 128 \<Longrightarrow> unat (b OR 128) = unat b + 128"
proof -
  assume lt: "unat b < 128"
  then have "b AND 128 = 0" by (simp add: u8_and_128)
  then have "b OR 128 = b + 128" by (rule disjunctive_add_eq_or [symmetric])
  with lt show ?thesis by (simp add: unat_word_ariths)
qed

section \<open>Byte order\<close>

text \<open>
  \<open>htons\<close> swaps the two bytes of a 16-bit value on the little-endian host, and
  \<^verbatim>\<open>ntohs\<close> is the same function. \<open>mem_of_u16\<close> is the object
  representation a \<^verbatim>\<open>memcpy\<close> from a \<^verbatim>\<open>uint16_t\<close>
  copies, \<open>u16_of_mem\<close> the value of an object with these two bytes.
\<close>

definition htons :: "u16 \<Rightarrow> u16" where
  "htons w = push_bit 8 w OR drop_bit 8 w"

definition ntohs :: "u16 \<Rightarrow> u16" where
  "ntohs w = push_bit 8 w OR drop_bit 8 w"

definition mem_of_u16 :: "u16 \<Rightarrow> u8 list" where
  "mem_of_u16 w = [ucast w, ucast (drop_bit 8 w)]"

definition u16_of_mem :: "u8 \<Rightarrow> u8 \<Rightarrow> u16" where
  "u16_of_mem a b = ucast a OR push_bit 8 (ucast b)"

definition rd_u16 :: "u8 list \<Rightarrow> u16 res" where
  "rd_u16 p = fbind (rd p 0) (\<lambda>a. fbind (rd p 1) (\<lambda>b. Inr (u16_of_mem a b)))"

text \<open>The two bytes of a value on the wire, the high one first.\<close>

definition be16 :: "u16 \<Rightarrow> u8 list" where
  "be16 w = [ucast (drop_bit 8 w), ucast w]"

lemma length_be16 [simp]: "length (be16 w) = 2"
  by (simp add: be16_def)

lemma ntohs_htons [simp]: "ntohs (htons w) = w"
  by (rule bit_word_eqI) (auto simp: htons_def ntohs_def bit_simps)

lemma htons_ntohs [simp]: "htons (ntohs w) = w"
  by (rule bit_word_eqI) (auto simp: htons_def ntohs_def bit_simps)

lemma mem_of_u16_htons [mem_simps]: "mem_of_u16 (htons w) = be16 w"
  unfolding mem_of_u16_def be16_def htons_def
  by (auto intro!: bit_word_eqI simp: bit_simps)

lemma u16_of_mem_be16: "u16_of_mem (ucast (drop_bit 8 w)) (ucast w) = htons w"
  by (rule bit_word_eqI) (auto simp: u16_of_mem_def htons_def bit_simps)

lemma unat_u16_of_mem: "unat (u16_of_mem a b) = unat a + 256 * unat b"
proof -
  have "u16_of_mem a b = ucast a + push_bit 8 (ucast b)"
    unfolding u16_of_mem_def
    by (rule disjunctive_add_eq_or [symmetric]) (auto intro!: bit_word_eqI simp: bit_simps)
  moreover have "unat a + unat b * 256 < 65536"
    using unat_u8_lt [of a] unat_u8_lt [of b] by linarith
  ultimately show ?thesis
    by (simp add: unat_word_ariths push_bit_eq_mult unat_ucast_u8_u16 mod_add_right_eq)
qed

lemma ntohs_u16_of_mem: "ntohs (u16_of_mem a b) = u16_of_mem b a"
  by (rule bit_word_eqI) (auto simp: u16_of_mem_def ntohs_def bit_simps)

lemma rd_u16_be16 [mem_simps]: "rd_u16 (be16 w @ rest) = Inr (htons w)"
  by (simp add: rd_u16_def be16_def rd_def u16_of_mem_be16)

lemma rd_u16_be16_only [mem_simps]: "rd_u16 (be16 w) = Inr (htons w)"
  using rd_u16_be16 [of w "[]"] by simp

lemma rd_u16_eq: "rd_u16 p = (if 2 \<le> length p then Inr (u16_of_mem (p ! 0) (p ! 1)) else Inl Out_Of_Bounds)"
  by (auto simp: rd_u16_def rd_def)

lemma be16_inject [simp]: "be16 v = be16 w \<longleftrightarrow> v = w"
proof
  assume "be16 v = be16 w"
  then have "rd_u16 (be16 v) = rd_u16 (be16 w)" by simp
  then have "htons v = htons w" by (simp add: rd_u16_be16_only)
  then show "v = w" by (metis ntohs_htons)
qed simp

lemma be16_u16_of_mem: "be16 (u16_of_mem b a) = [a, b]"
  unfolding be16_def u16_of_mem_def by (auto intro!: bit_word_eqI simp: bit_simps)

lemma rd_u16_eq_Inr: "rd_u16 p = Inr raw \<longleftrightarrow> 2 \<le> length p \<and> take 2 p = be16 (ntohs raw)"
proof (cases "2 \<le> length p")
  case True
  then obtain a b q where p: "p = a # b # q"
    by (metis One_nat_def Suc_le_length_iff numeral_2_eq_2)
  have "u16_of_mem a b = raw \<longleftrightarrow> [a, b] = be16 (ntohs raw)"
    unfolding be16_u16_of_mem [symmetric] be16_inject
    by (metis htons_ntohs ntohs_u16_of_mem)
  then show ?thesis by (simp add: rd_u16_eq p)
next
  case False
  then show ?thesis by (simp add: rd_u16_eq)
qed

end
