(* ===== verification/Memory.thy ===== *)
theory Memory
  imports Prelude "HOL-Library.AList"
begin

text \<open>
  The memory that the sources obtain with \<^verbatim>\<open>malloc\<close>: blocks that hold
  bytes, a node of a subscription list (\<^verbatim>\<open>topic_filter_t\<close> of
  message/common.h) or a node of the list of sent messages
  (\<^verbatim>\<open>message_send_t\<close> of client/message_keep.h).

  Two things the program does not control are fields of the heap: \<open>oom\<close> says which
  allocations fail (by their number), \<open>junk\<close> gives the bytes found in fresh memory.
  Every theorem holds for all choices of both.
\<close>

text \<open>A C pointer to a block; \<open>Indeterminate\<close> is the value of a pointer never assigned.\<close>

datatype link = NULL | Addr nat | Indeterminate

record topic_filter_t =
  tf_topic :: "u8 list option"
  tf_len :: u16
  tf_qos :: u8
  tf_next :: link

record message_send_t =
  ms_packet_id :: u16
  ms_message :: link
  ms_len :: u32
  ms_qos :: u8
  ms_timestamp :: int
  ms_next :: link

datatype block = Bytes "u8 list" | Filter topic_filter_t | Msg message_send_t

record heap =
  cells :: "(nat \<times> block) list"
  fresh :: nat
  oom :: "nat \<Rightarrow> bool"
  junk :: "nat \<Rightarrow> u8"

lemma heap_update_order [simp]: "h\<lparr>fresh := k, cells := cs\<rparr> = h\<lparr>cells := cs, fresh := k\<rparr>"
  by (cases h) simp

definition malloc :: "block \<Rightarrow> heap \<Rightarrow> link \<times> heap" where
  "malloc b h =
     (if oom h (fresh h) then (NULL, h\<lparr>fresh := Suc (fresh h)\<rparr>)
      else (Addr (fresh h), h\<lparr>cells := (fresh h, b) # cells h, fresh := Suc (fresh h)\<rparr>))"

definition junk_bytes :: "heap \<Rightarrow> nat \<Rightarrow> block" where
  "junk_bytes h n = Bytes (map (junk h) [0..<n])"

definition load :: "link \<Rightarrow> heap \<Rightarrow> block res" where
  "load p h =
     (case p of NULL \<Rightarrow> Inl Null_Deref | Indeterminate \<Rightarrow> Inl Uninitialised
      | Addr a \<Rightarrow> (case map_of (cells h) a of None \<Rightarrow> Inl Bad_Pointer | Some b \<Rightarrow> Inr b))"

definition store :: "link \<Rightarrow> block \<Rightarrow> heap \<Rightarrow> heap res" where
  "store p b h = fbind (load p h) (\<lambda>_. case p of Addr a \<Rightarrow> Inr (h\<lparr>cells := AList.update a b (cells h)\<rparr>)
                                       | _ \<Rightarrow> Inl Null_Deref)"

definition free :: "link \<Rightarrow> heap \<Rightarrow> heap res" where
  "free p h =
     (case p of NULL \<Rightarrow> Inr h | Indeterminate \<Rightarrow> Inl Uninitialised
      | Addr a \<Rightarrow> (case map_of (cells h) a of None \<Rightarrow> Inl Bad_Pointer
                  | Some _ \<Rightarrow> Inr (h\<lparr>cells := AList.delete a (cells h)\<rparr>)))"

text \<open>Typed access: a block of another kind is not what the pointer's type says.\<close>

definition load_bytes :: "link \<Rightarrow> heap \<Rightarrow> u8 list res" where
  "load_bytes p h = fbind (load p h) (\<lambda>b. case b of Bytes bs \<Rightarrow> Inr bs | _ \<Rightarrow> Inl Bad_Pointer)"

definition load_filter :: "link \<Rightarrow> heap \<Rightarrow> topic_filter_t res" where
  "load_filter p h = fbind (load p h) (\<lambda>b. case b of Filter n \<Rightarrow> Inr n | _ \<Rightarrow> Inl Bad_Pointer)"

definition load_msg :: "link \<Rightarrow> heap \<Rightarrow> message_send_t res" where
  "load_msg p h = fbind (load p h) (\<lambda>b. case b of Msg n \<Rightarrow> Inr n | _ \<Rightarrow> Inl Bad_Pointer)"

section \<open>Well-formed heaps\<close>

definition live :: "heap \<Rightarrow> nat set" where
  "live h = fst ` set (cells h)"

definition heap_ok :: "heap \<Rightarrow> bool" where
  "heap_ok h \<longleftrightarrow> distinct (map fst (cells h)) \<and> (\<forall>a \<in> live h. a < fresh h)"

lemma live_iff: "a \<in> live h \<longleftrightarrow> map_of (cells h) a \<noteq> None"
  by (simp add: live_def map_of_eq_None_iff)

lemma heap_ok_fresh: "heap_ok h \<Longrightarrow> map_of (cells h) (fresh h) = None"
  using live_iff [of "fresh h" h] unfolding heap_ok_def by blast

lemma malloc_heap_ok: "heap_ok h \<Longrightarrow> heap_ok (snd (malloc b h))"
  by (auto simp: heap_ok_def malloc_def live_def less_Suc_eq)

lemma live_malloc: "live (snd (malloc b h)) = (if oom h (fresh h) then live h else insert (fresh h) (live h))"
  by (simp add: malloc_def live_def)

lemma malloc_cases:
  obtains (fail) "oom h (fresh h)" "malloc b h = (NULL, h\<lparr>fresh := Suc (fresh h)\<rparr>)"
  | (ok) "\<not> oom h (fresh h)"
      "malloc b h = (Addr (fresh h), h\<lparr>cells := (fresh h, b) # cells h, fresh := Suc (fresh h)\<rparr>)"
  by (auto simp: malloc_def split: if_splits)

lemma load_Addr: "load (Addr a) h = (case map_of (cells h) a of None \<Rightarrow> Inl Bad_Pointer | Some b \<Rightarrow> Inr b)"
  by (simp add: load_def)

lemma load_eq_Inr: "load p h = Inr b \<longleftrightarrow> (\<exists>a. p = Addr a \<and> map_of (cells h) a = Some b)"
  by (auto simp: load_def split: link.splits option.splits)

lemma load_msg_eq_Inr: "load_msg p h = Inr n \<longleftrightarrow> (\<exists>a. p = Addr a \<and> map_of (cells h) a = Some (Msg n))"
  unfolding load_msg_def fbind_eq_Inr load_eq_Inr by (fastforce split: block.splits)

lemma load_filter_eq_Inr:
  "load_filter p h = Inr n \<longleftrightarrow> (\<exists>a. p = Addr a \<and> map_of (cells h) a = Some (Filter n))"
  unfolding load_filter_def fbind_eq_Inr load_eq_Inr by (fastforce split: block.splits)

lemma load_bytes_eq_Inr:
  "load_bytes p h = Inr n \<longleftrightarrow> (\<exists>a. p = Addr a \<and> map_of (cells h) a = Some (Bytes n))"
  unfolding load_bytes_def fbind_eq_Inr load_eq_Inr by (fastforce split: block.splits)

lemma load_NULL [mem_simps]:
  "load NULL h = Inl Null_Deref" "load_msg NULL h = Inl Null_Deref" "load_filter NULL h = Inl Null_Deref"
  "load_bytes NULL h = Inl Null_Deref"
  by (simp_all add: load_def load_msg_def load_filter_def load_bytes_def)

lemma store_live: "map_of (cells h) a = Some b' \<Longrightarrow>
    store (Addr a) b h = Inr (h\<lparr>cells := AList.update a b (cells h)\<rparr>)"
  by (simp add: store_def load_Addr)

lemma free_live: "map_of (cells h) a = Some b \<Longrightarrow>
    free (Addr a) h = Inr (h\<lparr>cells := AList.delete a (cells h)\<rparr>)"
  by (simp add: free_def)

lemma free_NULL [mem_simps]: "free NULL h = Inr h"
  by (simp add: free_def)

lemma free_dead: "a \<notin> live h \<Longrightarrow> free (Addr a) h = Inl Bad_Pointer"
  by (simp add: free_def live_iff)

lemma live_delete [simp]: "live (h\<lparr>cells := AList.delete a (cells h)\<rparr>) = live h - {a}"
  by (auto simp: live_iff AList.delete_conv' split: if_splits)

lemma live_update: "a \<in> live h \<Longrightarrow> live (h\<lparr>cells := AList.update a b (cells h)\<rparr>) = live h"
  unfolding live_def using AList.dom_update [of a b "cells h"] by auto

lemma heap_ok_delete: "heap_ok h \<Longrightarrow> heap_ok (h\<lparr>cells := AList.delete a (cells h)\<rparr>)"
  using AList.distinct_delete [of "cells h" a]
  by (auto simp: heap_ok_def)

lemma heap_ok_update: "heap_ok h \<Longrightarrow> a \<in> live h \<Longrightarrow> heap_ok (h\<lparr>cells := AList.update a b (cells h)\<rparr>)"
  using AList.distinct_update [of "cells h" a b] live_update [of a h b]
  by (auto simp: heap_ok_def)

lemma free_heap_ok: "heap_ok h \<Longrightarrow> free p h = Inr h' \<Longrightarrow> heap_ok h'"
  by (auto simp: free_def heap_ok_delete split: link.splits option.splits)

lemma length_delete_less: "map_of (cells h) a = Some b \<Longrightarrow> length (AList.delete a (cells h)) < length (cells h)"
proof -
  assume "map_of (cells h) a = Some b"
  then have "(a, b) \<in> set (cells h)" by (rule map_of_SomeD)
  then show ?thesis unfolding AList.delete_eq by (rule length_filter_less) simp
qed

section \<open>Linked lists\<close>

text \<open>
  \<open>chain nx h p as q\<close>: following the links \<open>nx\<close> from \<open>p\<close> through
  the blocks at the addresses \<open>as\<close>, one arrives at \<open>q\<close>. A list of the
  program is a chain of distinct addresses that ends in \<open>NULL\<close>.
\<close>

primrec chain :: "(block \<Rightarrow> link) \<Rightarrow> heap \<Rightarrow> link \<Rightarrow> nat list \<Rightarrow> link \<Rightarrow> bool" where
  "chain nx h p [] q \<longleftrightarrow> p = q"
| "chain nx h p (a # as) q \<longleftrightarrow>
     p = Addr a \<and> (\<exists>b. map_of (cells h) a = Some b \<and> chain nx h (nx b) as q)"

definition contents :: "heap \<Rightarrow> nat list \<Rightarrow> block list" where
  "contents h as = map (\<lambda>a. the (map_of (cells h) a)) as"

lemma chain_append:
  "chain nx h p (as @ bs) q \<longleftrightarrow> (\<exists>m. chain nx h p as m \<and> chain nx h m bs q)"
  by (induction as arbitrary: p) auto

lemma chain_cong:
  "(\<And>a. a \<in> set as \<Longrightarrow> map_of (cells h') a = map_of (cells h) a) \<Longrightarrow>
   chain nx h' p as q \<longleftrightarrow> chain nx h p as q"
  by (induction as arbitrary: p) auto

lemma contents_cong:
  "(\<And>a. a \<in> set as \<Longrightarrow> map_of (cells h') a = map_of (cells h) a) \<Longrightarrow> contents h' as = contents h as"
  by (simp add: contents_def)

lemma chain_live: "chain nx h p as q \<Longrightarrow> set as \<subseteq> live h"
  by (induction as arbitrary: p) (auto simp: live_iff)

lemma chain_update_other:
  "a \<notin> set as \<Longrightarrow> chain nx (h\<lparr>cells := AList.update a b (cells h)\<rparr>) p as q \<longleftrightarrow> chain nx h p as q"
  by (rule chain_cong) (auto simp: AList.update_conv')

lemma chain_delete_other:
  "a \<notin> set as \<Longrightarrow> chain nx (h\<lparr>cells := AList.delete a (cells h)\<rparr>) p as q \<longleftrightarrow> chain nx h p as q"
  by (rule chain_cong) (auto simp: AList.delete_conv')

lemma chain_NULL_unique:
  "chain nx h p as NULL \<Longrightarrow> chain nx h p bs NULL \<Longrightarrow> as = bs"
proof (induction as arbitrary: p bs)
  case Nil
  then show ?case by (cases bs) auto
next
  case (Cons a as)
  then show ?case by (cases bs) auto
qed

lemma contents_simps [simp]:
  "contents h [] = []" "contents h (a # as) = the (map_of (cells h) a) # contents h as"
  "contents h (as @ bs) = contents h as @ contents h bs"
  by (simp_all add: contents_def)

section \<open>Loops over a list\<close>

text \<open>
  A list that contains a cycle is never left, so a loop that follows links may not return:
  its outcome is \<open>None\<close> then, and \<open>Some\<close> of a result otherwise.
\<close>

type_synonym 'a outcome = "'a res option"

primrec obind :: "'a outcome \<Rightarrow> ('a \<Rightarrow> 'b outcome) \<Rightarrow> 'b outcome" where
  "obind None f = None"
| "obind (Some r) f = (case r of Inl e \<Rightarrow> Some (Inl e) | Inr x \<Rightarrow> f x)"

text \<open>Loops that may not end can call each other through it.\<close>

lemma obind_mono [partial_function_mono]:
  assumes "mono_option m" and "\<And>x. mono_option (\<lambda>f. k x f)"
  shows "mono_option (\<lambda>f. obind (m f) (\<lambda>x. k x f))"
proof -
  have "obind n g = Option.bind n (\<lambda>r. case r of Inl e \<Rightarrow> Some (Inl e) | Inr x \<Rightarrow> g x)" for n :: "'c outcome" and g :: "'c \<Rightarrow> 'd outcome"
    by (cases n) simp_all
  moreover have "mono_option (\<lambda>f. case r of Inl e \<Rightarrow> Some (Inl e) | Inr x \<Rightarrow> k x f)" for r
    using assms(2) by (cases r) (simp_all add: monotone_def option.leq_refl)
  ultimately show ?thesis using assms(1) by (simp add: bind_mono)
qed

lemma obind_assoc: "obind (obind m f) g = obind m (\<lambda>x. obind (f x) g)"
  by (cases m) (auto split: sum.splits)

lemma obind_if: "obind (if b then m else m') f = (if b then obind m f else obind m' f)"
  by simp

lemma obind_Some_if: "obind (Some (if b then m else m')) f = (if b then obind (Some m) f else obind (Some m') f)"
  by simp

lemma obind_Inr: "obind (Some (Inr x)) f = f x"
  by simp

lemma obind_Some_fbind: "obind (Some m) (\<lambda>x. Some (f x)) = Some (fbind m f)"
  by (cases m) auto

lemma obind_fbind: "obind (Some (fbind m f)) g = obind (Some m) (\<lambda>x. obind (Some (f x)) g)"
  by (cases m) auto

lemma obind_eq_Some_Inr:
  "obind m f = Some (Inr y) \<longleftrightarrow> (\<exists>x. m = Some (Inr x) \<and> f x = Some (Inr y))"
  by (cases m) (auto split: sum.splits)

text \<open>What the body of a loop does next: go on at a link with a new state, or return.\<close>

datatype ('s, 'r) ctl = Go link 's | Return 'r

partial_function (option) list_loop ::
  "(link \<Rightarrow> 's \<Rightarrow> ('s, 'r) ctl res) \<Rightarrow> ('s \<Rightarrow> 'r res) \<Rightarrow> link \<Rightarrow> 's \<Rightarrow> 'r outcome" where
  "list_loop body fin cur s =
     (if cur = NULL then Some (fin s)
      else case body cur s of
        Inl e \<Rightarrow> Some (Inl e)
      | Inr c \<Rightarrow> (case c of Go nx s' \<Rightarrow> list_loop body fin nx s' | Return r \<Rightarrow> Some (Inr r)))"

lemma list_loop_NULL: "list_loop body fin NULL s = Some (fin s)"
  by (simp add: list_loop.simps)

lemma list_loop_step:
  "cur \<noteq> NULL \<Longrightarrow>
   list_loop body fin cur s =
     (case body cur s of Inl e \<Rightarrow> Some (Inl e) | Inr (Go nx s') \<Rightarrow> list_loop body fin nx s' | Inr (Return r) \<Rightarrow> Some (Inr r))"
  by (subst list_loop.simps) (simp split: sum.split ctl.split)

text \<open>
  \<open>linked ld nx h p xs\<close>: the list that starts at \<open>p\<close> ends, and its nodes,
  read by \<open>ld\<close>, are \<open>xs\<close>.
\<close>

primrec linked :: "(link \<Rightarrow> heap \<Rightarrow> 'n res) \<Rightarrow> ('n \<Rightarrow> link) \<Rightarrow> heap \<Rightarrow> link \<Rightarrow> 'n list \<Rightarrow> bool" where
  "linked ld nx h p [] \<longleftrightarrow> p = NULL"
| "linked ld nx h p (x # xs) \<longleftrightarrow> p \<noteq> NULL \<and> ld p h = Inr x \<and> linked ld nx h (nx x) xs"

primrec fold_res :: "('n \<Rightarrow> 's \<Rightarrow> 's res) \<Rightarrow> 'n list \<Rightarrow> 's \<Rightarrow> 's res" where
  "fold_res g [] s = Inr s"
| "fold_res g (x # xs) s = fbind (g x s) (fold_res g xs)"

text \<open>On a list that ends, a loop that does not return early is a fold over its nodes.\<close>

lemma list_loop_linked:
  assumes "linked ld nx h p xs"
    and "\<And>cur x s. x \<in> set xs \<Longrightarrow> ld cur h = Inr x \<Longrightarrow> body cur s = fbind (g x s) (\<lambda>s. Inr (Go (nx x) s))"
  shows "list_loop body fin p s = Some (fbind (fold_res g xs s) fin)"
  using assms
proof (induction xs arbitrary: p s)
  case Nil
  then show ?case by (simp add: list_loop_NULL)
next
  case (Cons x xs)
  then have p: "p \<noteq> NULL" and ld: "ld p h = Inr x" and rest: "linked ld nx h (nx x) xs" by simp_all
  have step: "body p s = fbind (g x s) (\<lambda>s. Inr (Go (nx x) s))" using Cons.prems(2) ld by simp
  show ?case
  proof (cases "g x s")
    case (Inl e)
    then show ?thesis by (simp add: list_loop_step [OF p] step)
  next
    case (Inr s')
    then show ?thesis
      using Cons.IH [OF rest, of s'] Cons.prems(2) by (simp add: list_loop_step [OF p] step)
  qed
qed

text \<open>A fold that only adds.\<close>

lemma fold_res_Inr: "fold_res (\<lambda>x s. Inr (g x s)) xs s = Inr (fold g xs s)"
  by (induction xs arbitrary: s) auto

text \<open>A fold that writes an encoding of each node behind the previous one is a single write.\<close>

lemma fold_res_write:
  assumes "\<And>x. x \<in> set xs \<Longrightarrow> unat (c x) = length (e x)" and "off' = off + length pre"
  shows "fbind (wr_bytes buf off pre) (\<lambda>b.
           fold_res (\<lambda>x (b, pos, n). fbind (wr_bytes b pos (e x)) (\<lambda>b. Inr (b, pos + unat (c x), n + c x))) xs (b, off', n)) =
         fbind (wr_bytes buf off (pre @ concat (map e xs)))
           (\<lambda>b. Inr (b, off' + length (concat (map e xs)), n + sum_list (map c xs :: u32 list)))"
  using assms
proof (induction xs arbitrary: pre off' n)
  case Nil
  then show ?case by simp
next
  case (Cons x xs)
  have len: "unat (c x) = length (e x)" using Cons.prems(1) by simp
  have "fbind (wr_bytes buf off (pre @ e x)) (\<lambda>b.
      fold_res (\<lambda>x (b, pos, n). fbind (wr_bytes b pos (e x)) (\<lambda>b. Inr (b, pos + unat (c x), n + c x))) xs
        (b, off' + length (e x), n + c x)) =
     fbind (wr_bytes buf off ((pre @ e x) @ concat (map e xs)))
       (\<lambda>b. Inr (b, off' + length (e x) + length (concat (map e xs)), n + c x + sum_list (map c xs)))"
    by (rule Cons.IH) (use Cons.prems in auto)
  with Cons.prems(2) show ?case
    by (simp add: fbind_assoc wr_bytes_seq len add.assoc)
qed

end
