(* ===== verification/Common.thy ===== *)
theory Common
  imports Memory
begin

text \<open>
  The constants of mqtt.h and message/common.h: return codes, message types and QoS values,
  and the macro of message/message.h that puts a message type in the high half of the first
  byte of a message.
\<close>

datatype mqtt_ret =
    MQTT_SUCCESS
  | MQTT_UNKNOWN
  | MQTT_INVALID_PARAM
  | MQTT_MEMORY_NOBUFFER
  | MQTT_MESSAGE_TYPE_ERROR
  | MQTT_PROTOCOL_UNSUPPORT
  | MQTT_PROTOCOL_LEVEL_UNSUPPORT
  | MQTT_CONNECT_PARSE_ERROR
  | MQTT_CONNECT_MESSAGE_ERROR
  | MQTT_CLIENT_ID_LENGTH_UNSUPPORT
  | MQTT_CONNECT_FLAGS_ERROR
  | MQTT_CONNACK_MESSAGE_ERROR
  | MQTT_CONNACK_CODE_ERROR
  | MQTT_PUBLISH_MESSAGE_ERROR
  | MQTT_PUBLISH_QOS_ERROR
  | MQTT_PUBACK_MESSAGE_ERROR
  | MQTT_PUBREC_MESSAGE_ERROR
  | MQTT_PUBREL_MESSAGE_ERROR
  | MQTT_PUBCOMP_MESSAGE_ERROR
  | MQTT_SUBSCRIBE_MESSAGE_ERROR
  | MQTT_SUBACK_QOS_ERROR
  | MQTT_SUBACK_MESSAGE_ERROR
  | MQTT_UNSUBSCRIBE_MESSAGE_ERROR
  | MQTT_FIXED_HEADER_RESERVED_ERROR
  | MQTT_BROKER_HOSTNAME_ERROR
  | MQTT_BROKER_CONNECT_ERROR
  | MQTT_MESSAGE_SEND_ERROR
  | MQTT_CLIENT_CONNECT_ERROR
  | MQTT_MESSAGE_RECV_ERROR

text \<open>The number each code is defined as; some callers test its sign or its size.\<close>

fun ret_code :: "mqtt_ret \<Rightarrow> int" where
  "ret_code MQTT_SUCCESS = 0"
| "ret_code MQTT_UNKNOWN = 1"
| "ret_code MQTT_INVALID_PARAM = 2"
| "ret_code MQTT_MEMORY_NOBUFFER = 3"
| "ret_code MQTT_MESSAGE_TYPE_ERROR = 4"
| "ret_code MQTT_PROTOCOL_UNSUPPORT = 5"
| "ret_code MQTT_PROTOCOL_LEVEL_UNSUPPORT = 6"
| "ret_code MQTT_CONNECT_PARSE_ERROR = 7"
| "ret_code MQTT_CONNECT_MESSAGE_ERROR = 8"
| "ret_code MQTT_CLIENT_ID_LENGTH_UNSUPPORT = 9"
| "ret_code MQTT_CONNECT_FLAGS_ERROR = 10"
| "ret_code MQTT_CONNACK_MESSAGE_ERROR = 11"
| "ret_code MQTT_CONNACK_CODE_ERROR = 12"
| "ret_code MQTT_PUBLISH_MESSAGE_ERROR = 13"
| "ret_code MQTT_PUBLISH_QOS_ERROR = 14"
| "ret_code MQTT_PUBACK_MESSAGE_ERROR = 15"
| "ret_code MQTT_PUBREC_MESSAGE_ERROR = 16"
| "ret_code MQTT_PUBREL_MESSAGE_ERROR = 17"
| "ret_code MQTT_PUBCOMP_MESSAGE_ERROR = 18"
| "ret_code MQTT_SUBSCRIBE_MESSAGE_ERROR = 19"
| "ret_code MQTT_SUBACK_QOS_ERROR = 20"
| "ret_code MQTT_SUBACK_MESSAGE_ERROR = 21"
| "ret_code MQTT_UNSUBSCRIBE_MESSAGE_ERROR = 22"
| "ret_code MQTT_FIXED_HEADER_RESERVED_ERROR = 23"
| "ret_code MQTT_BROKER_HOSTNAME_ERROR = 24"
| "ret_code MQTT_BROKER_CONNECT_ERROR = 25"
| "ret_code MQTT_MESSAGE_SEND_ERROR = 26"
| "ret_code MQTT_CLIENT_CONNECT_ERROR = 27"
| "ret_code MQTT_MESSAGE_RECV_ERROR = 28"

lemma ret_code_range: "0 \<le> ret_code r \<and> ret_code r \<le> 28"
  by (cases r) simp_all

lemma ret_code_inject [simp]: "ret_code r = ret_code s \<longleftrightarrow> r = s"
  by (cases r; cases s) simp_all

lemma ret_code_0_iff [simp]: "ret_code r = 0 \<longleftrightarrow> r = MQTT_SUCCESS"
  by (cases r) simp_all

datatype mqtt_message_type =
    MQTT_MESSAGE_TYPE_MIN
  | MQTT_MESSAGE_TYPE_CONNECT
  | MQTT_MESSAGE_TYPE_CONNACK
  | MQTT_MESSAGE_TYPE_PUBLISH
  | MQTT_MESSAGE_TYPE_PUBACK
  | MQTT_MESSAGE_TYPE_PUBREC
  | MQTT_MESSAGE_TYPE_PUBREL
  | MQTT_MESSAGE_TYPE_PUBCOMP
  | MQTT_MESSAGE_TYPE_SUBSCRIBE
  | MQTT_MESSAGE_TYPE_SUBACK
  | MQTT_MESSAGE_TYPE_UNSUBSCRIBE
  | MQTT_MESSAGE_TYPE_UNSUBACK
  | MQTT_MESSAGE_TYPE_PINGREQ
  | MQTT_MESSAGE_TYPE_PINGRESP
  | MQTT_MESSAGE_TYPE_DISCONNECT
  | MQTT_MESSAGE_TYPE_MAX

fun type_code :: "mqtt_message_type \<Rightarrow> u8" where
  "type_code MQTT_MESSAGE_TYPE_MIN = 0"
| "type_code MQTT_MESSAGE_TYPE_CONNECT = 1"
| "type_code MQTT_MESSAGE_TYPE_CONNACK = 2"
| "type_code MQTT_MESSAGE_TYPE_PUBLISH = 3"
| "type_code MQTT_MESSAGE_TYPE_PUBACK = 4"
| "type_code MQTT_MESSAGE_TYPE_PUBREC = 5"
| "type_code MQTT_MESSAGE_TYPE_PUBREL = 6"
| "type_code MQTT_MESSAGE_TYPE_PUBCOMP = 7"
| "type_code MQTT_MESSAGE_TYPE_SUBSCRIBE = 8"
| "type_code MQTT_MESSAGE_TYPE_SUBACK = 9"
| "type_code MQTT_MESSAGE_TYPE_UNSUBSCRIBE = 10"
| "type_code MQTT_MESSAGE_TYPE_UNSUBACK = 11"
| "type_code MQTT_MESSAGE_TYPE_PINGREQ = 12"
| "type_code MQTT_MESSAGE_TYPE_PINGRESP = 13"
| "type_code MQTT_MESSAGE_TYPE_DISCONNECT = 14"
| "type_code MQTT_MESSAGE_TYPE_MAX = 15"

text \<open>
  The enumerators in the order of their values: \<open>all_types ! n\<close> is the enumerator a
  conversion of \<open>n\<close> to the enumeration yields.
\<close>

definition all_types :: "mqtt_message_type list" where
  "all_types =
     [MQTT_MESSAGE_TYPE_MIN, MQTT_MESSAGE_TYPE_CONNECT, MQTT_MESSAGE_TYPE_CONNACK,
      MQTT_MESSAGE_TYPE_PUBLISH, MQTT_MESSAGE_TYPE_PUBACK, MQTT_MESSAGE_TYPE_PUBREC,
      MQTT_MESSAGE_TYPE_PUBREL, MQTT_MESSAGE_TYPE_PUBCOMP, MQTT_MESSAGE_TYPE_SUBSCRIBE,
      MQTT_MESSAGE_TYPE_SUBACK, MQTT_MESSAGE_TYPE_UNSUBSCRIBE, MQTT_MESSAGE_TYPE_UNSUBACK,
      MQTT_MESSAGE_TYPE_PINGREQ, MQTT_MESSAGE_TYPE_PINGRESP, MQTT_MESSAGE_TYPE_DISCONNECT,
      MQTT_MESSAGE_TYPE_MAX]"

definition type_of_code :: "u8 \<Rightarrow> mqtt_message_type" where
  "type_of_code c = (if unat c < 16 then all_types ! unat c else MQTT_MESSAGE_TYPE_MAX)"

lemma type_of_code_type_code [simp]: "type_of_code (type_code t) = t"
  by (cases t) (simp_all add: type_of_code_def all_types_def)

lemma type_code_inject [simp]: "type_code s = type_code t \<longleftrightarrow> s = t"
  by (metis type_of_code_type_code)

lemma type_code_lt_16: "unat (type_code t) < 16"
  by (cases t) simp_all

text \<open>The enumeration is compared with \<^verbatim>\<open><\<close> and \<^verbatim>\<open>></\<close>: its order is the order of the values.\<close>

instantiation mqtt_message_type :: linorder
begin

definition less_eq_mqtt_message_type :: "mqtt_message_type \<Rightarrow> mqtt_message_type \<Rightarrow> bool" where
  "less_eq_mqtt_message_type s t \<longleftrightarrow> type_code s \<le> type_code t"

definition less_mqtt_message_type :: "mqtt_message_type \<Rightarrow> mqtt_message_type \<Rightarrow> bool" where
  "less_mqtt_message_type s t \<longleftrightarrow> type_code s < type_code t"

instance
  by standard (auto simp: less_eq_mqtt_message_type_def less_mqtt_message_type_def
      dest: order.antisym)

end

abbreviation (input) MQTT_QOS_0 :: u8 where "MQTT_QOS_0 \<equiv> 0"
abbreviation (input) MQTT_QOS_1 :: u8 where "MQTT_QOS_1 \<equiv> 1"
abbreviation (input) MQTT_QOS_2 :: u8 where "MQTT_QOS_2 \<equiv> 2"
abbreviation (input) MQTT_QOS_MAX :: u8 where "MQTT_QOS_MAX \<equiv> 3"
abbreviation (input) MQTT_QOS_REJECT :: u8 where "MQTT_QOS_REJECT \<equiv> 0x80"
abbreviation (input) MESSAGE_TYPE_MASK :: u8 where "MESSAGE_TYPE_MASK \<equiv> 0xF0"

definition message_type_encode :: "mqtt_message_type \<Rightarrow> u8" where
  "message_type_encode t = push_bit 4 (type_code t) AND MESSAGE_TYPE_MASK"

text \<open>The message type a first byte carries, as the receivers compute it.\<close>

definition type_bits :: "u8 \<Rightarrow> u8" where
  "type_bits b = drop_bit 4 (b AND MESSAGE_TYPE_MASK)"

lemma type_bits_encode: "type_bits (message_type_encode t) = type_code t"
  by (cases t) (simp_all add: type_bits_def message_type_encode_def)

lemma message_type_encode_inject [simp]: "message_type_encode s = message_type_encode t \<longleftrightarrow> s = t"
  by (metis type_bits_encode type_code_inject)

lemma unat_type_bits: "unat (type_bits b) = unat b div 16"
proof -
  have "drop_bit 4 MESSAGE_TYPE_MASK = mask 4" by (simp add: mask_eq_exp_minus_1)
  then have "type_bits b = take_bit 4 (drop_bit 4 b)"
    unfolding type_bits_def drop_bit_and take_bit_eq_mask by simp
  then have "unat (type_bits b) = unat b div 16 mod 16"
    by (simp only: unsigned_take_bit_eq unat_drop_bit_eq) (simp add: take_bit_eq_mod drop_bit_eq_div)
  moreover have "unat b div 16 < 16"
    using unat_u8_lt [of b] by (intro less_mult_imp_div_less) linarith
  ultimately show ?thesis by simp
qed

lemma unat_type_bits_lt: "unat (type_bits b) < 16"
  using unat_u8_lt [of b] unfolding unat_type_bits by (intro less_mult_imp_div_less) linarith

lemma message_type_encode_table:
  "message_type_encode MQTT_MESSAGE_TYPE_CONNECT = 0x10"
  "message_type_encode MQTT_MESSAGE_TYPE_CONNACK = 0x20"
  "message_type_encode MQTT_MESSAGE_TYPE_PUBLISH = 0x30"
  "message_type_encode MQTT_MESSAGE_TYPE_SUBSCRIBE = 0x80"
  "message_type_encode MQTT_MESSAGE_TYPE_SUBACK = 0x90"
  "message_type_encode MQTT_MESSAGE_TYPE_UNSUBSCRIBE = 0xA0"
  "message_type_encode MQTT_MESSAGE_TYPE_PINGREQ = 0xC0"
  "message_type_encode MQTT_MESSAGE_TYPE_PINGRESP = 0xD0"
  "message_type_encode MQTT_MESSAGE_TYPE_DISCONNECT = 0xE0"
  by (simp_all add: message_type_encode_def)

text \<open>Masking keeps the type; the rest of the byte are the flags of the message.\<close>

lemma type_mask: "MESSAGE_TYPE_MASK = NOT (mask 4)"
  by (simp add: mask_eq_exp_minus_1)

lemma and_type_mask: "b AND MESSAGE_TYPE_MASK = push_bit 4 (type_bits b)"
  unfolding type_bits_def type_mask by (rule bit_word_eqI) (auto simp: bit_simps)

lemma and_type_mask_eq_encode:
  "b AND MESSAGE_TYPE_MASK = message_type_encode t \<longleftrightarrow> type_bits b = type_code t"
proof
  assume eq: "b AND MESSAGE_TYPE_MASK = message_type_encode t"
  have "type_bits (b AND MESSAGE_TYPE_MASK) = type_bits b"
    by (simp only: type_bits_def and.assoc and.idem)
  with eq show "type_bits b = type_code t" by (simp only: type_bits_encode)
next
  assume "type_bits b = type_code t"
  then have "b AND MESSAGE_TYPE_MASK = push_bit 4 (type_code t)" by (simp only: and_type_mask)
  then show "b AND MESSAGE_TYPE_MASK = message_type_encode t"
    unfolding message_type_encode_def by (metis and.assoc and.idem)
qed

lemma unat_and_low_4: "unat (b AND NOT MESSAGE_TYPE_MASK) = unat b mod 16"
proof -
  have "b AND NOT MESSAGE_TYPE_MASK = take_bit 4 b"
    unfolding type_mask bit.double_compl by (simp only: take_bit_eq_mask)
  then show ?thesis by (simp only: unsigned_take_bit_eq) (simp add: take_bit_eq_mod)
qed

lemma has_type_iff: "b AND MESSAGE_TYPE_MASK = message_type_encode t \<longleftrightarrow> unat b div 16 = unat (type_code t)"
  unfolding and_type_mask_eq_encode unat_type_bits [symmetric]
  by (rule word_eq_iff_unsigned [where ?'a = nat])

lemma no_flags_iff: "b AND NOT MESSAGE_TYPE_MASK = 0 \<longleftrightarrow> unat b mod 16 = 0"
  unfolding unat_and_low_4 [symmetric] by (simp only: unat_eq_0)

lemma qos_cases: "(q :: u8) < 3 \<Longrightarrow> q = 0 \<or> q = 1 \<or> q = 2"
proof -
  assume "q < 3"
  then have "unat q = 0 \<or> unat q = 1 \<or> unat q = 2" by (auto simp: word_less_nat_alt)
  then show ?thesis by (auto simp: word_eq_iff_unsigned [where ?'a = nat])
qed

end
