(* ===== verification/Remaining_Length.thy ===== *)
theory Remaining_Length
  imports Common
begin

text \<open>
  The variable-length encoding of the remaining length, from message/message.c: the two
  loops at the width they have in C, the encoding as a function on natural numbers
  (\<open>varint\<close>), and the lemmas that relate them: the encoder writes \<open>varint\<close>, the
  decoder inverts it and stays within four bytes and 28 bits on every input.
\<close>

section \<open>The two loops\<close>

text \<open>
  The loop of \<^verbatim>\<open>remain_length_encode\<close>; \<open>encode\<close> is the array (or
  the place \<open>off\<close> in a message under construction) that receives the bytes.
\<close>

function remain_length_encode_loop :: "u32 \<Rightarrow> u8 list \<Rightarrow> nat \<Rightarrow> nat \<Rightarrow> (u8 list \<times> nat) res" where
  "remain_length_encode_loop len encode off index =
     (let byte = ucast (len mod 128); len' = len div 128
      in fbind (wr encode (off + index) (if 0 < len' then byte OR push_bit 7 1 else byte)) (\<lambda>encode'.
         if 0 < len' then remain_length_encode_loop len' encode' off (index + 1)
         else Inr (encode', index + 1)))"
  by pat_completeness auto
termination
proof (relation "measure (\<lambda>(len, _). unat len)", goal_cases)
  case (2 len encode off index x xa encode')
  then have "unat len div 128 \<noteq> 0" by (auto simp: word_greater_zero_iff unat_div_distrib word_eq_iff_unsigned [where ?'a = nat])
  with 2 show ?case by (auto simp: unat_div_distrib)
qed simp

declare remain_length_encode_loop.simps [simp del]

definition remain_length_encode :: "u32 \<Rightarrow> u8 list \<Rightarrow> nat \<Rightarrow> (mqtt_ret \<times> u8 list \<times> u32) res" where
  "remain_length_encode len encode off =
     fbind (remain_length_encode_loop len encode off 0) (\<lambda>(encode', index).
       let encode_len = of_nat index
       in Inr (if 4 < encode_len then MQTT_INVALID_PARAM else MQTT_SUCCESS, encode', encode_len))"

function remain_length_decode_loop :: "u8 list \<Rightarrow> u32 \<Rightarrow> nat \<Rightarrow> u32 \<Rightarrow> u32 \<Rightarrow> (nat \<times> u32) res" where
  "remain_length_decode_loop encode encode_len index base len =
     (if index < unat encode_len then
        fbind (rd encode index) (\<lambda>b.
          let byte_value = b AND NOT (push_bit 7 1); len' = len + ucast byte_value * base
          in if b AND push_bit 7 1 = 0 then Inr (index, len')
             else remain_length_decode_loop encode encode_len (index + 1) (push_bit 7 base) len')
      else Inr (index, len))"
  by pat_completeness auto
termination
  by (relation "measure (\<lambda>(_, n, i, _). unat n - i)") auto

declare remain_length_decode_loop.simps [simp del]

text \<open>The result: the return code, the new \<open>*encode_len\<close>, and \<open>*length\<close>.\<close>

definition remain_length_decode :: "u8 list \<Rightarrow> u32 \<Rightarrow> (mqtt_ret \<times> u32 \<times> u32) res" where
  "remain_length_decode encode encode_len =
     (let n = if encode_len \<le> 4 then encode_len else 4
      in fbind (remain_length_decode_loop encode n 0 1 0) (\<lambda>(index, len).
           Inr (MQTT_SUCCESS, of_nat (index + 1), len)))"

subsection \<open>The encoding as a function on numbers\<close>

fun varint :: "nat \<Rightarrow> u8 list" where
  "varint n = (if n < 128 then [of_nat n] else of_nat (n mod 128 + 128) # varint (n div 128))"

declare varint.simps [simp del]

lemma varint_small: "n < 128 \<Longrightarrow> varint n = [of_nat n]"
  by (simp add: varint.simps)

lemma varint_large: "\<not> n < 128 \<Longrightarrow> varint n = of_nat (n mod 128 + 128) # varint (n div 128)"
  by (subst varint.simps) simp

lemma varint_nonempty [simp]: "varint n \<noteq> []"
  by (subst varint.simps) simp

lemma length_varint:
  "length (varint n) =
     (if n < 128 then 1 else Suc (length (varint (n div 128))))"
  by (subst varint.simps) simp

lemma length_varint_le:
  "n < 128 ^ k \<Longrightarrow> 0 < k \<Longrightarrow> length (varint n) \<le> k"
proof (induction k arbitrary: n)
  case 0
  then show ?case by simp
next
  case (Suc k)
  show ?case
  proof (cases "n < 128")
    case True
    then show ?thesis by (simp add: length_varint)
  next
    case False
    with Suc.prems have "0 < k" by (cases k) auto
    moreover from Suc.prems have "n div 128 < 128 ^ k"
      by (simp add: less_mult_imp_div_less mult.commute)
    ultimately have "length (varint (n div 128)) \<le> k" by (intro Suc.IH)
    with False show ?thesis by (subst length_varint) simp
  qed
qed

lemma length_varint_gt:
  "128 ^ k \<le> n \<Longrightarrow> k < length (varint n)"
proof (induction k arbitrary: n)
  case 0
  then show ?case by (cases "varint n") auto
next
  case (Suc k)
  have "(1::nat) \<le> 128 ^ k" by simp
  with Suc.prems have "\<not> n < 128"
    unfolding power_Suc by linarith
  moreover from Suc.prems have "128 ^ k \<le> n div 128"
    by (simp add: less_eq_div_iff_mult_less_eq mult.commute)
  ultimately show ?case using Suc.IH [of "n div 128"] by (subst length_varint) simp
qed

lemma length_varint_4: "length (varint n) \<le> 4 \<longleftrightarrow> n < 268435456"
  using length_varint_le [of n 4] length_varint_gt [of 4 n] by (cases "n < 268435456") auto

lemma length_varint_pos: "0 < length (varint n)"
  by simp

lemma length_varint_u32: "length (varint (unat (w :: u32))) \<le> 5"
  using length_varint_le [of "unat w" 5] unat_u32_lt [of w] by simp

subsection \<open>The encoder writes this encoding\<close>

lemma ucast_u32_u8: "(ucast (x :: u32) :: u8) = of_nat (unat x)"
  by simp

lemma low_group: "(ucast ((x :: u32) mod 128) :: u8) = of_nat (unat x mod 128)"
  unfolding ucast_u32_u8 by (simp add: unat_mod_distrib)

lemma low_group_continued:
  "(of_nat (k mod 128) :: u8) OR push_bit 7 1 = of_nat (k mod 128 + 128)"
proof -
  have lt: "k mod 128 < 128" by simp
  then have "unat (of_nat (k mod 128) :: u8) = k mod 128"
    by (intro unat_u8_of_nat) linarith
  with lt have "unat ((of_nat (k mod 128) :: u8) OR 128) = k mod 128 + 128"
    by (simp add: unat_u8_or_128)
  also have "\<dots> = unat (of_nat (k mod 128 + 128) :: u8)"
    using lt by (intro unat_u8_of_nat [symmetric]) linarith
  finally have "unat ((of_nat (k mod 128) :: u8) OR push_bit 7 1) = unat (of_nat (k mod 128 + 128) :: u8)"
    by simp
  then show ?thesis by (simp only: word_eq_iff_unsigned [where ?'a = nat])
qed

lemma remain_length_encode_loop_eq:
  "remain_length_encode_loop len encode off index =
     fbind (wr_bytes encode (off + index) (varint (unat len)))
       (\<lambda>e. Inr (e, index + length (varint (unat len))))"
proof (induction len encode off index rule: remain_length_encode_loop.induct)
  case (1 len encode off index)
  have gt: "0 < len div 128 \<longleftrightarrow> \<not> unat len < 128"
    by (auto simp: word_greater_zero_iff word_eq_iff_unsigned [where ?'a = nat] unat_div_distrib)
  show ?case
  proof (cases "unat len < 128")
    case True
    with gt show ?thesis
      by (subst remain_length_encode_loop.simps)
        (simp add: varint_small wr_as_bytes low_group Let_def)
  next
    case False
    let ?b = "of_nat (unat len mod 128 + 128) :: u8"
    have byte: "(if 0 < len div 128 then (ucast (len mod 128) :: u8) OR push_bit 7 1 else ucast (len mod 128)) = ?b"
      using False gt by (simp only: low_group low_group_continued if_True simp_thms)
    have IH: "remain_length_encode_loop (len div 128) e off (index + 1) =
        fbind (wr_bytes e (off + (index + 1)) (varint (unat len div 128)))
          (\<lambda>e. Inr (e, index + 1 + length (varint (unat len div 128))))"
      if "wr encode (off + index) ?b = Inr e" for e
      using "1.IH" [OF refl refl, of e] False gt that unfolding byte by (simp add: unat_div_distrib)
    have "remain_length_encode_loop len encode off index =
        fbind (wr encode (off + index) ?b) (\<lambda>e. remain_length_encode_loop (len div 128) e off (index + 1))"
      using False gt byte
      by (subst remain_length_encode_loop.simps) (simp only: Let_def if_True simp_thms)
    also have "\<dots> = fbind (wr encode (off + index) ?b) (\<lambda>e.
        fbind (wr_bytes e (off + (index + 1)) (varint (unat len div 128)))
          (\<lambda>e. Inr (e, index + 1 + length (varint (unat len div 128)))))"
      by (rule fbind_cong [OF refl IH])
    also have "\<dots> = fbind (wr_bytes encode (off + index) (varint (unat len)))
       (\<lambda>e. Inr (e, index + length (varint (unat len))))"
      using False wr_bytes_append [of encode "off + index" "[?b]" "varint (unat len div 128)"]
      by (simp add: varint_large wr_as_bytes fbind_assoc add.assoc)
    finally show ?thesis .
  qed
qed

text \<open>
  What the function does: it writes the encoding where it is told to, faults when there is
  no room for it, and reports an invalid parameter exactly for lengths of \<open>2\<^sup>2\<^sup>8\<close> and more.
\<close>

lemma remain_length_encode_eq:
  "remain_length_encode len encode off =
     fbind (wr_bytes encode off (varint (unat len))) (\<lambda>e.
       Inr (if unat len < 268435456 then MQTT_SUCCESS else MQTT_INVALID_PARAM, e,
            of_nat (length (varint (unat len)))))"
proof -
  let ?n = "length (varint (unat len))"
  have "?n \<le> 5" by (rule length_varint_u32)
  then have "unat (of_nat ?n :: u32) = ?n" by (intro unat_u32_of_nat) linarith
  then have "4 < (of_nat ?n :: u32) \<longleftrightarrow> \<not> unat len < 268435456"
    using length_varint_4 [of "unat len"] by (auto simp: word_less_nat_alt)
  then show ?thesis
    unfolding remain_length_encode_def remain_length_encode_loop_eq
    by (auto simp: fbind_assoc Let_def)
qed

subsection \<open>The decoder\<close>

lemma value_mask: "(NOT (push_bit 7 1) :: u8) = 127"
  by simp

lemma value_bits: "(ucast ((b :: u8) AND NOT (push_bit 7 1)) :: u32) = of_nat (unat b mod 128)"
proof -
  have "unat (ucast (b AND NOT (push_bit 7 1)) :: u32) = unat b mod 128"
    unfolding value_mask by (simp add: unat_ucast_u8_u32 unat_u8_and_127)
  also have "\<dots> = unat (of_nat (unat b mod 128) :: u32)"
    by (rule unat_u32_of_nat [symmetric], rule less_trans [of _ 128]) simp_all
  finally show ?thesis by (simp only: word_eq_iff_unsigned [where ?'a = nat])
qed

lemma continuation_bit: "(b :: u8) AND push_bit 7 1 = 0 \<longleftrightarrow> unat b < 128"
  using u8_and_128 [of b] by simp

lemma remain_length_decode_loop_step:
  "remain_length_decode_loop encode el index base len =
     (if index < unat el then
        fbind (rd encode index) (\<lambda>b.
          let len' = len + of_nat (unat b mod 128) * base
          in if unat b < 128 then Inr (index, len')
             else remain_length_decode_loop encode el (Suc index) (128 * base) len')
      else Inr (index, len))"
proof -
  have "push_bit 7 base = 128 * base" by (simp add: push_bit_eq_mult)
  then show ?thesis
    by (subst remain_length_decode_loop.simps) (simp only: value_bits continuation_bit Let_def Suc_eq_plus1)
qed

lemma collect_groups:
  "(acc :: u32) + of_nat a * base + of_nat c * (128 * base) = acc + of_nat (a + 128 * c) * base"
  by (simp add: algebra_simps)

lemma decode_loop_varint:
  "length pre + length (varint n) \<le> unat el \<Longrightarrow>
   remain_length_decode_loop (pre @ varint n @ rest) el (length pre) base acc =
     Inr (length pre + length (varint n) - 1, acc + of_nat n * base)"
proof (induction n arbitrary: pre base acc rule: varint.induct)
  case (1 n)
  show ?case
  proof (cases "n < 128")
    case True
    then have "unat (of_nat n :: u8) = n" by (intro unat_u8_of_nat) linarith
    with True "1.prems" show ?thesis
      by (subst remain_length_decode_loop_step) (simp add: varint_small rd_append Let_def)
  next
    case False
    let ?b = "of_nat (n mod 128 + 128) :: u8"
    have lt: "n mod 128 < 128" by simp
    then have b: "unat ?b = n mod 128 + 128" by (intro unat_u8_of_nat) linarith
    have v: "varint n = ?b # varint (n div 128)" using False by (rule varint_large)
    have inside: "length pre < unat el" using "1.prems" by (simp add: v)
    have "remain_length_decode_loop (pre @ varint n @ rest) el (length pre) base acc =
        remain_length_decode_loop ((pre @ [?b]) @ varint (n div 128) @ rest) el (length (pre @ [?b]))
          (128 * base) (acc + of_nat (n mod 128) * base)"
      using inside b by (subst remain_length_decode_loop_step) (simp add: v rd_append Let_def del: of_nat_add)
    also have "\<dots> = Inr (length (pre @ [?b]) + length (varint (n div 128)) - 1,
        acc + of_nat (n mod 128) * base + of_nat (n div 128) * (128 * base))"
      using False "1.prems" by (intro "1.IH") (simp_all add: v)
    also have "acc + of_nat (n mod 128) * base + of_nat (n div 128) * (128 * base) =
        acc + of_nat (n mod 128 + 128 * (n div 128)) * base"
      by (rule collect_groups)
    also have "n mod 128 + 128 * (n div 128) = n" by simp
    finally show ?thesis by (simp add: v)
  qed
qed

text \<open>The decoder inverts the encoder, whatever follows the encoding.\<close>

lemma remain_length_decode_varint:
  assumes "n < 268435456" and "length (varint n) \<le> unat el"
  shows "remain_length_decode (varint n @ rest) el =
           Inr (MQTT_SUCCESS, of_nat (length (varint n)), of_nat n)"
proof -
  have "length (varint n) \<le> 4" using assms(1) by (simp add: length_varint_4)
  with assms(2) have "length (varint n) \<le> unat (if el \<le> 4 then el else 4)" by simp
  then have "remain_length_decode_loop (varint n @ rest) (if el \<le> 4 then el else 4) 0 1 0 =
      Inr (length (varint n) - 1, of_nat n)"
    using decode_loop_varint [of "[]" n "if el \<le> 4 then el else 4" rest 1 0] by simp
  moreover have "length (varint n) - 1 + 1 = length (varint n)"
    using length_varint_pos [of n] by linarith
  ultimately show ?thesis
    unfolding remain_length_decode_def by (simp only: Let_def fbind.simps prod.case)
qed

text \<open>
  On any bytes: the decoder examines at most four of them, its result stays below
  \<open>2\<^sup>2\<^sup>8\<close>, and the number of bytes it reports is between 1 and one more than the number
  it was allowed to look at.
\<close>

lemma decode_loop_bounds:
  "remain_length_decode_loop p el index base len = Inr (i, v) \<Longrightarrow>
   unat el \<le> 4 \<Longrightarrow> index \<le> unat el \<Longrightarrow> unat base = 128 ^ index \<Longrightarrow> unat len < 128 ^ index \<Longrightarrow>
   index \<le> i \<and> i \<le> unat el \<and> unat v < 128 ^ 4"
proof (induction p el index base len rule: remain_length_decode_loop.induct)
  case (1 p el index base len)
  show ?case
  proof (cases "index < unat el")
    case False
    with "1.prems" have "i = index" "v = len"
      by (auto simp: remain_length_decode_loop_step)
    moreover have "(128::nat) ^ index \<le> 128 ^ 4"
      using "1.prems"(2,3) by (intro power_increasing) auto
    ultimately show ?thesis using "1.prems" by auto
  next
    case True
    from "1.prems"(1) True obtain b where b: "rd p index = Inr b"
      by (subst (asm) remain_length_decode_loop_step) (auto simp: fbind_eq_Inr)
    let ?len = "len + of_nat (unat b mod 128) * base"
    have idx: "index \<le> 3" using True "1.prems"(2) by simp
    have pw: "(128::nat) ^ Suc index \<le> 128 ^ 4" using idx by (intro power_increasing) auto
    have "unat b mod 128 \<le> 127" by (simp add: less_Suc_eq_le [symmetric])
    then have part: "unat len + (unat b mod 128) * 128 ^ index < 128 ^ Suc index"
      using "1.prems"(5) mult_le_mono1 [of "unat b mod 128" 127 "128 ^ index"]
      unfolding power_Suc by linarith
    have "unat (of_nat (unat b mod 128) :: u32) = unat b mod 128"
      by (rule unat_u32_of_nat, rule less_trans [of _ 128]) simp_all
    then have mul: "unat (of_nat (unat b mod 128) * base :: u32) = (unat b mod 128) * 128 ^ index"
      using part pw "1.prems"(4) by (subst unat_word_ariths) (simp add: mod_less)
    have val: "unat ?len = unat len + (unat b mod 128) * 128 ^ index"
      unfolding mul [symmetric] by (rule unat_u32_add) (use mul part pw in simp)
    have base': "unat (128 * base) = 128 ^ Suc index"
      using pw "1.prems"(4) by (subst unat_word_ariths) simp
    show ?thesis
    proof (cases "unat b < 128")
      case True
      with \<open>index < unat el\<close> "1.prems"(1) b have "i = index" "v = ?len"
        using remain_length_decode_loop_step [of p el index base len] by (simp_all add: Let_def)
      with val part pw idx \<open>index < unat el\<close> show ?thesis by simp
    next
      case False
      with True "1.prems"(1) b
      have "remain_length_decode_loop p el (index + 1) (push_bit 7 base)
              (len + ucast (b AND NOT (push_bit 7 1)) * base) = Inr (i, v)"
        by (subst (asm) remain_length_decode_loop.simps)
          (simp only: if_True fbind.simps Let_def continuation_bit if_False)
      then have "index + 1 \<le> i \<and> i \<le> unat el \<and> unat v < 128 ^ 4"
        using True False b val part base' "1.prems"(2)
        by (intro "1.IH" [OF True b refl refl])
          (simp_all only: value_bits continuation_bit, simp_all add: push_bit_eq_mult mult.commute)
      then show ?thesis by simp
    qed
  qed
qed

lemma remain_length_decode_bounds:
  assumes "remain_length_decode p el = Inr (r, n, v)"
  shows "r = MQTT_SUCCESS \<and> 1 \<le> unat n \<and> unat n \<le> min 4 (unat el) + 1 \<and> unat v < 268435456"
proof -
  let ?el = "if el \<le> 4 then el else 4"
  have el: "unat ?el = min 4 (unat el)" by (auto simp: word_le_nat_alt)
  from assms obtain i where i: "remain_length_decode_loop p ?el 0 1 0 = Inr (i, v)"
    and n: "n = of_nat (i + 1)" and r: "r = MQTT_SUCCESS"
    unfolding remain_length_decode_def Let_def by (auto simp: fbind_eq_Inr)
  from i have bounds: "i \<le> unat ?el \<and> unat v < 128 ^ 4"
    using decode_loop_bounds [OF i] el by simp
  with el have "i + 1 \<le> 5" by simp
  then have "unat n = i + 1" unfolding n by (intro unat_u32_of_nat) linarith
  with bounds el r show ?thesis by simp
qed

lemma remain_length_decode_none:
  "remain_length_decode p 0 = Inr (MQTT_SUCCESS, 1, 0)"
  by (simp add: remain_length_decode_def remain_length_decode_loop_step [of p 0])

text \<open>Where the bytes the decoder may look at can be read, it returns.\<close>

lemma decode_loop_returns:
  "unat el \<le> length p \<Longrightarrow> \<exists>i v. remain_length_decode_loop p el index base len = Inr (i, v)"
proof (induction p el index base len rule: remain_length_decode_loop.induct)
  case (1 p el index base len)
  show ?case
  proof (cases "index < unat el")
    case idx: True
    with "1.prems" have b: "rd p index = Inr (p ! index)" by (simp add: rd_def)
    show ?thesis
    proof (cases "p ! index AND push_bit 7 1 = 0")
      case True
      then show ?thesis
        by (subst remain_length_decode_loop.simps) (simp only: idx b True if_True fbind.simps Let_def simp_thms, blast)
    next
      case False
      from "1.IH" [OF idx b refl refl False "1.prems"] obtain i v
        where "remain_length_decode_loop p el (index + 1) (push_bit 7 base)
          (len + ucast (p ! index AND NOT (push_bit 7 1)) * base) = Inr (i, v)" by blast
      then show ?thesis
        by (subst remain_length_decode_loop.simps) (simp only: idx b False if_True if_False fbind.simps Let_def simp_thms, blast)
    qed
  qed (subst remain_length_decode_loop.simps, simp)
qed

lemma remain_length_decode_returns:
  assumes "min 4 (unat el) \<le> length p"
  shows "\<exists>n v. remain_length_decode p el = Inr (MQTT_SUCCESS, n, v)"
proof -
  have "unat (if el \<le> 4 then el else 4) = min 4 (unat el)" by (auto simp: word_le_nat_alt)
  with decode_loop_returns [of "if el \<le> 4 then el else 4" p 0 1 0] assms show ?thesis
    by (auto simp: remain_length_decode_def Let_def)
qed

section \<open>Properties\<close>

text \<open>
  C17. The encoder is the reference. For every 32-bit length, every buffer and every offset, the
  loop on machine words does what writing the number's groups of seven bits (\<open>varint\<close>, the
  encoding of the standard, on natural numbers) at the offset does: the same bytes, the same
  number of them, the same access out of bounds when they do not fit; and the call is refused
  exactly for lengths of \<open>2\<^sup>2\<^sup>8\<close> and more, which the standard has no encoding for.
\<close>

theorem remain_length_encode_is_varint:
  "remain_length_encode len encode off =
     fbind (wr_bytes encode off (varint (unat len))) (\<lambda>e.
       Inr (if unat len < 268435456 then MQTT_SUCCESS else MQTT_INVALID_PARAM, e,
            of_nat (length (varint (unat len)))))"
  by (rule remain_length_encode_eq)

text \<open>
  C18. A remaining length below \<open>2\<^sup>2\<^sup>8\<close> survives its round trip: the encoder
  writes at most four bytes, anywhere in a buffer that holds them, and reports their number; the
  decoder reads the same number and the same length back from them, whatever follows.
\<close>

theorem remain_length_roundtrip:
  assumes "unat len < 268435456" and "off + 4 \<le> length buf" and "4 \<le> unat avail"
  shows "\<exists>buf' n. remain_length_encode len buf off = Inr (MQTT_SUCCESS, buf', n) \<and> 1 \<le> unat n \<and> unat n \<le> 4 \<and>
     length buf' = length buf \<and> take off buf' = take off buf \<and>
     remain_length_decode (drop off buf') avail = Inr (MQTT_SUCCESS, n, len)"
proof -
  let ?v = "varint (unat len)"
  have four: "length ?v \<le> 4" using assms(1) by (simp add: length_varint_4)
  then have fit: "wr_bytes buf off ?v = Inr (take off buf @ ?v @ drop (off + length ?v) buf)"
    using assms(2) by (intro wr_bytes_fits) simp
  have n: "unat (of_nat (length ?v) :: u32) = length ?v" by (rule unat_u32_of_nat) (use four in linarith)
  have off: "drop off (take off buf @ ?v @ drop (off + length ?v) buf) = ?v @ drop (off + length ?v) buf"
    using assms(2) by simp
  have "remain_length_decode (?v @ drop (off + length ?v) buf) avail =
      Inr (MQTT_SUCCESS, of_nat (length ?v), of_nat (unat len))"
    using assms four by (intro remain_length_decode_varint) simp_all
  moreover have "length (take off buf @ ?v @ drop (off + length ?v) buf) = length buf"
    using wr_bytes_length [OF fit] .
  moreover have "1 \<le> length ?v" using length_varint_pos [of "unat len"] by linarith
  moreover have "take off (take off buf @ ?v @ drop (off + length ?v) buf) = take off buf"
    using assms(2) by simp
  ultimately show ?thesis
    unfolding remain_length_encode_eq fit using assms(1) four n off by (auto simp del: drop_append take_append)
qed

theorem remain_length_roundtrip_witness:
  "\<exists>buf' n. remain_length_encode 321 [9, 0, 0, 0, 0] 1 = Inr (MQTT_SUCCESS, buf', n) \<and> 1 \<le> unat n \<and> unat n \<le> 4 \<and>
     length buf' = length [9, 0, 0, 0, 0 :: u8] \<and> take 1 buf' = take 1 [9, 0, 0, 0, 0] \<and>
     remain_length_decode (drop 1 buf') 4 = Inr (MQTT_SUCCESS, n, 321)"
  by (rule remain_length_roundtrip) simp_all

text \<open>
  A length that does not fit is reported too late: for a length of \<open>2\<^sup>2\<^sup>8\<close>
  or more the encoder writes a fifth byte before it counts, so the array of four bytes that its
  parameter is declared as, and that every caller but one passes, is overrun.
\<close>

theorem remain_length_encode_overruns:
  assumes "268435456 \<le> unat len" and "length four = 4" and "length five = 5"
  shows "remain_length_encode len four 0 = Inl Out_Of_Bounds \<and>
     (\<exists>buf. remain_length_encode len five 0 = Inr (MQTT_INVALID_PARAM, buf, 5))"
proof -
  have "\<not> length (varint (unat len)) \<le> 4" using assms by (simp add: length_varint_4)
  with length_varint_u32 [of len] have five: "length (varint (unat len)) = 5" by linarith
  then show ?thesis using assms by (simp add: remain_length_encode_eq wr_bytes_def)
qed

theorem remain_length_encode_overruns_witness:
  "remain_length_encode 0x10000000 [0, 0, 0, 0] 0 = Inl Out_Of_Bounds \<and>
   (\<exists>buf. remain_length_encode 0x10000000 [0, 0, 0, 0, 0] 0 = Inr (MQTT_INVALID_PARAM, buf, 5))"
  by (rule remain_length_encode_overruns) simp_all

text \<open>
  C30. The decoder is safe on arbitrary bytes: when the bytes it may look at exist, at most four
  of them, it returns, with a length below \<open>2\<^sup>2\<^sup>8\<close>. The number of bytes it
  reports can be one more than it was allowed to look at.
\<close>

theorem remain_length_decode_safe:
  assumes "min 4 (unat avail) \<le> length p"
  shows "\<exists>n v. remain_length_decode p avail = Inr (MQTT_SUCCESS, n, v) \<and>
     1 \<le> unat n \<and> unat n \<le> min 4 (unat avail) + 1 \<and> unat v < 268435456"
proof -
  from remain_length_decode_returns [OF assms] obtain n v
    where "remain_length_decode p avail = Inr (MQTT_SUCCESS, n, v)" by blast
  with remain_length_decode_bounds [OF this] show ?thesis by simp
qed

theorem remain_length_decode_safe_witness:
  "\<exists>n v. remain_length_decode [0xFF, 0x80] 2 = Inr (MQTT_SUCCESS, n, v) \<and>
     1 \<le> unat n \<and> unat n \<le> min 4 (unat (2 :: u32)) + 1 \<and> unat v < 268435456"
  by (rule remain_length_decode_safe) simp

end
