(* ===== verification/Message.thy ===== *)
theory Message
  imports Remaining_Length
begin

text \<open>
  The rest of message/message.c: the fields made of a 16-bit length and that many bytes,
  and the first look at a received message. The locale \<open>prefix_code\<close> is what the
  messages need of an encoding of one field: a decoder that finds the field again whatever
  follows it. Its consequences (no ambiguity in a concatenation of fields) are proved once,
  and both field encodings of the program are interpretations.
\<close>

section \<open>String fields\<close>

text \<open>Reading \<open>n\<close> bytes through a pointer that may be \<^verbatim>\<open>NULL\<close> when \<open>n\<close> is 0.\<close>

definition rd_ptr :: "u8 list option \<Rightarrow> nat \<Rightarrow> u8 list res" where
  "rd_ptr p n =
     (case p of None \<Rightarrow> (if n = 0 then Inr [] else Inl Null_Deref) | Some bs \<Rightarrow> rd_bytes bs n)"

text \<open>
  The destination is a buffer and the offset of \<^verbatim>\<open>buffer\<close> in it. The result
  is the return code, the buffer and \<open>*buffer_len\<close>.
\<close>

definition build_string_field ::
  "u8 list option \<Rightarrow> u16 \<Rightarrow> (u8 list \<times> nat) option \<Rightarrow> u32 option \<Rightarrow>
   (mqtt_ret \<times> u8 list option \<times> u32 option) res" where
  "build_string_field str str_len buffer buffer_len =
     (if str = None \<and> str_len \<noteq> 0 then Inr (MQTT_INVALID_PARAM, map_option fst buffer, buffer_len)
      else case (buffer, buffer_len) of
        (Some (buf, off), Some _) \<Rightarrow>
          let network_len = htons str_len
          in fbind (wr_bytes buf off (mem_of_u16 network_len)) (\<lambda>buf.
             fbind (rd_ptr str (unat str_len)) (\<lambda>s.
             fbind (wr_bytes buf (off + 2) s) (\<lambda>buf.
             Inr (MQTT_SUCCESS, Some buf, Some (ucast str_len + 2)))))
      | _ \<Rightarrow> Inr (MQTT_INVALID_PARAM, map_option fst buffer, buffer_len))"

text \<open>The parameter \<^verbatim>\<open>buffer_len\<close> is not used by the code.\<close>

definition parse_string_field ::
  "u8 list option \<Rightarrow> u32 \<Rightarrow> u8 list option \<Rightarrow> u16 option \<Rightarrow>
   (mqtt_ret \<times> u8 list option \<times> u16 option) res" where
  "parse_string_field buffer buffer_len str str_len =
     (case (buffer, str_len) of
        (Some p, Some _) \<Rightarrow>
          fbind (rd_u16 p) (\<lambda>raw. let network_len = ntohs raw in
          fbind (case str of None \<Rightarrow> Inr None
                 | Some dst \<Rightarrow>
                     fbind (adv p 2) (\<lambda>q. fbind (rd_bytes q (unat network_len)) (\<lambda>bs.
                     fbind (wr_bytes dst 0 bs) (\<lambda>dst. Inr (Some dst))))) (\<lambda>str.
          Inr (MQTT_SUCCESS, str, Some network_len)))
      | _ \<Rightarrow> Inr (MQTT_INVALID_PARAM, str, str_len))"

text \<open>\<^verbatim>\<open>str\<close> is the address of a pointer: \<open>Some v\<close> is a variable that holds \<open>v\<close>.\<close>

definition locate_string_field ::
  "u8 list option \<Rightarrow> u32 \<Rightarrow> u8 list option option \<Rightarrow> u16 option \<Rightarrow>
   (mqtt_ret \<times> u8 list option option \<times> u16 option) res" where
  "locate_string_field buffer buffer_len str str_len =
     (case (buffer, str_len, str) of
        (Some p, Some _, Some _) \<Rightarrow>
          fbind (adv p 2) (\<lambda>q.
          fbind (rd_u16 p) (\<lambda>raw.
          Inr (MQTT_SUCCESS, Some (Some q), Some (ntohs raw))))
      | _ \<Rightarrow> Inr (MQTT_INVALID_PARAM, str, str_len))"

text \<open>
  The calls the message builders and parsers make: the buffer and the result variables
  exist, so their contents come back without an option.
\<close>

definition put_string :: "u8 list option \<Rightarrow> u16 \<Rightarrow> u8 list \<Rightarrow> nat \<Rightarrow> u32 \<Rightarrow> (mqtt_ret \<times> u8 list \<times> u32) res" where
  "put_string str str_len buf off field_len =
     fbind (build_string_field str str_len (Some (buf, off)) (Some field_len)) (\<lambda>(ret, b, n).
     fbind (deref b) (\<lambda>b. fbind (deref n) (\<lambda>n. Inr (ret, b, n))))"

definition locate_string :: "u8 list \<Rightarrow> u32 \<Rightarrow> (mqtt_ret \<times> u8 list option \<times> u16) res" where
  "locate_string p len =
     fbind (locate_string_field (Some p) len (Some None) (Some 0)) (\<lambda>(ret, s, n).
     fbind (deref s) (\<lambda>s. fbind (deref n) (\<lambda>n. Inr (ret, s, n))))"

text \<open>A field on the wire.\<close>

definition string_field :: "u16 \<Rightarrow> u8 list \<Rightarrow> u8 list" where
  "string_field n s = be16 n @ take (unat n) s"

definition field :: "u8 list \<Rightarrow> u8 list" where
  "field s = be16 (of_nat (length s)) @ s"

lemma string_field_eq_field: "unat n = length s \<Longrightarrow> string_field n s = field s"
proof -
  assume n: "unat n = length s"
  then have "n = of_nat (length s)" by (simp flip: n)
  with n show ?thesis by (simp add: string_field_def field_def)
qed

lemma length_string_field: "unat n \<le> length s \<Longrightarrow> length (string_field n s) = unat n + 2"
  by (simp add: string_field_def)

lemma put_string_eq:
  assumes "unat n \<le> length s"
  shows "put_string (Some s) n buf off l =
           fbind (wr_bytes buf off (string_field n s)) (\<lambda>b. Inr (MQTT_SUCCESS, b, ucast n + 2))"
  unfolding put_string_def build_string_field_def string_field_def wr_bytes_append
  using assms by (simp add: rd_ptr_def rd_bytes_def mem_of_u16_htons Let_def fbind_assoc)

lemma put_string_NULL:
  "put_string None n buf off l =
     (if n = 0 then fbind (wr_bytes buf off (be16 0)) (\<lambda>b. Inr (MQTT_SUCCESS, b, 2))
      else Inr (MQTT_INVALID_PARAM, buf, l))"
  unfolding put_string_def build_string_field_def
  by (auto simp: rd_ptr_def mem_of_u16_htons Let_def fbind_assoc wr_bytes_def)

lemma locate_string_eq:
  "locate_string p len =
     (if 2 \<le> length p then Inr (MQTT_SUCCESS, Some (drop 2 p), u16_of_mem (p ! 1) (p ! 0))
      else Inl Out_Of_Bounds)"
  by (simp add: locate_string_def locate_string_field_def adv_def rd_u16_eq ntohs_u16_of_mem)

lemma locate_string_field_of:
  "locate_string (be16 n @ rest) len = Inr (MQTT_SUCCESS, Some rest, n)"
  by (simp add: locate_string_def locate_string_field_def adv_append rd_u16_be16)

section \<open>Encodings that can be told apart\<close>

locale prefix_code =
  fixes enc :: "'a \<Rightarrow> u8 list"
    and dec :: "u8 list \<Rightarrow> ('a \<times> u8 list) option"
    and valid :: "'a \<Rightarrow> bool"
  assumes dec_enc: "valid x \<Longrightarrow> dec (enc x @ rest) = Some (x, rest)"
    and enc_nonempty: "valid x \<Longrightarrow> enc x \<noteq> []"
begin

lemma enc_append_inject:
  assumes "valid x" and "valid y" and "enc x @ r = enc y @ s"
  shows "x = y \<and> r = s"
proof -
  have "Some (x, r) = dec (enc y @ s)"
    unfolding assms(3) [symmetric] by (rule dec_enc [OF assms(1), symmetric])
  also have "\<dots> = Some (y, s)" by (rule dec_enc [OF assms(2)])
  finally show ?thesis by simp
qed

text \<open>A sequence of encodings determines the sequence of values.\<close>

lemma enc_concat_inject:
  "list_all valid xs \<Longrightarrow> list_all valid ys \<Longrightarrow>
   concat (map enc xs) = concat (map enc ys) \<Longrightarrow> xs = ys"
proof (induction xs arbitrary: ys)
  case Nil
  then show ?case by (cases ys) (auto dest: enc_nonempty)
next
  case (Cons x xs)
  then obtain y zs where ys: "ys = y # zs"
    by (cases ys) (auto dest: enc_nonempty)
  with Cons.prems have "x = y \<and> concat (map enc xs) = concat (map enc zs)"
    by (intro enc_append_inject) auto
  with Cons ys show ?case by auto
qed

end

text \<open>
  A message is one byte, the encoded length of its body and the body. With a prefix code
  for the lengths a stream of messages can be cut in one way only.
\<close>

locale framing = prefix_code enc dec valid
  for enc :: "nat \<Rightarrow> u8 list" and dec and valid
begin

lemma frame_append_inject:
  assumes "valid (length x)" and "valid (length y)"
    and "b # enc (length x) @ x @ r = c # enc (length y) @ y @ s"
  shows "b = c \<and> x = y \<and> r = s"
proof -
  from assms(3) have "b = c" and eq: "enc (length x) @ x @ r = enc (length y) @ y @ s" by simp_all
  moreover from enc_append_inject [OF assms(1,2) eq] have "length x = length y" "x @ r = y @ s" by simp_all
  ultimately show ?thesis by simp
qed

end

definition decode_remaining :: "u8 list \<Rightarrow> (nat \<times> u8 list) option" where
  "decode_remaining p =
     (case remain_length_decode p 4 of Inr (_, n, v) \<Rightarrow> Some (unat v, drop (unat n) p) | Inl _ \<Rightarrow> None)"

definition decode_field :: "u8 list \<Rightarrow> (u8 list \<times> u8 list) option" where
  "decode_field p =
     (case locate_string p 0 of
        Inr (_, Some q, n) \<Rightarrow> (if unat n \<le> length q then Some (take (unat n) q, drop (unat n) q) else None)
      | _ \<Rightarrow> None)"

interpretation remaining: framing varint decode_remaining "\<lambda>n. n < 268435456"
proof unfold_locales
  fix n :: nat and rest
  assume n: "n < 268435456"
  then have four: "length (varint n) \<le> 4" by (simp add: length_varint_4)
  have len: "unat (of_nat (length (varint n)) :: u32) = length (varint n)"
    by (rule unat_u32_of_nat) (use four in linarith)
  have val: "unat (of_nat n :: u32) = n"
    by (rule unat_u32_of_nat) (use n in linarith)
  have "remain_length_decode (varint n @ rest) 4 = Inr (MQTT_SUCCESS, of_nat (length (varint n)), of_nat n)"
    using n four by (intro remain_length_decode_varint) simp_all
  then show "decode_remaining (varint n @ rest) = Some (n, rest)"
    unfolding decode_remaining_def using len val by simp
qed simp

interpretation string_code: prefix_code field decode_field "\<lambda>s. length s < 65536"
proof unfold_locales
  fix s rest :: "u8 list"
  assume "length s < 65536"
  then have "unat (of_nat (length s) :: u16) = length s" by (rule unat_u16_of_nat)
  then show "decode_field (field s @ rest) = Some (s, rest)"
    by (simp add: decode_field_def field_def locate_string_field_of)
next
  fix s :: "u8 list"
  show "field s \<noteq> []" by (simp add: field_def be16_def)
qed

definition frame :: "u8 \<Rightarrow> u8 list \<Rightarrow> u8 list" where
  "frame b body = b # varint (length body) @ body"

lemma frame_inject:
  "length x < 268435456 \<Longrightarrow> length y < 268435456 \<Longrightarrow> frame b x @ r = frame c y @ s \<Longrightarrow>
   b = c \<and> x = y \<and> r = s"
  unfolding frame_def using remaining.frame_append_inject [of x y b r c s] by simp

text \<open>
  What every parser does with the header of a frame of \<open>n\<close> bytes: behind the type
  byte it finds the length of the body, and that is what is left of \<open>n\<close>.
\<close>

lemma frame_header:
  assumes "length body < 268435456" and "unat n = length (frame t body)"
  shows "n \<noteq> 0"
    and "remain_length_decode (varint (length body) @ body @ rest) (n - 1) =
      Inr (MQTT_SUCCESS, of_nat (length (varint (length body))), of_nat (length body))"
    and "adv (varint (length body) @ rest') (unat (of_nat (length (varint (length body))) :: u32)) = Inr rest'"
    and "n - 1 - of_nat (length (varint (length body))) = of_nat (length body)"
proof -
  let ?v = "varint (length body)"
  have len: "unat n = 1 + length ?v + length body" using assms(2) by (simp add: frame_def)
  then show "n \<noteq> 0" by auto
  have one: "unat (n - 1) = length ?v + length body" using len by (subst unat_u32_sub) simp_all
  then show "remain_length_decode (?v @ body @ rest) (n - 1) =
      Inr (MQTT_SUCCESS, of_nat (length ?v), of_nat (length body))"
    by (intro remain_length_decode_varint) (use assms(1) in simp_all)
  have "length ?v \<le> 4" using assms(1) by (simp add: length_varint_4)
  then have vnat: "unat (of_nat (length ?v) :: u32) = length ?v" by (intro unat_u32_of_nat) linarith
  then show "adv (?v @ rest') (unat (of_nat (length ?v) :: u32)) = Inr rest'" by (simp add: adv_append)
  have "unat (n - 1 - of_nat (length ?v)) = length body" using one vnat by (simp add: unat_u32_sub)
  then show "n - 1 - of_nat (length ?v) = of_nat (length body)"
    using assms(1) by (simp add: word_eq_iff_unsigned [where ?'a = nat] unat_u32_of_nat)
qed

section \<open>The first look at a received message\<close>

definition message_type_filter :: "u8 list \<Rightarrow> u32 \<Rightarrow> (mqtt_ret \<times> mqtt_message_type) res" where
  "message_type_filter message message_len =
     fbind (rd message 0) (\<lambda>b.
     let type = type_bits b
     in if type < type_code MQTT_MESSAGE_TYPE_MAX \<and> type_code MQTT_MESSAGE_TYPE_MIN < type
        then Inr (MQTT_SUCCESS, type_of_code type)
        else Inr (MQTT_MESSAGE_TYPE_ERROR, MQTT_MESSAGE_TYPE_MAX))"

text \<open>The results are the return code and the three result variables.\<close>

definition message_fixed_header_decode ::
  "u8 list option \<Rightarrow> u32 option \<Rightarrow> mqtt_message_type option \<Rightarrow> u32 option \<Rightarrow>
   (mqtt_ret \<times> u32 option \<times> mqtt_message_type option \<times> u32 option) res" where
  "message_fixed_header_decode message message_len message_type remain_len =
     (case (message, message_len, remain_len, message_type) of
        (Some p, Some len, Some _, Some _) \<Rightarrow>
          fbind (rd p 0) (\<lambda>b.
          let type = type_bits b; encode_len = len
          in if type_code MQTT_MESSAGE_TYPE_MAX < type \<or> type < type_code MQTT_MESSAGE_TYPE_MIN
             then Inr (MQTT_MESSAGE_TYPE_ERROR, message_len, message_type, remain_len)
             else fbind (adv p 1) (\<lambda>q.
                  fbind (remain_length_decode q encode_len) (\<lambda>(_, encode_len, remain).
                  Inr (MQTT_SUCCESS, Some (remain + encode_len + 1), Some (type_of_code type), Some remain))))
      | _ \<Rightarrow> Inr (MQTT_INVALID_PARAM, message_len, message_type, remain_len))"

lemma message_type_filter_eq:
  "message_type_filter (b # p) len =
     (if 1 \<le> unat b div 16 \<and> unat b div 16 \<le> 14 then Inr (MQTT_SUCCESS, type_of_code (type_bits b))
      else Inr (MQTT_MESSAGE_TYPE_ERROR, MQTT_MESSAGE_TYPE_MAX))"
  using unat_type_bits [of b]
  by (auto simp: message_type_filter_def Let_def word_less_nat_alt)

text \<open>The range test of \<open>message_fixed_header_decode\<close> never fails: four bits hold no more than 15.\<close>

lemma header_type_in_range:
  "\<not> (type_code MQTT_MESSAGE_TYPE_MAX < type_bits b \<or> type_bits b < type_code MQTT_MESSAGE_TYPE_MIN)"
  using unat_type_bits_lt [of b] by (auto simp: word_less_nat_alt)

lemma message_fixed_header_decode_eq:
  "message_fixed_header_decode (Some (b # p)) (Some len) (Some t) (Some r) =
     fbind (remain_length_decode p len) (\<lambda>(_, n, v).
       Inr (MQTT_SUCCESS, Some (v + n + 1), Some (type_of_code (type_bits b)), Some v))"
  using header_type_in_range [of b]
  by (simp add: message_fixed_header_decode_def Let_def adv_Suc)

lemma message_fixed_header_decode_frame:
  assumes "n < 268435456" and "length (varint n) \<le> unat len"
  shows "message_fixed_header_decode (Some (b # varint n @ rest)) (Some len) (Some t) (Some r) =
           Inr (MQTT_SUCCESS, Some (of_nat (1 + length (varint n) + n)),
                Some (type_of_code (type_bits b)), Some (of_nat n))"
  unfolding message_fixed_header_decode_eq remain_length_decode_varint [OF assms]
  by (simp add: algebra_simps)

section \<open>Properties\<close>

text \<open>
  A text field survives its round trip: written into any place of a buffer that holds it,
  it is found again, the length exactly, the pointer of \<open>locate_string_field\<close> at its first
  byte, and a copy of all its bytes at the start of the destination of
  \<open>parse_string_field\<close>. What the buffer holds before it is kept.
\<close>

theorem string_field_roundtrip:
  assumes "unat n = length s" and "off + 2 + length s \<le> length buf" and "length s \<le> length dst"
  shows "\<exists>buf' p. build_string_field (Some s) n (Some (buf, off)) (Some old) =
       Inr (MQTT_SUCCESS, Some buf', Some (ucast n + 2)) \<and> take off buf' = take off buf \<and> length buf' = length buf \<and>
     locate_string_field (Some (drop off buf')) len (Some None) (Some 0) = Inr (MQTT_SUCCESS, Some (Some p), Some n) \<and>
     take (length s) p = s \<and>
     parse_string_field (Some (drop off buf')) len (Some dst) (Some 0) =
       Inr (MQTT_SUCCESS, Some (s @ drop (length s) dst), Some n)"
proof -
  define rest where "rest = drop (off + (2 + length s)) buf"
  define buf' where "buf' = take off buf @ be16 n @ s @ rest"
  have room: "off + length (be16 n @ s) \<le> length buf" using assms(2) by simp
  have written: "wr_bytes buf off (be16 n @ s) = Inr buf'"
    unfolding wr_bytes_fits [OF room] buf'_def rest_def by simp
  then have len: "length buf' = length buf" by (rule wr_bytes_length)
  from written have "build_string_field (Some s) n (Some (buf, off)) (Some old) =
      Inr (MQTT_SUCCESS, Some buf', Some (ucast n + 2))"
    using assms(1) unfolding build_string_field_def wr_bytes_append
    by (auto simp: rd_ptr_def rd_bytes_def mem_of_u16_htons Let_def fbind_eq_Inr)
  moreover have at: "drop off buf' = be16 n @ s @ rest" "take off buf' = take off buf"
    using assms(2) by (simp_all add: buf'_def)
  moreover have "locate_string_field (Some (be16 n @ s @ rest)) len (Some None) (Some 0) =
      Inr (MQTT_SUCCESS, Some (Some (s @ rest)), Some n)"
    by (simp add: locate_string_field_def adv_append rd_u16_be16)
  moreover have "parse_string_field (Some (be16 n @ s @ rest)) len (Some dst) (Some 0) =
      Inr (MQTT_SUCCESS, Some (s @ drop (length s) dst), Some n)"
    using assms(1,3)
    by (simp add: parse_string_field_def rd_u16_be16 adv_append rd_bytes_append wr_bytes_at_0 Let_def)
  ultimately show ?thesis using len by (intro exI [of _ buf'] exI [of _ "s @ rest"]) simp
qed

theorem string_field_roundtrip_witness:
  "\<exists>buf' p. build_string_field (Some [116, 47]) 2 (Some ([9, 0, 0, 0, 0, 8], 1)) (Some 77) =
       Inr (MQTT_SUCCESS, Some buf', Some (ucast (2 :: u16) + 2)) \<and>
     take 1 buf' = take 1 [9, 0, 0, 0, 0, 8] \<and> length buf' = length [9, 0, 0, 0, 0, 8 :: u8] \<and>
     locate_string_field (Some (drop 1 buf')) 5 (Some None) (Some 0) = Inr (MQTT_SUCCESS, Some (Some p), Some 2) \<and>
     take (length [116, 47 :: u8]) p = [116, 47] \<and>
     parse_string_field (Some (drop 1 buf')) 5 (Some [1, 2, 3]) (Some 0) =
       Inr (MQTT_SUCCESS, Some ([116, 47] @ drop (length [116, 47 :: u8]) [1, 2, 3]), Some 2)"
  by (rule string_field_roundtrip) simp_all

text \<open>
  The first look at a received message finds its extent. At the start of any frame with a
  body below \<open>2\<^sup>2\<^sup>8\<close> bytes, whatever follows it, the reported length is that of
  the frame, the remaining length that of the body, and the type is the one in the high half of
  the first byte. It is enough that the bytes of the encoded length have been received.
\<close>

theorem fixed_header_finds_frame:
  assumes "length body < 268435456" and "length (varint (length body)) \<le> unat received"
  shows "message_fixed_header_decode (Some (frame b body @ rest)) (Some received) (Some t) (Some r) =
     Inr (MQTT_SUCCESS, Some (of_nat (length (frame b body))), Some (type_of_code (type_bits b)),
          Some (of_nat (length body)))"
  using message_fixed_header_decode_frame [OF assms, of b "body @ rest" t r] by (simp add: frame_def)

theorem fixed_header_finds_frame_witness:
  "message_fixed_header_decode (Some (frame 0x30 [0, 1, 65] @ [7])) (Some 5) (Some MQTT_MESSAGE_TYPE_MAX) (Some 9) =
     Inr (MQTT_SUCCESS, Some (of_nat (length (frame 0x30 [0, 1, 65]))), Some (type_of_code (type_bits 0x30)),
          Some (of_nat (length [0, 1, 65 :: u8])))"
  by (rule fixed_header_finds_frame) (simp_all add: varint_small)

end
