(* ===== verification/Msg_Ack.thy ===== *)
theory Msg_Ack
  imports Message
begin

text \<open>
  The messages that carry a packet identifier only: message/msg_puback.c, msg_pubrec.c,
  msg_pubrel.c, msg_pubcomp.c and msg_unsuback.c. The five files are the same text up to the
  two bytes of the fixed header, the length test and the error code, which are the
  parameters of \<open>ack_message_build\<close> and \<open>ack_message_parse\<close> here. The locale
  \<open>ack_codec\<close> is the contract of such a pair; each file's pair is an interpretation.
\<close>

section \<open>The shared text\<close>

definition ack_message_build ::
  "u8 list \<Rightarrow> u16 \<Rightarrow> u8 list option \<Rightarrow> u32 option \<Rightarrow> (mqtt_ret \<times> u8 list option \<times> u32 option) res" where
  "ack_message_build fixed_header packet_id message message_len =
     (case (message, message_len) of
        (Some buf, Some len) \<Rightarrow>
          if len < 4 then Inr (MQTT_INVALID_PARAM, message, message_len)
          else fbind (wr_bytes buf 0 fixed_header) (\<lambda>buf.
               let packet_id = htons packet_id
               in fbind (wr_bytes buf (length fixed_header) (mem_of_u16 packet_id)) (\<lambda>buf.
                  Inr (MQTT_SUCCESS, Some buf, Some (0 + of_nat (length fixed_header) + 2))))
      | _ \<Rightarrow> Inr (MQTT_INVALID_PARAM, message, message_len))"

definition ack_message_parse ::
  "u8 list \<Rightarrow> (u32 \<Rightarrow> bool) \<Rightarrow> mqtt_ret \<Rightarrow> u8 list option \<Rightarrow> u32 \<Rightarrow> u16 option \<Rightarrow>
   (mqtt_ret \<times> u16 option) res" where
  "ack_message_parse fixed_header bad_length length_error message message_len packet_id =
     (case (message, packet_id) of
        (Some p, Some _) \<Rightarrow>
          if bad_length message_len then Inr (MQTT_INVALID_PARAM, packet_id)
          else fbind (rd p 0) (\<lambda>b.
               if b \<noteq> fixed_header ! 0 then Inr (MQTT_MESSAGE_TYPE_ERROR, packet_id)
               else fbind (adv p 1) (\<lambda>p. fbind (rd p 0) (\<lambda>b.
                    if b \<noteq> fixed_header ! 1 then Inr (length_error, packet_id)
                    else fbind (adv p 1) (\<lambda>p. fbind (rd_u16 p) (\<lambda>raw.
                         Inr (MQTT_SUCCESS, Some (ntohs raw)))))))
      | _ \<Rightarrow> Inr (MQTT_INVALID_PARAM, packet_id))"

section \<open>The five files\<close>

definition puback_fixed_header :: "u8 list" where "puback_fixed_header = [0x40, 0x02]"
definition pubrec_fixed_header :: "u8 list" where "pubrec_fixed_header = [0x50, 0x02]"
definition pubrel_fixed_header :: "u8 list" where "pubrel_fixed_header = [0x60, 0x02]"
definition pubcomp_fixed_header :: "u8 list" where "pubcomp_fixed_header = [0x70, 0x02]"
definition unsuback_fixed_header :: "u8 list" where "unsuback_fixed_header = [0xB0, 0x02]"

definition puback_message_build where
  "puback_message_build = ack_message_build puback_fixed_header"

definition puback_message_parse where
  "puback_message_parse = ack_message_parse puback_fixed_header (\<lambda>n. n \<noteq> 4) MQTT_PUBACK_MESSAGE_ERROR"

definition pubrec_message_build where
  "pubrec_message_build = ack_message_build pubrec_fixed_header"

definition pubrec_message_parse where
  "pubrec_message_parse = ack_message_parse pubrec_fixed_header (\<lambda>n. n \<noteq> 4) MQTT_PUBREC_MESSAGE_ERROR"

definition pubrel_message_build where
  "pubrel_message_build = ack_message_build pubrel_fixed_header"

definition pubrel_message_parse where
  "pubrel_message_parse = ack_message_parse pubrel_fixed_header (\<lambda>n. n \<noteq> 4) MQTT_PUBREL_MESSAGE_ERROR"

definition pubcomp_message_build where
  "pubcomp_message_build = ack_message_build pubcomp_fixed_header"

definition pubcomp_message_parse where
  "pubcomp_message_parse = ack_message_parse pubcomp_fixed_header (\<lambda>n. n \<noteq> 4) MQTT_PUBCOMP_MESSAGE_ERROR"

definition unsuback_message_build where
  "unsuback_message_build = ack_message_build unsuback_fixed_header"

text \<open>UNSUBACK alone accepts longer messages.\<close>

definition unsuback_message_parse where
  "unsuback_message_parse = ack_message_parse unsuback_fixed_header (\<lambda>n. n < 4) MQTT_UNSUBSCRIBE_MESSAGE_ERROR"

lemmas ack_builders =
  puback_message_build_def pubrec_message_build_def pubrel_message_build_def
  pubcomp_message_build_def unsuback_message_build_def

lemmas ack_parsers =
  puback_message_parse_def pubrec_message_parse_def pubrel_message_parse_def
  pubcomp_message_parse_def unsuback_message_parse_def

lemmas ack_headers =
  puback_fixed_header_def pubrec_fixed_header_def pubrel_fixed_header_def
  pubcomp_fixed_header_def unsuback_fixed_header_def

section \<open>The contract\<close>

definition ack_bytes :: "u8 \<Rightarrow> u16 \<Rightarrow> u8 list" where
  "ack_bytes hdr packet_id = hdr # 2 # be16 packet_id"

lemma length_ack_bytes [simp]: "length (ack_bytes h i) = 4"
  by (simp add: ack_bytes_def)

lemma ack_bytes_frame: "ack_bytes h i = frame h (be16 i)"
  by (simp add: ack_bytes_def frame_def varint_small)

locale ack_codec =
  fixes hdr :: u8
    and build :: "u16 \<Rightarrow> u8 list option \<Rightarrow> u32 option \<Rightarrow> (mqtt_ret \<times> u8 list option \<times> u32 option) res"
    and parse :: "u8 list option \<Rightarrow> u32 \<Rightarrow> u16 option \<Rightarrow> (mqtt_ret \<times> u16 option) res"
  assumes build_ok: "4 \<le> unat n \<Longrightarrow> 4 \<le> length buf \<Longrightarrow>
      build i (Some buf) (Some n) = Inr (MQTT_SUCCESS, Some (ack_bytes hdr i @ drop 4 buf), Some 4)"
    and build_small: "unat n < 4 \<Longrightarrow> build i m (Some n) = Inr (MQTT_INVALID_PARAM, m, Some n)"
    and parse_ok: "parse (Some (ack_bytes hdr i @ rest)) 4 (Some old) = Inr (MQTT_SUCCESS, Some i)"
    and parse_sound: "parse (Some p) n (Some old) = Inr (MQTT_SUCCESS, out) \<Longrightarrow>
      \<exists>i. out = Some i \<and> take 4 p = ack_bytes hdr i"
    and parse_other: "b \<noteq> hdr \<Longrightarrow> parse (Some (b # p)) 4 (Some old) = Inr (MQTT_MESSAGE_TYPE_ERROR, Some old)"
begin

text \<open>What was built is parsed back, whatever the buffer held before.\<close>

lemma roundtrip:
  assumes "4 \<le> unat n" and "4 \<le> length buf"
  shows "\<exists>buf'. build i (Some buf) (Some n) = Inr (MQTT_SUCCESS, Some buf', Some 4) \<and>
           length buf' = length buf \<and> parse (Some buf') 4 (Some old) = Inr (MQTT_SUCCESS, Some i)"
  using build_ok [OF assms, of i] parse_ok [of i "drop 4 buf" old] assms by auto

text \<open>A parser that succeeds has seen a message the builder makes, with the identifier it returns.\<close>

lemma parse_sound_id:
  "parse (Some p) n (Some old) = Inr (MQTT_SUCCESS, Some i) \<Longrightarrow> take 4 p = ack_bytes hdr i"
  using parse_sound by fastforce

lemma parse_other_ack:
  assumes "k \<noteq> hdr"
  shows "parse (Some (ack_bytes k i @ rest)) 4 (Some old) = Inr (MQTT_MESSAGE_TYPE_ERROR, Some old)"
  unfolding ack_bytes_def append_Cons using assms by (rule parse_other)

end

lemma ack_build_ok:
  "4 \<le> unat n \<Longrightarrow> 4 \<le> length buf \<Longrightarrow>
   ack_message_build [h, 2] i (Some buf) (Some n) = Inr (MQTT_SUCCESS, Some (ack_bytes h i @ drop 4 buf), Some 4)"
  by (simp add: ack_message_build_def ack_bytes_def mem_of_u16_htons word_less_nat_alt Let_def
      wr_bytes_at_0 wr_bytes_extend [of _ "[h, 2]", simplified])

lemma ack_build_small:
  "unat n < 4 \<Longrightarrow> ack_message_build hs i m (Some n) = Inr (MQTT_INVALID_PARAM, m, Some n)"
  by (simp add: ack_message_build_def word_less_nat_alt split: option.split)

lemma ack_parse_ok:
  "\<not> bad 4 \<Longrightarrow> ack_message_parse [h, 2] bad e (Some (ack_bytes h i @ rest)) 4 (Some old) = Inr (MQTT_SUCCESS, Some i)"
  by (simp add: ack_message_parse_def ack_bytes_def adv_Suc rd_u16_be16)

lemma ack_parse_sound:
  "e \<noteq> MQTT_SUCCESS \<Longrightarrow>
   ack_message_parse [h, 2] bad e (Some p) n (Some old) = Inr (MQTT_SUCCESS, out) \<Longrightarrow>
   \<exists>i. out = Some i \<and> take 4 p = ack_bytes h i"
  by (auto simp: ack_message_parse_def ack_bytes_def adv_eq_Inr fbind_eq_Inr rd_u16_eq_Inr
      split: if_splits list.splits)

lemma ack_parse_other:
  "\<not> bad 4 \<Longrightarrow> b \<noteq> h \<Longrightarrow>
   ack_message_parse [h, 2] bad e (Some (b # p)) 4 (Some old) = Inr (MQTT_MESSAGE_TYPE_ERROR, Some old)"
  by (simp add: ack_message_parse_def)

lemma ack_codec_shared:
  assumes "\<not> bad 4" and "e \<noteq> MQTT_SUCCESS"
  shows "ack_codec h (ack_message_build [h, 2]) (ack_message_parse [h, 2] bad e)"
proof (unfold_locales, goal_cases)
  case (1 n buf i) then show ?case by (rule ack_build_ok)
next
  case (2 n i m) then show ?case by (rule ack_build_small)
next
  case (3 i rest old) from assms(1) show ?case by (rule ack_parse_ok)
next
  case (4 p n old out) with assms(2) show ?case by (rule ack_parse_sound)
next
  case (5 b p old) with assms(1) show ?case by (rule ack_parse_other)
qed

section \<open>The five files meet the contract\<close>

lemmas ack_unfold = ack_builders ack_parsers ack_headers

interpretation puback: ack_codec "0x40" puback_message_build puback_message_parse
  unfolding ack_unfold by (rule ack_codec_shared) simp_all

interpretation pubrec: ack_codec "0x50" pubrec_message_build pubrec_message_parse
  unfolding ack_unfold by (rule ack_codec_shared) simp_all

interpretation pubrel: ack_codec "0x60" pubrel_message_build pubrel_message_parse
  unfolding ack_unfold by (rule ack_codec_shared) simp_all

interpretation pubcomp: ack_codec "0x70" pubcomp_message_build pubcomp_message_parse
  unfolding ack_unfold by (rule ack_codec_shared) simp_all

interpretation unsuback: ack_codec "0xB0" unsuback_message_build unsuback_message_parse
  unfolding ack_unfold by (rule ack_codec_shared) simp_all

text \<open>The five pairs under one name each, to state what holds of all of them.\<close>

datatype ack_kind = Puback | Pubrec | Pubrel | Pubcomp | Unsuback

fun ack_header :: "ack_kind \<Rightarrow> u8" where
  "ack_header Puback = 0x40"
| "ack_header Pubrec = 0x50"
| "ack_header Pubrel = 0x60"
| "ack_header Pubcomp = 0x70"
| "ack_header Unsuback = 0xB0"

fun ack_build_of ::
  "ack_kind \<Rightarrow> u16 \<Rightarrow> u8 list option \<Rightarrow> u32 option \<Rightarrow> (mqtt_ret \<times> u8 list option \<times> u32 option) res" where
  "ack_build_of Puback = puback_message_build"
| "ack_build_of Pubrec = pubrec_message_build"
| "ack_build_of Pubrel = pubrel_message_build"
| "ack_build_of Pubcomp = pubcomp_message_build"
| "ack_build_of Unsuback = unsuback_message_build"

fun ack_parse_of ::
  "ack_kind \<Rightarrow> u8 list option \<Rightarrow> u32 \<Rightarrow> u16 option \<Rightarrow> (mqtt_ret \<times> u16 option) res" where
  "ack_parse_of Puback = puback_message_parse"
| "ack_parse_of Pubrec = pubrec_message_parse"
| "ack_parse_of Pubrel = pubrel_message_parse"
| "ack_parse_of Pubcomp = pubcomp_message_parse"
| "ack_parse_of Unsuback = unsuback_message_parse"

lemma ack_header_inject [simp]: "ack_header k = ack_header k' \<longleftrightarrow> k = k'"
  by (cases k; cases k') simp_all

lemma ack_codec_of: "ack_codec (ack_header k) (ack_build_of k) (ack_parse_of k)"
  by (cases k)
    (simp_all add: puback.ack_codec_axioms pubrec.ack_codec_axioms pubrel.ack_codec_axioms
      pubcomp.ack_codec_axioms unsuback.ack_codec_axioms)

text \<open>
  C34. Every acknowledgement that a builder writes (into any buffer of at least four bytes) is
  four bytes long, is parsed back by its own parser to the same packet identifier, and is
  turned down by each of the other four parsers with a type error that leaves the caller's
  identifier alone.
\<close>

theorem ack_roundtrip:
  assumes "4 \<le> unat n" and "4 \<le> length buf"
  shows "\<exists>buf'. ack_build_of k i (Some buf) (Some n) = Inr (MQTT_SUCCESS, Some buf', Some 4) \<and>
           length buf' = length buf \<and>
           (\<forall>k'. ack_parse_of k' (Some buf') 4 (Some old) =
              (if k' = k then Inr (MQTT_SUCCESS, Some i) else Inr (MQTT_MESSAGE_TYPE_ERROR, Some old)))"
proof -
  note codec = ack_codec_of [THEN ack_codec.build_ok] ack_codec_of [THEN ack_codec.parse_ok]
    ack_codec_of [THEN ack_codec.parse_other_ack]
  show ?thesis using assms by (auto simp: codec)
qed

theorem ack_roundtrip_witness:
  "\<exists>buf'. ack_build_of Pubrel 10 (Some [0, 0, 0, 0, 7]) (Some 5) = Inr (MQTT_SUCCESS, Some buf', Some 4) \<and>
     length buf' = length [0, 0, 0, 0, 7 :: u8] \<and>
     (\<forall>k'. ack_parse_of k' (Some buf') 4 (Some 0) =
        (if k' = Pubrel then Inr (MQTT_SUCCESS, Some 10) else Inr (MQTT_MESSAGE_TYPE_ERROR, Some 0)))"
  by (rule ack_roundtrip) simp_all

text \<open>
  C35. An acknowledgement parser accepts nothing but acknowledgements: when it reports success,
  the first four bytes are the fixed header of its kind followed by the packet identifier it
  returned, high byte first.
\<close>

theorem ack_parse_accepts_only_acks:
  assumes "ack_parse_of k (Some p) n (Some old) = Inr (MQTT_SUCCESS, out)"
  shows "\<exists>i. out = Some i \<and> take 4 p = frame (ack_header k) (be16 i) \<and> 4 \<le> unat n"
proof -
  obtain i where "out = Some i" "take 4 p = ack_bytes (ack_header k) i"
    using ack_codec.parse_sound [OF ack_codec_of assms] by blast
  moreover have "4 \<le> unat n"
    using assms by (cases k) (auto simp: ack_parsers ack_message_parse_def word_less_nat_alt split: if_splits)
  ultimately show ?thesis by (simp add: ack_bytes_frame)
qed

theorem ack_parse_accepts_only_acks_witness:
  "ack_parse_of Puback (Some [0x40, 2, 1, 2]) 4 (Some 0) = Inr (MQTT_SUCCESS, Some 258) \<and>
   (\<exists>i. Some 258 = Some i \<and> take 4 [0x40, 2, 1, 2] = frame (ack_header Puback) (be16 i) \<and> 4 \<le> unat (4 :: u32))"
proof -
  have run: "ack_parse_of Puback (Some [0x40, 2, 1, 2]) 4 (Some 0) = Inr (MQTT_SUCCESS, Some 258)"
    by (simp add: ack_unfold ack_message_parse_def adv_def rd_u16_def rd_def u16_of_mem_def ntohs_def)
  show ?thesis using run ack_parse_accepts_only_acks [OF run] by blast
qed

end
