(* ===== verification/Msg_Ping.thy ===== *)
theory Msg_Ping
  imports Message
begin

text \<open>
  The messages without a body: message/msg_pingreq.c, msg_pingresp.c and msg_disconnect.c.
\<close>

definition pingreq_message_build ::
  "u8 list option \<Rightarrow> u32 option \<Rightarrow> (mqtt_ret \<times> u8 list option \<times> u32 option) res" where
  "pingreq_message_build message message_len =
     (case (message, message_len) of
        (Some buf, Some len) \<Rightarrow>
          if len < 2 then Inr (MQTT_INVALID_PARAM, message, message_len)
          else fbind (wr buf 0 (message_type_encode MQTT_MESSAGE_TYPE_PINGREQ)) (\<lambda>buf.
               fbind (wr buf 1 0x00) (\<lambda>buf. Inr (MQTT_SUCCESS, Some buf, Some 2)))
      | _ \<Rightarrow> Inr (MQTT_INVALID_PARAM, message, message_len))"

definition pingreq_message_parse :: "u8 list option \<Rightarrow> u32 \<Rightarrow> mqtt_ret res" where
  "pingreq_message_parse message message_len = Inr MQTT_SUCCESS"

text \<open>The type byte is the one of PINGREQ here too, as in the source.\<close>

definition pingresp_message_build ::
  "u8 list option \<Rightarrow> u32 option \<Rightarrow> (mqtt_ret \<times> u8 list option \<times> u32 option) res" where
  "pingresp_message_build message message_len =
     (case (message, message_len) of
        (Some buf, Some len) \<Rightarrow>
          if len < 2 then Inr (MQTT_INVALID_PARAM, message, message_len)
          else fbind (wr buf 0 (message_type_encode MQTT_MESSAGE_TYPE_PINGREQ)) (\<lambda>buf.
               fbind (wr buf 1 0x00) (\<lambda>buf. Inr (MQTT_SUCCESS, Some buf, Some 2)))
      | _ \<Rightarrow> Inr (MQTT_INVALID_PARAM, message, message_len))"

definition pingresp_message_parse :: "u8 list option \<Rightarrow> u32 \<Rightarrow> mqtt_ret res" where
  "pingresp_message_parse message message_len = Inr MQTT_SUCCESS"

definition disconnect_message_build ::
  "u8 list option \<Rightarrow> u32 option \<Rightarrow> (mqtt_ret \<times> u8 list option \<times> u32 option) res" where
  "disconnect_message_build message message_len =
     (case (message, message_len) of
        (Some buf, Some len) \<Rightarrow>
          if len < 2 then Inr (MQTT_INVALID_PARAM, message, message_len)
          else fbind (wr buf 0 (message_type_encode MQTT_MESSAGE_TYPE_DISCONNECT)) (\<lambda>buf.
               fbind (wr buf 1 0x00) (\<lambda>buf. Inr (MQTT_SUCCESS, Some buf, Some 2)))
      | _ \<Rightarrow> Inr (MQTT_INVALID_PARAM, message, message_len))"

definition disconnect_message_parse :: "u8 list option \<Rightarrow> u32 \<Rightarrow> mqtt_ret res" where
  "disconnect_message_parse message message_len =
     (case message of
        Some p \<Rightarrow>
          if message_len < 2 then Inr MQTT_INVALID_PARAM
          else fbind (rd p 0) (\<lambda>b0.
               if b0 AND MESSAGE_TYPE_MASK \<noteq> message_type_encode MQTT_MESSAGE_TYPE_DISCONNECT
               then Inr MQTT_MESSAGE_TYPE_ERROR
               else fbind (rd p 1) (\<lambda>b1.
                    if b1 AND NOT MESSAGE_TYPE_MASK \<noteq> 0x00 then Inr MQTT_FIXED_HEADER_RESERVED_ERROR
                    else Inr MQTT_SUCCESS))
      | None \<Rightarrow> Inr MQTT_INVALID_PARAM)"

lemma two_byte_write:
  "2 \<le> length buf \<Longrightarrow>
   fbind (wr buf 0 a) (\<lambda>buf. fbind (wr buf 1 b) (\<lambda>buf. Inr (r, Some buf, n))) =
     Inr (r, Some (a # b # drop 2 buf), n)"
proof -
  assume "2 \<le> length buf"
  then obtain x y zs where "buf = x # y # zs"
    by (metis One_nat_def Suc_le_length_iff numeral_2_eq_2)
  then show ?thesis by (simp add: wr_def)
qed

lemma pingreq_message_build_ok:
  "2 \<le> unat n \<Longrightarrow> 2 \<le> length buf \<Longrightarrow>
   pingreq_message_build (Some buf) (Some n) = Inr (MQTT_SUCCESS, Some (0xC0 # 0 # drop 2 buf), Some 2)"
  by (simp add: pingreq_message_build_def two_byte_write word_less_nat_alt message_type_encode_table del: One_nat_def)

lemma pingresp_message_build_ok:
  "2 \<le> unat n \<Longrightarrow> 2 \<le> length buf \<Longrightarrow>
   pingresp_message_build (Some buf) (Some n) = Inr (MQTT_SUCCESS, Some (0xC0 # 0 # drop 2 buf), Some 2)"
  by (simp add: pingresp_message_build_def two_byte_write word_less_nat_alt message_type_encode_table del: One_nat_def)

lemma disconnect_message_build_ok:
  "2 \<le> unat n \<Longrightarrow> 2 \<le> length buf \<Longrightarrow>
   disconnect_message_build (Some buf) (Some n) = Inr (MQTT_SUCCESS, Some (0xE0 # 0 # drop 2 buf), Some 2)"
  by (simp add: disconnect_message_build_def two_byte_write word_less_nat_alt message_type_encode_table del: One_nat_def)

lemma disconnect_message_parse_eq:
  "2 \<le> unat n \<Longrightarrow>
   disconnect_message_parse (Some (b0 # b1 # p)) n =
     Inr (if unat b0 div 16 \<noteq> 14 then MQTT_MESSAGE_TYPE_ERROR
          else if unat b1 mod 16 \<noteq> 0 then MQTT_FIXED_HEADER_RESERVED_ERROR else MQTT_SUCCESS)"
proof -
  assume n: "2 \<le> unat n"
  have "\<not> n < 2" using n by (simp add: word_less_nat_alt)
  then show ?thesis
    unfolding disconnect_message_parse_def has_type_iff no_flags_iff
    by (simp add: rd_def)
qed

text \<open>
  A PINGRESP cannot be told from a PINGREQ: the two builders do the same on every argument,
  and the header of what \<open>pingresp_message_build\<close> writes is decoded as a PINGREQ.
\<close>

theorem pingresp_is_pingreq:
  "pingresp_message_build message message_len = pingreq_message_build message message_len \<and>
   (\<exists>buf. pingresp_message_build (Some [x, y]) (Some 2) = Inr (MQTT_SUCCESS, Some buf, Some 2) \<and>
     message_type_filter buf 2 = Inr (MQTT_SUCCESS, MQTT_MESSAGE_TYPE_PINGREQ))"
proof -
  have "pingresp_message_build (Some [x, y]) (Some 2) = Inr (MQTT_SUCCESS, Some [0xC0, 0], Some 2)"
    using pingresp_message_build_ok [of 2 "[x, y]"] by simp
  moreover have "type_bits 0xC0 = type_code MQTT_MESSAGE_TYPE_PINGREQ"
    by (simp add: word_eq_iff_unsigned [where ?'a = nat] unat_type_bits)
  then have "message_type_filter [0xC0, 0] 2 = Inr (MQTT_SUCCESS, MQTT_MESSAGE_TYPE_PINGREQ)"
    unfolding message_type_filter_eq by (simp only: type_of_code_type_code) simp
  ultimately show ?thesis by (simp add: pingresp_message_build_def pingreq_message_build_def)
qed

text \<open>
  DISCONNECT: the message that is built is accepted by the parser. The parser accepts exactly
  the messages with the type DISCONNECT whose second byte ends in four zero bits: the reserved
  bits of the first byte, which must be zero, are not looked at, and a remaining length of 16 is
  taken for none.
\<close>

theorem disconnect_accepts:
  assumes "2 \<le> unat n" and "2 \<le> length buf"
  shows "disconnect_message_build (Some buf) (Some n) = Inr (MQTT_SUCCESS, Some (0xE0 # 0 # drop 2 buf), Some 2) \<and>
     (disconnect_message_parse (Some buf) n = Inr MQTT_SUCCESS \<longleftrightarrow> unat (buf ! 0) div 16 = 14 \<and> unat (buf ! 1) mod 16 = 0)"
proof -
  from assms(2) obtain x y zs where "buf = x # y # zs"
    by (metis One_nat_def Suc_le_length_iff numeral_2_eq_2)
  then show ?thesis
    using disconnect_message_build_ok [OF assms] disconnect_message_parse_eq [OF assms(1), of x y zs] by simp
qed

theorem disconnect_accepts_witness:
  "disconnect_message_build (Some [0xEF, 16]) (Some 2) = Inr (MQTT_SUCCESS, Some (0xE0 # 0 # drop 2 [0xEF, 16]), Some 2) \<and>
   (disconnect_message_parse (Some [0xEF, 16]) 2 = Inr MQTT_SUCCESS \<longleftrightarrow>
      unat ([0xEF, 16 :: u8] ! 0) div 16 = 14 \<and> unat ([0xEF, 16 :: u8] ! 1) mod 16 = 0)"
  by (rule disconnect_accepts) simp_all

end
