(* ===== verification/Msg_Connack.thy ===== *)
theory Msg_Connack
  imports Message
begin

text \<open>
  message/msg_connack.c: the server's answer to CONNECT. The two bytes of
  \<^verbatim>\<open>connack_variable_header_t\<close> are the reserved bits with the session
  present flag, and the connect return code.
\<close>

text \<open>
  \<^verbatim>\<open>connack_code_t\<close> is an enumeration stored in 32 bits; the code stores the
  byte of the message in it, whether or not it is one of its members.
\<close>

datatype connack_code =
    MQTT_CONNACK_ACCEPTED
  | MQTT_CONNACK_UNACCEPTABLE_PROTOCOL_VERSION
  | MQTT_CONNACK_IDENTIFIER_REJECTED
  | MQTT_CONNACK_SERVER_UNAVAILABLE
  | MQTT_CONNACK_BAD_USERNAME_OR_PASSWORD
  | MQTT_CONNACK_NOT_AUTHORIZED
  | MQTT_CONNACK_MAX

fun connack_value :: "connack_code \<Rightarrow> u32" where
  "connack_value MQTT_CONNACK_ACCEPTED = 0x00"
| "connack_value MQTT_CONNACK_UNACCEPTABLE_PROTOCOL_VERSION = 0x01"
| "connack_value MQTT_CONNACK_IDENTIFIER_REJECTED = 0x02"
| "connack_value MQTT_CONNACK_SERVER_UNAVAILABLE = 0x03"
| "connack_value MQTT_CONNACK_BAD_USERNAME_OR_PASSWORD = 0x04"
| "connack_value MQTT_CONNACK_NOT_AUTHORIZED = 0x05"
| "connack_value MQTT_CONNACK_MAX = 0x06"

record connack_variable_header =
  vh_reserved_and_sp :: u8
  vh_connack_code :: u8

abbreviation (input) CONNACK_SP_MASK :: u8 where "CONNACK_SP_MASK \<equiv> 1"

text \<open>The header is packed: two bytes, in the order of the fields.\<close>

definition connack_header_bytes :: "connack_variable_header \<Rightarrow> u8 list" where
  "connack_header_bytes h = [vh_reserved_and_sp h, vh_connack_code h]"

definition connack_message_build :: "u8 \<Rightarrow> u32 \<Rightarrow> u8 list \<Rightarrow> (mqtt_ret \<times> u8 list \<times> u32) res" where
  "connack_message_build sp connack_code message =
     (let variable_header =
            \<lparr>vh_reserved_and_sp = if sp \<noteq> 0 then 0 OR (0xFF AND CONNACK_SP_MASK) else 0,
             vh_connack_code = ucast connack_code\<rparr>
      in fbind (wr_bytes message 0 [message_type_encode MQTT_MESSAGE_TYPE_CONNACK]) (\<lambda>message.
         fbind (remain_length_encode 2 message 1) (\<lambda>(ret, message, field_len).
         if ret \<noteq> MQTT_SUCCESS then Inr (ret, message, 1)
         else fbind (wr_bytes message (1 + unat field_len) (connack_header_bytes variable_header)) (\<lambda>message.
              Inr (MQTT_SUCCESS, message, 1 + field_len + 2)))))"

text \<open>
  \<open>junk_len\<close> is the indeterminate value of the local \<^verbatim>\<open>field_len\<close>, which
  is handed to \<^verbatim>\<open>remain_length_decode\<close> without being assigned. The last test
  of the code asks whether the pointer \<^verbatim>\<open>sp\<close> is not
  \<^verbatim>\<open>NULL\<close>, not whether the flag is set.
\<close>

definition connack_message_parse ::
  "u32 \<Rightarrow> u8 list option \<Rightarrow> u32 \<Rightarrow> u32 option \<Rightarrow> u8 option \<Rightarrow> (mqtt_ret \<times> u32 option \<times> u8 option) res" where
  "connack_message_parse junk_len message message_len connack_code sp =
     (case (message, connack_code, sp) of
        (Some p, Some _, Some _) \<Rightarrow>
          fbind (rd p 0) (\<lambda>b.
          if b \<noteq> message_type_encode MQTT_MESSAGE_TYPE_CONNACK
          then Inr (MQTT_MESSAGE_TYPE_ERROR, connack_code, sp)
          else fbind (adv p 1) (\<lambda>p.
               let message_len = message_len - 1
               in fbind (remain_length_decode p junk_len) (\<lambda>(ret, field_len, remain_length).
                  if ret \<noteq> MQTT_SUCCESS then Inr (ret, connack_code, sp)
                  else fbind (adv p (unat field_len)) (\<lambda>p.
                       let message_len = message_len - field_len
                       in if remain_length \<noteq> 2 \<or> message_len \<noteq> remain_length
                          then Inr (MQTT_CONNACK_MESSAGE_ERROR, connack_code, sp)
                          else fbind (rd p 0) (\<lambda>b0. fbind (rd p 1) (\<lambda>b1.
                               let variable_header = \<lparr>vh_reserved_and_sp = b0, vh_connack_code = b1\<rparr>;
                                   connack_code = Some (ucast (vh_connack_code variable_header))
                               in if vh_reserved_and_sp variable_header AND NOT CONNACK_SP_MASK \<noteq> 0
                                  then Inr (MQTT_CONNACK_MESSAGE_ERROR, connack_code, sp)
                                  else let sp = Some (vh_reserved_and_sp variable_header AND CONNACK_SP_MASK)
                                       in if connack_code \<noteq> Some (connack_value MQTT_CONNACK_ACCEPTED) \<and> sp \<noteq> None
                                          then Inr (MQTT_CONNACK_MESSAGE_ERROR, connack_code, sp)
                                          else Inr (MQTT_SUCCESS, connack_code, sp)))))))
      | _ \<Rightarrow> Inr (MQTT_INVALID_PARAM, connack_code, sp))"

section \<open>What the builder writes\<close>

definition connack_bytes :: "bool \<Rightarrow> u8 \<Rightarrow> u8 list" where
  "connack_bytes present code = frame 0x20 [if present then 1 else 0, code]"

lemma connack_bytes_simp: "connack_bytes present code = [0x20, 2, if present then 1 else 0, code]"
  by (simp add: connack_bytes_def frame_def varint_small)

lemma connack_message_build_eq:
  "connack_message_build sp code buf =
     fbind (wr_bytes buf 0 (connack_bytes (sp \<noteq> 0) (ucast code))) (\<lambda>b. Inr (MQTT_SUCCESS, b, 4))"
  unfolding connack_message_build_def connack_header_bytes_def
  by (simp add: Let_def remain_length_encode_eq varint_small message_type_encode_table fbind_assoc
      wr_bytes_seq connack_bytes_simp)

lemma remain_length_decode_two:
  "remain_length_decode (2 # p) n =
     Inr (if n = 0 then (MQTT_SUCCESS, 1, 0) else (MQTT_SUCCESS, 1, 2))"
proof (cases "n = 0")
  case True
  then show ?thesis by (simp add: remain_length_decode_none)
next
  case False
  then have "length (varint 2) \<le> unat n" by (simp add: varint_small unat_gt_0 Suc_leI)
  then show ?thesis
    using remain_length_decode_varint [of 2 n p] False by (simp add: varint_small)
qed

text \<open>No two members of the enumeration share a byte.\<close>

lemma connack_value_byte:
  "ucast (ucast (connack_value k) :: u8) = connack_value k"
  "(ucast (connack_value k) :: u8) = 0 \<longleftrightarrow> k = MQTT_CONNACK_ACCEPTED"
  by (cases k; simp)+

lemma connack_message_parse_built:
  "connack_message_parse junk_len (Some (connack_bytes present code @ rest)) 4 (Some c) (Some s) =
     Inr (if junk_len = 0 then (MQTT_CONNACK_MESSAGE_ERROR, Some c, Some s)
          else if code = 0 then (MQTT_SUCCESS, Some 0, Some (if present then 1 else 0))
          else (MQTT_CONNACK_MESSAGE_ERROR, Some (ucast code), Some (if present then 1 else 0)))"
  by (simp add: connack_message_parse_def connack_bytes_simp message_type_encode_table
      remain_length_decode_two adv_def rd_def Let_def)

text \<open>
  C36. A CONNACK with any of the return codes of the enumeration, built into any buffer of at
  least four bytes, is the frame of the session present flag and the code. Parsed, it gives the
  caller the code and the flag back, with success for ACCEPTED and with
  MQTT\_CONNACK\_MESSAGE\_ERROR for every refusal. All this unless the unassigned local
  \<^verbatim>\<open>field_len\<close> of the parser holds 0: then the same message is turned down
  and the caller's variables are left alone.
\<close>

theorem connack_roundtrip:
  assumes "4 \<le> length buf"
  shows "\<exists>buf'. connack_message_build sp (connack_value k) buf = Inr (MQTT_SUCCESS, buf', 4) \<and>
           take 4 buf' = frame 0x20 [if sp \<noteq> 0 then 1 else 0, ucast (connack_value k)] \<and>
           connack_message_parse junk_len (Some buf') 4 (Some c) (Some s) =
             Inr (if junk_len = 0 then (MQTT_CONNACK_MESSAGE_ERROR, Some c, Some s)
                  else (if k = MQTT_CONNACK_ACCEPTED then MQTT_SUCCESS else MQTT_CONNACK_MESSAGE_ERROR,
                        Some (connack_value k), Some (if sp \<noteq> 0 then 1 else 0)))"
proof -
  let ?bytes = "connack_bytes (sp \<noteq> 0) (ucast (connack_value k))"
  have "length ?bytes = 4" by (simp add: connack_bytes_simp)
  with assms have "connack_message_build sp (connack_value k) buf = Inr (MQTT_SUCCESS, ?bytes @ drop 4 buf, 4)"
    "take 4 (?bytes @ drop 4 buf) = frame 0x20 [if sp \<noteq> 0 then 1 else 0, ucast (connack_value k)]"
    by (simp_all add: connack_message_build_eq wr_bytes_at_0 connack_bytes_def)
  then show ?thesis
    using connack_message_parse_built [of junk_len "sp \<noteq> 0" "ucast (connack_value k)" "drop 4 buf" c s]
    by (auto simp: connack_value_byte)
qed

theorem connack_roundtrip_witness:
  "\<exists>buf'. connack_message_build 1 (connack_value MQTT_CONNACK_NOT_AUTHORIZED) [9, 9, 9, 9, 9] =
       Inr (MQTT_SUCCESS, buf', 4) \<and>
     take 4 buf' = frame 0x20 [if (1 :: u8) \<noteq> 0 then 1 else 0, ucast (connack_value MQTT_CONNACK_NOT_AUTHORIZED)] \<and>
     connack_message_parse 5 (Some buf') 4 (Some 7) (Some 7) =
       Inr (if (5 :: u32) = 0 then (MQTT_CONNACK_MESSAGE_ERROR, Some 7, Some 7)
            else (if MQTT_CONNACK_NOT_AUTHORIZED = MQTT_CONNACK_ACCEPTED then MQTT_SUCCESS
                  else MQTT_CONNACK_MESSAGE_ERROR,
                  Some (connack_value MQTT_CONNACK_NOT_AUTHORIZED), Some (if (1 :: u8) \<noteq> 0 then 1 else 0)))"
  by (rule connack_roundtrip) simp

text \<open>
  Success means accepted: whatever bytes, length and indeterminate local the parser works on, if
  it reports success, the return code it stored is 0 and the session present flag 0 or 1.
\<close>

lemma connack_success_means_accepted:
  assumes "connack_message_parse junk_len (Some p) n (Some c) (Some s) = Inr (MQTT_SUCCESS, code, present)"
  shows "code = Some 0 \<and> (present = Some 0 \<or> present = Some 1)"
proof -
  have bit: "b AND 1 = 0 \<or> b AND 1 = 1" for b :: u8
    by (cases "even b") (auto simp: and_one_eq even_iff_mod_2_eq_zero odd_iff_mod_2_eq_one)
  from assms obtain b where "code = Some 0" "present = Some (b AND CONNACK_SP_MASK)"
    by (auto simp: connack_message_parse_def fbind_eq_Inr Let_def split: if_splits)
  with bit [of b] show ?thesis by simp
qed

end
