(* ===== verification/Msg_Connect.thy ===== *)
theory Msg_Connect
  imports Message Memory
begin

text \<open>
  message/msg_connect.c: the message that opens a session. Its payload is up to five string
  fields. The builder takes them from the caller's memory (a pointer is an optional list of
  bytes); the parser puts each in a block of its own (a pointer is a link into the heap).
\<close>

section \<open>Data\<close>

record 'p connect_payload_t =
  cp_client_id_len :: u16
  cp_client_id :: 'p
  cp_will_topic_len :: u16
  cp_will_topic :: 'p
  cp_will_msg_len :: u16
  cp_will_msg :: 'p
  cp_username_len :: u16
  cp_username :: 'p
  cp_password_len :: u16
  cp_password :: 'p

abbreviation (input) MQTT_CLIENT_ID_LEN_MAX :: u16 where "MQTT_CLIENT_ID_LEN_MAX \<equiv> 23"
abbreviation (input) CONECT_PROTOCOL_NAME :: "u8 list" where "CONECT_PROTOCOL_NAME \<equiv> [0x4D, 0x51, 0x54, 0x54]"
abbreviation (input) CONECT_PROTOCOL_NAME_LEN :: u8 where "CONECT_PROTOCOL_NAME_LEN \<equiv> 0x04"
abbreviation (input) CONECT_PROTOCOL_LEVEL :: u8 where "CONECT_PROTOCOL_LEVEL \<equiv> 0x04"
abbreviation (input) CONNECT_FLAG_INDEX_CLEAN_SESSION :: nat where "CONNECT_FLAG_INDEX_CLEAN_SESSION \<equiv> 1"
abbreviation (input) CONNECT_FLAG_INDEX_WILL_FLAG :: nat where "CONNECT_FLAG_INDEX_WILL_FLAG \<equiv> 2"
abbreviation (input) CONNECT_FLAG_INDEX_WILL_QOS_LOW :: nat where "CONNECT_FLAG_INDEX_WILL_QOS_LOW \<equiv> 3"
abbreviation (input) CONNECT_FLAG_INDEX_WILL_QOS_HIGH :: nat where "CONNECT_FLAG_INDEX_WILL_QOS_HIGH \<equiv> 4"
abbreviation (input) CONNECT_FLAG_INDEX_WILL_RETAIN :: nat where "CONNECT_FLAG_INDEX_WILL_RETAIN \<equiv> 5"
abbreviation (input) CONNECT_FLAG_INDEX_PASSWD :: nat where "CONNECT_FLAG_INDEX_PASSWD \<equiv> 6"
abbreviation (input) CONNECT_FLAG_INDEX_USERNAME :: nat where "CONNECT_FLAG_INDEX_USERNAME \<equiv> 7"

definition bit_is_set :: "u8 \<Rightarrow> nat \<Rightarrow> u8" where
  "bit_is_set flags index = drop_bit index flags AND 1"

text \<open>
  \<^verbatim>\<open>connect_variable_header_t\<close> is packed: ten bytes, in the order of the fields. The
  macros that set and clear a flag assign to it.
\<close>

record connect_variable_header_t =
  cv_protocol_name_length :: "u8 list"
  cv_protocol_name :: "u8 list"
  cv_protocol_level :: u8
  cv_flags :: u8
  cv_keep_alive :: "u8 list"

definition connect_header_bytes :: "connect_variable_header_t \<Rightarrow> u8 list" where
  "connect_header_bytes v =
     cv_protocol_name_length v @ cv_protocol_name v @ [cv_protocol_level v, cv_flags v] @ cv_keep_alive v"

definition connect_variable_header :: "u8 \<Rightarrow> u16 \<Rightarrow> u8 list" where
  "connect_variable_header flags keep_alive =
     connect_header_bytes \<lparr>cv_protocol_name_length = [0, CONECT_PROTOCOL_NAME_LEN], cv_protocol_name = CONECT_PROTOCOL_NAME,
       cv_protocol_level = CONECT_PROTOCOL_LEVEL, cv_flags = flags, cv_keep_alive = mem_of_u16 (htons keep_alive)\<rparr>"

definition bit_set :: "u8 \<Rightarrow> nat \<Rightarrow> u8" where
  "bit_set flags index = flags OR push_bit index 1"

definition bit_clean :: "u8 \<Rightarrow> nat \<Rightarrow> u8" where
  "bit_clean flags index = flags AND NOT (push_bit index 1)"

lemmas connect_header_defs = connect_variable_header_def connect_header_bytes_def
lemmas flag_macros = bit_set_def bit_clean_def

section \<open>Building\<close>

definition connect_message_len_calc ::
  "'p connect_payload_t \<Rightarrow> u16 \<Rightarrow> u8 \<Rightarrow> u8 \<Rightarrow> u8 \<Rightarrow> mqtt_ret \<times> u32" where
  "connect_message_len_calc p keep_alive clean_session will_retain will_qos =
     (MQTT_SUCCESS,
      0 + (1 + 4 + 10) + (ucast (cp_client_id_len p) + 2) + (ucast (cp_will_topic_len p) + 2)
        + (ucast (cp_will_msg_len p) + 2) + (ucast (cp_username_len p) + 2) + (ucast (cp_password_len p) + 2))"

definition has_will :: "u8 list option connect_payload_t \<Rightarrow> bool" where
  "has_will p \<longleftrightarrow> cp_will_topic p \<noteq> None \<and> 0 < cp_will_topic_len p \<and> cp_will_msg p \<noteq> None \<and> 0 < cp_will_msg_len p"

definition has_username :: "u8 list option connect_payload_t \<Rightarrow> bool" where
  "has_username p \<longleftrightarrow> cp_username p \<noteq> None \<and> 0 < cp_username_len p"

definition has_password :: "u8 list option connect_payload_t \<Rightarrow> bool" where
  "has_password p \<longleftrightarrow> has_username p \<and> cp_password p \<noteq> None \<and> 0 < cp_password_len p"

definition connect_flags :: "u8 list option connect_payload_t \<Rightarrow> u8 \<Rightarrow> u8 \<Rightarrow> u8 \<Rightarrow> u8" where
  "connect_flags p clean_session will_retain will_qos =
     (let f = 0;
          f = (if clean_session \<noteq> 0 then bit_set f CONNECT_FLAG_INDEX_CLEAN_SESSION else f);
          f = (if has_will p then bit_set f CONNECT_FLAG_INDEX_WILL_FLAG else f);
          f = (if bit_is_set f CONNECT_FLAG_INDEX_WILL_FLAG \<noteq> 0
               then (if will_qos = 0
                     then bit_clean (bit_clean f CONNECT_FLAG_INDEX_WILL_QOS_LOW) CONNECT_FLAG_INDEX_WILL_QOS_HIGH
                     else if will_qos = 1
                     then bit_clean (bit_set f CONNECT_FLAG_INDEX_WILL_QOS_LOW) CONNECT_FLAG_INDEX_WILL_QOS_HIGH
                     else if will_qos = 2
                     then bit_set (bit_clean f CONNECT_FLAG_INDEX_WILL_QOS_LOW) CONNECT_FLAG_INDEX_WILL_QOS_HIGH
                     else f)
               else f);
          f = (if will_retain \<noteq> 0 \<and> bit_is_set f CONNECT_FLAG_INDEX_WILL_FLAG \<noteq> 0
               then bit_set f CONNECT_FLAG_INDEX_WILL_RETAIN else f);
          f = (if has_password p then bit_set f CONNECT_FLAG_INDEX_PASSWD else f)
      in if has_username p then bit_set f CONNECT_FLAG_INDEX_USERNAME else f)"

definition connect_payload_size :: "u8 list option connect_payload_t \<Rightarrow> u32" where
  "connect_payload_size p =
     (let n = 0 + (ucast (cp_client_id_len p) + 2);
          n = (if has_will p then n + (ucast (cp_will_topic_len p) + 2) + (ucast (cp_will_msg_len p) + 2) else n);
          n = (if has_password p then n + (ucast (cp_password_len p) + 2) else n)
      in if has_username p then n + (ucast (cp_username_len p) + 2) else n)"

text \<open>
  One call of \<^verbatim>\<open>build_string_field\<close> with the jump to
  \<^verbatim>\<open>exit\<close> behind it. The state is \<^verbatim>\<open>ret\<close>, the
  temporary buffer, the place of \<^verbatim>\<open>ptr\<close> in it and
  \<^verbatim>\<open>payload_len\<close>; after a jump nothing more is done to it.
\<close>

type_synonym payload_state = "mqtt_ret \<times> u8 list \<times> nat \<times> u32"

definition connect_put_field :: "bool \<Rightarrow> u8 list option \<Rightarrow> u16 \<Rightarrow> payload_state \<Rightarrow> payload_state res" where
  "connect_put_field present str len = (\<lambda>(ret, payload, pos, payload_len).
     if ret \<noteq> MQTT_SUCCESS \<or> \<not> present then Inr (ret, payload, pos, payload_len)
     else fbind (put_string str len payload pos 0) (\<lambda>(ret, payload, field_len).
          if ret \<noteq> MQTT_SUCCESS then Inr (ret, payload, pos, payload_len)
          else Inr (ret, payload, pos + unat field_len, payload_len + field_len)))"

definition connect_write_payload :: "u8 list option connect_payload_t \<Rightarrow> u8 \<Rightarrow> u8 list \<Rightarrow> payload_state res" where
  "connect_write_payload p flags payload =
     (let will = (bit_is_set flags CONNECT_FLAG_INDEX_WILL_FLAG \<noteq> 0)
      in fbind (connect_put_field True (cp_client_id p) (cp_client_id_len p) (MQTT_SUCCESS, payload, 0, 0)) (\<lambda>s.
         fbind (connect_put_field will (cp_will_topic p) (cp_will_topic_len p) s) (\<lambda>s.
         fbind (connect_put_field will (cp_will_msg p) (cp_will_msg_len p) s) (\<lambda>s.
         fbind (connect_put_field (bit_is_set flags CONNECT_FLAG_INDEX_USERNAME \<noteq> 0) (cp_username p) (cp_username_len p) s) (\<lambda>s.
         connect_put_field (bit_is_set flags CONNECT_FLAG_INDEX_PASSWD \<noteq> 0) (cp_password p) (cp_password_len p) s)))))"

text \<open>The message itself; the code does not look at the size of the caller's buffer.\<close>

definition connect_write_message ::
  "u8 list \<Rightarrow> u8 list \<Rightarrow> u32 \<Rightarrow> u8 list \<Rightarrow> (mqtt_ret \<times> u8 list \<times> u32) res" where
  "connect_write_message var_header payload payload_len message =
     fbind (wr_bytes message 0 [message_type_encode MQTT_MESSAGE_TYPE_CONNECT]) (\<lambda>message.
     let message_len = 0 + 1; remain_length = payload_len + 10
     in fbind (remain_length_encode remain_length message 1) (\<lambda>(ret, message, field_len).
        if ret \<noteq> MQTT_SUCCESS \<or> 4 < field_len then Inr (ret, message, message_len)
        else fbind (wr_bytes message (1 + unat field_len) var_header) (\<lambda>message.
             fbind (rd_bytes payload (unat payload_len)) (\<lambda>bytes.
             fbind (wr_bytes message (1 + unat field_len + 10) bytes) (\<lambda>message.
             Inr (MQTT_SUCCESS, message, message_len + field_len + 10 + payload_len))))))"

text \<open>
  The temporary buffer is a block of the heap; what is written to it is seen by no one else, so
  its contents are handled as a value and the block is released at the end.
\<close>

definition connect_message_build ::
  "u8 list option connect_payload_t \<Rightarrow> u16 \<Rightarrow> u8 \<Rightarrow> u8 \<Rightarrow> u8 \<Rightarrow> u8 list \<Rightarrow> u32 \<Rightarrow> heap \<Rightarrow>
   (mqtt_ret \<times> u8 list \<times> u32 \<times> heap) res" where
  "connect_message_build p keep_alive clean_session will_retain will_qos message message_len h =
     (if MQTT_CLIENT_ID_LEN_MAX < cp_client_id_len p then Inr (MQTT_INVALID_PARAM, message, message_len, h)
      else if cp_client_id p \<noteq> None \<and> MQTT_CLIENT_ID_LEN_MAX < cp_client_id_len p
      then Inr (MQTT_INVALID_PARAM, message, message_len, h)
      else let flags = connect_flags p clean_session will_retain will_qos;
               var_header = connect_variable_header flags keep_alive;
               size = connect_payload_size p;
               (block, h) = malloc (junk_bytes h (unat size)) h
      in if block = NULL then Inr (MQTT_MEMORY_NOBUFFER, message, message_len, h)
      else fbind (load_bytes block h) (\<lambda>payload.
           fbind (connect_write_payload p flags payload) (\<lambda>(ret, payload, _, payload_len).
           fbind (if ret \<noteq> MQTT_SUCCESS then Inr (ret, message, message_len)
                  else connect_write_message var_header payload payload_len message) (\<lambda>(ret, message, message_len).
           fbind (free block h) (\<lambda>h. Inr (ret, message, message_len, h))))))"

section \<open>Releasing a payload\<close>

definition release_field :: "u16 \<Rightarrow> link \<Rightarrow> heap \<Rightarrow> heap res" where
  "release_field len p h = (if len \<noteq> 0 \<and> p \<noteq> NULL then free p h else Inr h)"

definition connect_payload_release :: "link connect_payload_t option \<Rightarrow> heap \<Rightarrow> (mqtt_ret \<times> heap) res" where
  "connect_payload_release conn_payload h =
     (case conn_payload of
        None \<Rightarrow> Inr (MQTT_INVALID_PARAM, h)
      | Some p \<Rightarrow>
          fbind (release_field (cp_password_len p) (cp_password p) h) (\<lambda>h.
          fbind (release_field (cp_username_len p) (cp_username p) h) (\<lambda>h.
          fbind (release_field (cp_will_msg_len p) (cp_will_msg p) h) (\<lambda>h.
          fbind (release_field (cp_will_topic_len p) (cp_will_topic p) h) (\<lambda>h.
          fbind (release_field (cp_client_id_len p) (cp_client_id p) h) (\<lambda>h.
          Inr (MQTT_SUCCESS, h)))))))"

section \<open>Parsing\<close>

record connect_out =
  co_payload :: "link connect_payload_t"
  co_keep_alive :: u16
  co_clean_session :: u8
  co_will_retain :: u8
  co_will_qos :: u8

text \<open>
  The state of the payload part: \<^verbatim>\<open>ret\<close>, the bytes at
  \<^verbatim>\<open>ptr\<close>, \<^verbatim>\<open>message_len\<close>, the payload and the heap. As
  above nothing is done to it after a jump to \<^verbatim>\<open>error\<close>.
\<close>

type_synonym parse_state = "mqtt_ret \<times> u8 list \<times> u32 \<times> link connect_payload_t \<times> heap"

definition zero_payload :: "link connect_payload_t" where
  "zero_payload = \<lparr>cp_client_id_len = 0, cp_client_id = NULL, cp_will_topic_len = 0, cp_will_topic = NULL,
     cp_will_msg_len = 0, cp_will_msg = NULL, cp_username_len = 0, cp_username = NULL,
     cp_password_len = 0, cp_password = NULL\<rparr>"

text \<open>Storing a field, its length \<open>n\<close> known: a block for it, its bytes, and on to the next field.\<close>

definition connect_take_field ::
  "(u16 \<Rightarrow> link \<Rightarrow> link connect_payload_t \<Rightarrow> link connect_payload_t) \<Rightarrow> u16 \<Rightarrow> u8 list \<Rightarrow> u32 \<Rightarrow>
   link connect_payload_t \<Rightarrow> heap \<Rightarrow> parse_state res" where
  "connect_take_field upd n p message_len cp h =
     (let (q, h) = malloc (junk_bytes h (unat n)) h
      in if q = NULL then Inr (MQTT_MEMORY_NOBUFFER, p, message_len, upd n NULL cp, h)
         else fbind (load_bytes q h) (\<lambda>dst.
              fbind (parse_string_field (Some p) message_len (Some dst) (Some n)) (\<lambda>(ret, dst, len).
              fbind (deref dst) (\<lambda>dst. fbind (deref len) (\<lambda>len.
              fbind (store q (Bytes dst) h) (\<lambda>h.
              if ret \<noteq> MQTT_SUCCESS then Inr (ret, p, message_len, upd len q cp, h)
              else fbind (adv p (unat len + 2)) (\<lambda>p.
                   Inr (MQTT_SUCCESS, p, message_len - (ucast len + 2), upd len q cp, h))))))))"

definition connect_parse_field ::
  "bool \<Rightarrow> (u16 \<Rightarrow> link \<Rightarrow> link connect_payload_t \<Rightarrow> link connect_payload_t) \<Rightarrow> parse_state \<Rightarrow> parse_state res" where
  "connect_parse_field may_be_empty upd = (\<lambda>(ret, p, message_len, cp, h).
     if ret \<noteq> MQTT_SUCCESS then Inr (ret, p, message_len, cp, h)
     else fbind (parse_string_field (Some p) message_len None (Some 0)) (\<lambda>(ret, _, len).
          fbind (deref len) (\<lambda>n.
          if ret \<noteq> MQTT_SUCCESS then Inr (ret, p, message_len, upd n NULL cp, h)
          else if (\<not> may_be_empty \<and> n = 0) \<or> message_len - 2 < ucast n
          then Inr (MQTT_CONNECT_MESSAGE_ERROR, p, message_len, upd n NULL cp, h)
          else if n = 0 then fbind (adv p 2) (\<lambda>p. Inr (MQTT_SUCCESS, p, message_len - 2, upd n NULL cp, h))
          else connect_take_field upd n p message_len cp h)))"

definition set_client_id :: "u16 \<Rightarrow> link \<Rightarrow> link connect_payload_t \<Rightarrow> link connect_payload_t" where
  "set_client_id n q cp = cp\<lparr>cp_client_id_len := n, cp_client_id := q\<rparr>"
definition set_will_topic :: "u16 \<Rightarrow> link \<Rightarrow> link connect_payload_t \<Rightarrow> link connect_payload_t" where
  "set_will_topic n q cp = cp\<lparr>cp_will_topic_len := n, cp_will_topic := q\<rparr>"
definition set_will_msg :: "u16 \<Rightarrow> link \<Rightarrow> link connect_payload_t \<Rightarrow> link connect_payload_t" where
  "set_will_msg n q cp = cp\<lparr>cp_will_msg_len := n, cp_will_msg := q\<rparr>"
definition set_username :: "u16 \<Rightarrow> link \<Rightarrow> link connect_payload_t \<Rightarrow> link connect_payload_t" where
  "set_username n q cp = cp\<lparr>cp_username_len := n, cp_username := q\<rparr>"
definition set_password :: "u16 \<Rightarrow> link \<Rightarrow> link connect_payload_t \<Rightarrow> link connect_payload_t" where
  "set_password n q cp = cp\<lparr>cp_password_len := n, cp_password := q\<rparr>"

definition connect_parse_fields :: "bool \<Rightarrow> bool \<Rightarrow> bool \<Rightarrow> parse_state \<Rightarrow> parse_state res" where
  "connect_parse_fields will_flag username_flag password_flag s =
     fbind (if will_flag then fbind (connect_parse_field False set_will_topic s) (connect_parse_field False set_will_msg)
            else Inr s) (\<lambda>s.
     fbind (if username_flag then connect_parse_field False set_username s else Inr s) (\<lambda>s.
     fbind (if password_flag then connect_parse_field True set_password s else Inr s) (\<lambda>s.
     case s of (ret, p, message_len, cp, h) \<Rightarrow>
       if ret = MQTT_SUCCESS \<and> message_len \<noteq> 0 then Inr (MQTT_CONNECT_MESSAGE_ERROR, p, message_len, cp, h)
       else Inr (ret, p, message_len, cp, h))))"

text \<open>The payload; the two checks of the client identifier return at once.\<close>

definition connect_parse_payload ::
  "bool \<Rightarrow> bool \<Rightarrow> bool \<Rightarrow> u8 list \<Rightarrow> u32 \<Rightarrow> heap \<Rightarrow> (mqtt_ret \<times> link connect_payload_t \<times> heap) res" where
  "connect_parse_payload will_flag username_flag password_flag p message_len h =
     fbind (parse_string_field (Some p) message_len None (Some 0)) (\<lambda>(ret, _, len).
     fbind (deref len) (\<lambda>n.
     let cp = set_client_id n NULL zero_payload
     in if ret \<noteq> MQTT_SUCCESS then Inr (ret, cp, h)
        else if n = 0 \<or> 23 < n then Inr (MQTT_CLIENT_ID_LENGTH_UNSUPPORT, cp, h)
        else if message_len - 2 < ucast n then Inr (MQTT_CONNECT_MESSAGE_ERROR, cp, h)
        else fbind (connect_take_field set_client_id n p message_len zero_payload h) (\<lambda>s.
             fbind (connect_parse_fields will_flag username_flag password_flag s) (\<lambda>(ret, _, _, cp, h).
             if ret = MQTT_SUCCESS then Inr (ret, cp, h)
             else fbind (connect_payload_release (Some cp) h) (\<lambda>(_, h). Inr (ret, cp, h))))))"

text \<open>
  The variable header, at \<open>p\<close>. The conflict test of the code is on the addresses of the
  result variables \<^verbatim>\<open>will_retain\<close> and \<^verbatim>\<open>will_qos\<close>, which are
  not \<^verbatim>\<open>NULL\<close> here, not on their values.
\<close>

definition connect_parse_header :: "u8 list \<Rightarrow> u32 \<Rightarrow> connect_out \<Rightarrow> heap \<Rightarrow> (mqtt_ret \<times> connect_out \<times> heap) res" where
  "connect_parse_header p message_len out h =
     fbind (rd p 0) (\<lambda>l0. fbind (if l0 \<noteq> 0 then Inr l0 else rd p 1) (\<lambda>l1.
     if l0 \<noteq> 0 \<or> l1 \<noteq> 4 then Inr (MQTT_PROTOCOL_UNSUPPORT, out, h)
     else fbind (adv p 2) (\<lambda>name. fbind (rd_bytes name 4) (\<lambda>name.
     if name \<noteq> [0x4D, 0x51, 0x54, 0x54] then Inr (MQTT_PROTOCOL_UNSUPPORT, out, h)
     else fbind (rd p 6) (\<lambda>level.
     if level \<noteq> 4 then Inr (MQTT_PROTOCOL_LEVEL_UNSUPPORT, out, h)
     else fbind (rd p 7) (\<lambda>flags.
     let username_flag = bit_is_set flags CONNECT_FLAG_INDEX_USERNAME;
         password_flag = bit_is_set flags CONNECT_FLAG_INDEX_PASSWD;
         will_flag = bit_is_set flags CONNECT_FLAG_INDEX_WILL_FLAG;
         qos = push_bit 1 (bit_is_set flags CONNECT_FLAG_INDEX_WILL_QOS_HIGH) + bit_is_set flags CONNECT_FLAG_INDEX_WILL_QOS_LOW;
         out = out\<lparr>co_will_retain := bit_is_set flags CONNECT_FLAG_INDEX_WILL_RETAIN,
                   co_will_qos := (if 2 < qos then 0 else qos),
                   co_clean_session := bit_is_set flags CONNECT_FLAG_INDEX_CLEAN_SESSION\<rparr>
     in fbind (adv p 8) (\<lambda>ka. fbind (rd_u16 ka) (\<lambda>ka.
        let out = out\<lparr>co_keep_alive := ntohs ka\<rparr>; will_retain = Some out; will_qos = Some out
        in if will_flag = 0 \<and> (will_retain \<noteq> None \<or> will_qos \<noteq> None) then Inr (MQTT_CONNECT_FLAGS_ERROR, out, h)
           else if username_flag = 0 \<and> password_flag \<noteq> 0 then Inr (MQTT_CONNECT_FLAGS_ERROR, out, h)
           else fbind (adv p 10) (\<lambda>p.
                let message_len = message_len - 10
                in if message_len < 2 then Inr (MQTT_CONNECT_MESSAGE_ERROR, out, h)
                   else fbind (connect_parse_payload (will_flag \<noteq> 0) (username_flag \<noteq> 0) (password_flag \<noteq> 0) p message_len h)
                          (\<lambda>(ret, cp, h). Inr (ret, out\<lparr>co_payload := cp\<rparr>, h)))))))))))"

definition connect_message_parse ::
  "u8 list option \<Rightarrow> u32 \<Rightarrow> connect_out option \<Rightarrow> heap \<Rightarrow> (mqtt_ret \<times> connect_out option \<times> heap) res" where
  "connect_message_parse message message_len outp h =
     (case (message, outp) of
        (Some p, Some out) \<Rightarrow>
          fbind (rd p 0) (\<lambda>b.
          if b \<noteq> message_type_encode MQTT_MESSAGE_TYPE_CONNECT then Inr (MQTT_MESSAGE_TYPE_ERROR, outp, h)
          else fbind (adv p 1) (\<lambda>p. let message_len = message_len - 1
          in fbind (remain_length_decode p message_len) (\<lambda>(ret, field_len, remain_length).
          if ret \<noteq> MQTT_SUCCESS then Inr (ret, outp, h)
          else fbind (adv p (unat field_len)) (\<lambda>p. let message_len = message_len - field_len
          in if remain_length \<noteq> message_len then Inr (MQTT_INVALID_PARAM, outp, h)
             else fbind (connect_parse_header p message_len out h) (\<lambda>(ret, out, h). Inr (ret, Some out, h))))))
      | _ \<Rightarrow> Inr (MQTT_INVALID_PARAM, outp, h))"

section \<open>What the builder writes\<close>

definition field_complete :: "u16 \<Rightarrow> u8 list option \<Rightarrow> bool" where
  "field_complete n p \<longleftrightarrow> (case p of None \<Rightarrow> n = 0 | Some s \<Rightarrow> unat n \<le> length s)"

definition field_value :: "u16 \<Rightarrow> u8 list option \<Rightarrow> u8 list" where
  "field_value n p = take (unat n) (case p of None \<Rightarrow> [] | Some s \<Rightarrow> s)"

definition field_bytes :: "u16 \<Rightarrow> u8 list option \<Rightarrow> u8 list" where
  "field_bytes n p = be16 n @ field_value n p"

definition payload_complete :: "u8 list option connect_payload_t \<Rightarrow> bool" where
  "payload_complete p \<longleftrightarrow>
     field_complete (cp_client_id_len p) (cp_client_id p) \<and> field_complete (cp_will_topic_len p) (cp_will_topic p) \<and>
     field_complete (cp_will_msg_len p) (cp_will_msg p) \<and> field_complete (cp_username_len p) (cp_username p) \<and>
     field_complete (cp_password_len p) (cp_password p)"

definition connect_payload_bytes :: "u8 list option connect_payload_t \<Rightarrow> u8 list" where
  "connect_payload_bytes p =
     field_bytes (cp_client_id_len p) (cp_client_id p) @
     (if has_will p then field_bytes (cp_will_topic_len p) (cp_will_topic p) @ field_bytes (cp_will_msg_len p) (cp_will_msg p) else []) @
     (if has_username p then field_bytes (cp_username_len p) (cp_username p) else []) @
     (if has_password p then field_bytes (cp_password_len p) (cp_password p) else [])"

lemma bit_is_set_eq: "bit_is_set f i = of_bool (bit f i)"
  by (simp add: bit_is_set_def and_one_eq bit_iff_odd_drop_bit mod_2_eq_odd)

lemma bit_is_set_nonzero: "bit_is_set f i \<noteq> 0 \<longleftrightarrow> bit f i"
  by (simp add: bit_is_set_eq)

text \<open>The flags one by one.\<close>

lemma connect_flags_bits:
  "bit (connect_flags p c r q) 1 \<longleftrightarrow> c \<noteq> 0"
  "bit (connect_flags p c r q) (Suc 0) \<longleftrightarrow> c \<noteq> 0"
  "bit (connect_flags p c r q) 2 \<longleftrightarrow> has_will p"
  "bit (connect_flags p c r q) 3 \<longleftrightarrow> has_will p \<and> q = 1"
  "bit (connect_flags p c r q) 4 \<longleftrightarrow> has_will p \<and> q = 2"
  "bit (connect_flags p c r q) 5 \<longleftrightarrow> has_will p \<and> r \<noteq> 0"
  "bit (connect_flags p c r q) 6 \<longleftrightarrow> has_password p"
  "bit (connect_flags p c r q) 7 \<longleftrightarrow> has_username p"
  by (auto simp: connect_flags_def flag_macros Let_def bit_is_set_nonzero bit_simps)

lemma length_field_bytes: "field_complete n p \<Longrightarrow> length (field_bytes n p) = unat n + 2"
  by (auto simp: field_complete_def field_bytes_def field_value_def split: option.splits)

lemma unat_field_cost: "unat (ucast (n :: u16) + 2 :: u32) = unat n + 2"
  using unat_u16_lt [of n] by (simp add: unat_word_ariths unat_ucast_u16_u32 del: unat_u16_lt)

lemma connect_put_field_present:
  "field_complete n s \<Longrightarrow> b \<Longrightarrow>
   connect_put_field b s n (MQTT_SUCCESS, buf, pos, m) =
     fbind (wr_bytes buf pos (field_bytes n s)) (\<lambda>buf. Inr (MQTT_SUCCESS, buf, pos + (unat n + 2), m + (ucast n + 2)))"
  by (cases s) (simp_all add: connect_put_field_def field_complete_def put_string_NULL put_string_eq field_bytes_def
      field_value_def string_field_def fbind_assoc unat_field_cost)

lemma connect_put_field_absent: "\<not> b \<Longrightarrow> connect_put_field b s n st = Inr st"
  by (cases st) (simp add: connect_put_field_def)

lemma connect_write_payload_eq:
  assumes "payload_complete p"
  shows "connect_write_payload p (connect_flags p c r q) buf =
     fbind (wr_bytes buf 0 (connect_payload_bytes p))
       (\<lambda>buf. Inr (MQTT_SUCCESS, buf, length (connect_payload_bytes p), connect_payload_size p))"
proof -
  have len: "length (field_bytes (cp_client_id_len p) (cp_client_id p)) = unat (cp_client_id_len p) + 2"
    "length (field_bytes (cp_will_topic_len p) (cp_will_topic p)) = unat (cp_will_topic_len p) + 2"
    "length (field_bytes (cp_will_msg_len p) (cp_will_msg p)) = unat (cp_will_msg_len p) + 2"
    "length (field_bytes (cp_username_len p) (cp_username p)) = unat (cp_username_len p) + 2"
    "length (field_bytes (cp_password_len p) (cp_password p)) = unat (cp_password_len p) + 2"
    using assms by (simp_all add: payload_complete_def length_field_bytes)
  have complete: "field_complete (cp_client_id_len p) (cp_client_id p)" "field_complete (cp_will_topic_len p) (cp_will_topic p)"
    "field_complete (cp_will_msg_len p) (cp_will_msg p)" "field_complete (cp_username_len p) (cp_username p)"
    "field_complete (cp_password_len p) (cp_password p)"
    using assms by (simp_all add: payload_complete_def)
  note run = connect_write_payload_def Let_def bit_is_set_nonzero connect_flags_bits connect_put_field_present
    connect_put_field_absent complete fbind_assoc wr_bytes_seq len connect_payload_bytes_def connect_payload_size_def
  have pw: "has_password p \<Longrightarrow> has_username p" by (simp add: has_password_def)
  show ?thesis
    by (cases "has_will p"; cases "has_username p"; cases "has_password p")
      (use pw in \<open>simp_all add: run add_ac\<close>)
qed

lemma unat_connect_payload_size:
  "payload_complete p \<Longrightarrow> unat (connect_payload_size p) = length (connect_payload_bytes p)"
proof -
  assume p: "payload_complete p"
  have len: "length (field_bytes (cp_client_id_len p) (cp_client_id p)) = unat (cp_client_id_len p) + 2"
    "length (field_bytes (cp_will_topic_len p) (cp_will_topic p)) = unat (cp_will_topic_len p) + 2"
    "length (field_bytes (cp_will_msg_len p) (cp_will_msg p)) = unat (cp_will_msg_len p) + 2"
    "length (field_bytes (cp_username_len p) (cp_username p)) = unat (cp_username_len p) + 2"
    "length (field_bytes (cp_password_len p) (cp_password p)) = unat (cp_password_len p) + 2"
    using p by (simp_all add: payload_complete_def length_field_bytes)
  have lt: "unat (cp_client_id_len p) < 65536" "unat (cp_will_topic_len p) < 65536" "unat (cp_will_msg_len p) < 65536"
    "unat (cp_username_len p) < 65536" "unat (cp_password_len p) < 65536" by simp_all
  show ?thesis
    unfolding connect_payload_size_def connect_payload_bytes_def Let_def
    using lt by (cases "has_will p"; cases "has_username p"; cases "has_password p")
      (simp_all only: if_True if_False length_append len list.size unat_word_ariths(1) unat_field_cost mod_simps add_0,
        simp_all add: unat_ucast_u16_u32 del: unat_u16_lt)
qed

text \<open>Five fields of at most 65537 bytes.\<close>

lemma length_connect_payload_bytes: "payload_complete p \<Longrightarrow> length (connect_payload_bytes p) \<le> 327685"
proof -
  assume p: "payload_complete p"
  have "length (field_bytes n s) \<le> 65537" if "field_complete n s" for n s
    using length_field_bytes [OF that] unat_u16_lt [of n] by linarith
  then have "length (field_bytes (cp_client_id_len p) (cp_client_id p)) \<le> 65537"
    "length (field_bytes (cp_will_topic_len p) (cp_will_topic p)) \<le> 65537"
    "length (field_bytes (cp_will_msg_len p) (cp_will_msg p)) \<le> 65537"
    "length (field_bytes (cp_username_len p) (cp_username p)) \<le> 65537"
    "length (field_bytes (cp_password_len p) (cp_password p)) \<le> 65537"
    using p by (simp_all add: payload_complete_def)
  then show ?thesis by (simp add: connect_payload_bytes_def)
qed

lemma length_connect_variable_header [simp]: "length (connect_variable_header f k) = 10"
  by (simp add: connect_header_defs mem_of_u16_def)

lemma connect_write_message_eq:
  assumes "length hdr = 10" and "unat n = length pl" and "10 + length pl < 268435456"
  shows "connect_write_message hdr pl n buf =
     fbind (wr_bytes buf 0 (frame 0x10 (hdr @ pl)))
       (\<lambda>b. Inr (MQTT_SUCCESS, b, of_nat (length (frame 0x10 (hdr @ pl)))))"
proof -
  let ?v = "varint (10 + length pl)"
  have len: "unat (n + 10) = 10 + length pl" using assms(2,3) by (subst unat_u32_add) simp_all
  have vlen: "length ?v \<le> 4" using assms(3) by (simp add: length_varint_4)
  then have vnat: "unat (of_nat (length ?v) :: u32) = length ?v" by (intro unat_u32_of_nat) linarith
  have small: "\<not> (4 :: u32) < of_nat (length ?v)" using vnat vlen by (simp add: word_less_nat_alt)
  have total: "0 + 1 + of_nat (length ?v) + 10 + n = (of_nat (length (frame 0x10 (hdr @ pl))) :: u32)"
    using assms(1,2) by (simp add: frame_def algebra_simps flip: assms(2))
  have "connect_write_message hdr pl n buf =
     fbind (wr_bytes buf 0 (0x10 # ?v @ hdr @ pl)) (\<lambda>b. Inr (MQTT_SUCCESS, b, 0 + 1 + of_nat (length ?v) + 10 + n))"
    unfolding connect_write_message_def remain_length_encode_eq Let_def len
    using assms small by (simp add: message_type_encode_table fbind_assoc wr_bytes_seq vnat rd_bytes_def)
  then show ?thesis unfolding total using assms(1) by (simp add: frame_def)
qed

definition connect_frame :: "u8 list option connect_payload_t \<Rightarrow> u16 \<Rightarrow> u8 \<Rightarrow> u8 \<Rightarrow> u8 \<Rightarrow> u8 list" where
  "connect_frame p keep_alive clean retain qos =
     frame 0x10 (connect_variable_header (connect_flags p clean retain qos) keep_alive @ connect_payload_bytes p)"

lemma connect_message_build_eq:
  assumes p: "payload_complete p" "unat (cp_client_id_len p) \<le> 23" and h: "heap_ok h" "\<not> oom h (fresh h)"
  shows "connect_message_build p ka c r q buf n h =
     fbind (wr_bytes buf 0 (connect_frame p ka c r q)) (\<lambda>buf.
       Inr (MQTT_SUCCESS, buf, of_nat (length (connect_frame p ka c r q)), h\<lparr>fresh := Suc (fresh h)\<rparr>))"
proof -
  let ?bytes = "connect_payload_bytes p" and ?f = "connect_flags p c r q"
  have size: "unat (connect_payload_size p) = length ?bytes" by (rule unat_connect_payload_size [OF p(1)])
  have "10 + length ?bytes < 268435456" using length_connect_payload_bytes [OF p(1)] by linarith
  then have message: "connect_write_message (connect_variable_header ?f ka) ?bytes (connect_payload_size p) buf =
      fbind (wr_bytes buf 0 (connect_frame p ka c r q)) (\<lambda>b. Inr (MQTT_SUCCESS, b, of_nat (length (connect_frame p ka c r q))))"
    by (simp add: connect_write_message_eq size connect_frame_def)
  have payload: "connect_write_payload p ?f (map (junk h) [0..<length ?bytes]) =
      Inr (MQTT_SUCCESS, ?bytes, length ?bytes, connect_payload_size p)"
    by (simp add: connect_write_payload_eq [OF p(1)] wr_bytes_at_0)
  have "\<not> 23 < cp_client_id_len p" using p(2) by (simp add: word_less_nat_alt)
  moreover have "AList.delete (fresh h) (cells h) = cells h"
    using h(1) by (intro AList.delete_id) (auto simp: heap_ok_def live_def)
  ultimately show ?thesis
    using h(2) payload message
    by (simp add: connect_message_build_def Let_def malloc_def junk_bytes_def size load_bytes_def load_Addr free_live fbind_assoc)
qed

lemma connect_message_build_ok:
  assumes "payload_complete p" "unat (cp_client_id_len p) \<le> 23"
    and "length (connect_frame p ka c r q) \<le> length buf" and "heap_ok h" "\<not> oom h (fresh h)"
  shows "connect_message_build p ka c r q buf n h =
     Inr (MQTT_SUCCESS, connect_frame p ka c r q @ drop (length (connect_frame p ka c r q)) buf,
          of_nat (length (connect_frame p ka c r q)), h\<lparr>fresh := Suc (fresh h)\<rparr>)"
  using assms by (simp add: connect_message_build_eq wr_bytes_at_0)

lemma connect_frame_fits:
  assumes "payload_complete p"
  shows "length (connect_frame p keep_alive clean retain will_qos) \<le>
     unat (snd (connect_message_len_calc p keep_alive clean retain will_qos))"
    (is "?frame \<le> unat ?n")
proof -
  let ?bytes = "connect_payload_bytes p"
  have lt: "unat (cp_client_id_len p) < 65536" "unat (cp_will_topic_len p) < 65536" "unat (cp_will_msg_len p) < 65536"
    "unat (cp_username_len p) < 65536" "unat (cp_password_len p) < 65536" by simp_all
  have n: "unat ?n = 25 + unat (cp_client_id_len p) + unat (cp_will_topic_len p) + unat (cp_will_msg_len p)
      + unat (cp_username_len p) + unat (cp_password_len p)"
    using lt unfolding connect_message_len_calc_def snd_conv
    by (simp only: unat_word_ariths(1) unat_field_cost mod_simps)
      (simp add: unat_ucast_u16_u32 del: unat_u16_lt)
  have "length ?bytes \<le> 10 + unat (cp_client_id_len p) + unat (cp_will_topic_len p) + unat (cp_will_msg_len p)
      + unat (cp_username_len p) + unat (cp_password_len p)"
    using assms by (simp add: connect_payload_bytes_def payload_complete_def length_field_bytes)
  moreover have "length (varint (10 + length ?bytes)) \<le> 4"
    using length_connect_payload_bytes [OF assms] by (simp add: length_varint_4)
  ultimately show ?thesis unfolding n by (simp add: connect_frame_def frame_def)
qed

section \<open>The blocks of a payload\<close>

lemma parse_string_field_length:
  "parse_string_field (Some p) m None (Some x) = fbind (rd_u16 p) (\<lambda>raw. Inr (MQTT_SUCCESS, None, Some (ntohs raw)))"
  by (simp add: parse_string_field_def Let_def)

lemma parse_string_field_copy:
  "parse_string_field (Some p) m (Some dst) (Some x) =
     fbind (rd_u16 p) (\<lambda>raw. fbind (adv p 2) (\<lambda>q. fbind (rd_bytes q (unat (ntohs raw))) (\<lambda>bs.
     fbind (wr_bytes dst 0 bs) (\<lambda>dst. Inr (MQTT_SUCCESS, Some dst, Some (ntohs raw))))))"
  by (simp add: parse_string_field_def Let_def fbind_assoc)

text \<open>
  \<open>stacked ps cs cs0\<close>: the heap cells \<open>cs\<close> are those of \<open>cs0\<close> with
  one more in front for each pointer of \<open>ps\<close> that the release function would free.
\<close>

primrec stacked :: "(u16 \<times> link) list \<Rightarrow> (nat \<times> block) list \<Rightarrow> (nat \<times> block) list \<Rightarrow> bool" where
  "stacked [] cs cs0 \<longleftrightarrow> cs = cs0"
| "stacked (x # xs) cs cs0 \<longleftrightarrow>
     (if fst x \<noteq> 0 \<and> snd x \<noteq> NULL
      then \<exists>a b cs'. snd x = Addr a \<and> cs = (a, b) # cs' \<and> a \<notin> fst ` set cs' \<and> stacked xs cs' cs0
      else stacked xs cs cs0)"

definition payload_pointers :: "link connect_payload_t \<Rightarrow> (u16 \<times> link) list" where
  "payload_pointers p =
     [(cp_password_len p, cp_password p), (cp_username_len p, cp_username p), (cp_will_msg_len p, cp_will_msg p),
      (cp_will_topic_len p, cp_will_topic p), (cp_client_id_len p, cp_client_id p)]"

lemma release_field_stacked:
  "stacked ((n, q) # xs) (cells h) cs0 \<Longrightarrow>
   \<exists>cs. release_field n q h = Inr (h\<lparr>cells := cs\<rparr>) \<and> stacked xs cs cs0"
  by (auto simp: release_field_def free_live AList.delete_id split: if_splits intro: exI [of _ "cells h"])

lemma connect_payload_release_stacked:
  assumes "stacked (payload_pointers p) (cells h) cs0"
  shows "connect_payload_release (Some p) h = Inr (MQTT_SUCCESS, h\<lparr>cells := cs0\<rparr>)"
proof -
  from release_field_stacked [OF assms [unfolded payload_pointers_def]] obtain c1
    where 1: "release_field (cp_password_len p) (cp_password p) h = Inr (h\<lparr>cells := c1\<rparr>)"
      "stacked (tl (payload_pointers p)) (cells (h\<lparr>cells := c1\<rparr>)) cs0" by (auto simp: payload_pointers_def)
  from release_field_stacked [OF 1(2) [unfolded payload_pointers_def list.sel]] obtain c2
    where 2: "release_field (cp_username_len p) (cp_username p) (h\<lparr>cells := c1\<rparr>) = Inr (h\<lparr>cells := c2\<rparr>)"
      "stacked (tl (tl (payload_pointers p))) (cells (h\<lparr>cells := c2\<rparr>)) cs0" by (auto simp: payload_pointers_def)
  from release_field_stacked [OF 2(2) [unfolded payload_pointers_def list.sel]] obtain c3
    where 3: "release_field (cp_will_msg_len p) (cp_will_msg p) (h\<lparr>cells := c2\<rparr>) = Inr (h\<lparr>cells := c3\<rparr>)"
      "stacked (tl (tl (tl (payload_pointers p)))) (cells (h\<lparr>cells := c3\<rparr>)) cs0" by (auto simp: payload_pointers_def)
  from release_field_stacked [OF 3(2) [unfolded payload_pointers_def list.sel]] obtain c4
    where 4: "release_field (cp_will_topic_len p) (cp_will_topic p) (h\<lparr>cells := c3\<rparr>) = Inr (h\<lparr>cells := c4\<rparr>)"
      "stacked [(cp_client_id_len p, cp_client_id p)] (cells (h\<lparr>cells := c4\<rparr>)) cs0" by auto
  from release_field_stacked [OF 4(2)] obtain c5
    where 5: "release_field (cp_client_id_len p) (cp_client_id p) (h\<lparr>cells := c4\<rparr>) = Inr (h\<lparr>cells := c5\<rparr>)" "c5 = cs0" by auto
  show ?thesis by (simp add: connect_payload_release_def 1(1) 2(1) 3(1) 4(1) 5)
qed

text \<open>What reading one field does to the payload and the heap.\<close>

definition field_step ::
  "(u16 \<Rightarrow> link \<Rightarrow> link connect_payload_t \<Rightarrow> link connect_payload_t) \<Rightarrow>
   link connect_payload_t \<Rightarrow> heap \<Rightarrow> link connect_payload_t \<Rightarrow> heap \<Rightarrow> bool" where
  "field_step upd cp h cp' h' \<longleftrightarrow> heap_ok h' \<and>
     (\<exists>n q. cp' = upd n q cp \<and>
        (q = NULL \<and> cells h' = cells h \<or>
         n \<noteq> 0 \<and> (\<exists>a b. q = Addr a \<and> a \<notin> fst ` set (cells h) \<and> cells h' = (a, b) # cells h)))"

lemma connect_take_field_step:
  assumes "rd_u16 p = Inr raw" and "n = ntohs raw" and "n \<noteq> 0" and "heap_ok h"
    and "connect_take_field upd n p m cp h = Inr (ret, p', m', cp', h')"
  shows "field_step upd cp h cp' h'"
proof (cases "oom h (fresh h)")
  case True
  then have "cp' = upd n NULL cp" "h' = h\<lparr>fresh := Suc (fresh h)\<rparr>"
    using assms(5) by (simp_all add: connect_take_field_def malloc_def)
  moreover have "heap_ok (h\<lparr>fresh := Suc (fresh h)\<rparr>)" using assms(4) by (auto simp: heap_ok_def live_def less_Suc_eq)
  ultimately show ?thesis by (auto simp: field_step_def)
next
  case False
  have new: "fresh h \<notin> fst ` set (cells h)" using assms(4) by (auto simp: heap_ok_def live_def)
  have "heap_ok (h\<lparr>cells := (fresh h, b) # cells h, fresh := Suc (fresh h)\<rparr>)" for b
    using malloc_heap_ok [OF assms(4), of b] False by (simp add: malloc_def)
  moreover from assms False obtain bs where "cp' = upd n (Addr (fresh h)) cp"
    "h' = h\<lparr>cells := (fresh h, Bytes bs) # cells h, fresh := Suc (fresh h)\<rparr>"
    by (auto simp: connect_take_field_def malloc_def parse_string_field_copy fbind_eq_Inr load_bytes_def load_Addr
        store_def junk_bytes_def Let_def)
  ultimately show ?thesis
    unfolding field_step_def using new assms(3) by (intro conjI exI [of _ n] exI [of _ "Addr (fresh h)"]) auto
qed

lemma connect_parse_field_step:
  assumes "heap_ok h" and "connect_parse_field b upd (MQTT_SUCCESS, p, m, cp, h) = Inr (ret, p', m', cp', h')"
  shows "field_step upd cp h cp' h'"
proof -
  from assms(2) obtain raw where raw: "rd_u16 p = Inr raw"
    and run: "(if \<not> b \<and> ntohs raw = 0 \<or> m - 2 < ucast (ntohs raw)
          then Inr (MQTT_CONNECT_MESSAGE_ERROR, p, m, upd (ntohs raw) NULL cp, h)
          else if ntohs raw = 0 then fbind (adv p 2) (\<lambda>p. Inr (MQTT_SUCCESS, p, m - 2, upd (ntohs raw) NULL cp, h))
          else connect_take_field upd (ntohs raw) p m cp h) = Inr (ret, p', m', cp', h')"
    by (auto simp: connect_parse_field_def parse_string_field_length fbind_assoc fbind_eq_Inr)
  show ?thesis
  proof (cases "ntohs raw = 0 \<or> m - 2 < ucast (ntohs raw)")
    case True
    then have "cp' = upd (ntohs raw) NULL cp \<and> h' = h"
      using run by (auto simp: fbind_eq_Inr split: if_splits)
    with assms(1) show ?thesis by (auto simp: field_step_def)
  next
    case False
    then show ?thesis
      using run connect_take_field_step [OF raw refl _ assms(1), of upd m cp ret p' m' cp' h'] by simp
  qed
qed

text \<open>
  The invariant of the parser. \<open>pending k p\<close>: the pointers from field \<open>k\<close> on
  (will topic 1, will message 2, user name 3, password 4) are still \<^verbatim>\<open>NULL\<close>.
\<close>

definition pending :: "nat \<Rightarrow> link connect_payload_t \<Rightarrow> bool" where
  "pending k p \<longleftrightarrow> (k \<le> 1 \<longrightarrow> cp_will_topic p = NULL) \<and> (k \<le> 2 \<longrightarrow> cp_will_msg p = NULL) \<and>
     (k \<le> 3 \<longrightarrow> cp_username p = NULL) \<and> (k \<le> 4 \<longrightarrow> cp_password p = NULL)"

definition parse_inv :: "nat \<Rightarrow> (nat \<times> block) list \<Rightarrow> link connect_payload_t \<Rightarrow> heap \<Rightarrow> bool" where
  "parse_inv k cs0 p h \<longleftrightarrow> heap_ok h \<and> pending k p \<and> stacked (payload_pointers p) (cells h) cs0"

lemma parse_inv_mono: "parse_inv k cs0 p h \<Longrightarrow> k \<le> l \<Longrightarrow> parse_inv l cs0 p h"
  by (auto simp: parse_inv_def pending_def)

lemma field_step_client_id: "field_step set_client_id zero_payload h p' h' \<Longrightarrow> parse_inv 1 (cells h) p' h'"
  unfolding field_step_def parse_inv_def
  by (elim conjE exE disjE) (simp_all add: pending_def payload_pointers_def set_client_id_def zero_payload_def)

lemma field_step_will_topic: "parse_inv 1 cs0 p h \<Longrightarrow> field_step set_will_topic p h p' h' \<Longrightarrow> parse_inv 2 cs0 p' h'"
  unfolding field_step_def parse_inv_def
  by (elim conjE exE disjE) (simp_all add: pending_def payload_pointers_def set_will_topic_def)

lemma field_step_will_msg: "parse_inv 2 cs0 p h \<Longrightarrow> field_step set_will_msg p h p' h' \<Longrightarrow> parse_inv 3 cs0 p' h'"
  unfolding field_step_def parse_inv_def
  by (elim conjE exE disjE) (simp_all add: pending_def payload_pointers_def set_will_msg_def)

lemma field_step_username: "parse_inv 3 cs0 p h \<Longrightarrow> field_step set_username p h p' h' \<Longrightarrow> parse_inv 4 cs0 p' h'"
  unfolding field_step_def parse_inv_def
  by (elim conjE exE disjE) (simp_all add: pending_def payload_pointers_def set_username_def)

lemma field_step_password: "parse_inv 4 cs0 p h \<Longrightarrow> field_step set_password p h p' h' \<Longrightarrow> parse_inv 5 cs0 p' h'"
  unfolding field_step_def parse_inv_def
  by (elim conjE exE disjE) (simp_all add: pending_def payload_pointers_def set_password_def)

text \<open>The invariant of a whole state; a field that is read, or skipped after a jump, keeps it.\<close>

definition state_inv :: "nat \<Rightarrow> (nat \<times> block) list \<Rightarrow> parse_state \<Rightarrow> bool" where
  "state_inv k cs0 = (\<lambda>(r, p, m, cp, h). parse_inv k cs0 cp h)"

lemma connect_parse_field_inv:
  assumes "connect_parse_field b upd s = Inr s'" and "state_inv k cs0 s" and "k \<le> l"
    and step: "\<And>cp h cp' h'. parse_inv k cs0 cp h \<Longrightarrow> field_step upd cp h cp' h' \<Longrightarrow> parse_inv l cs0 cp' h'"
  shows "state_inv l cs0 s'"
proof -
  obtain r p m cp h where s: "s = (r, p, m, cp, h)" by (cases s) auto
  obtain r' p' m' cp' h' where s': "s' = (r', p', m', cp', h')" by (cases s') auto
  have inv: "parse_inv k cs0 cp h" using assms(2) by (simp add: state_inv_def s)
  have "parse_inv l cs0 cp' h'"
  proof (cases "r = MQTT_SUCCESS")
    case True
    have "heap_ok h" using inv by (simp add: parse_inv_def)
    then have "field_step upd cp h cp' h'"
      using assms(1) unfolding s s' True by (rule connect_parse_field_step)
    with inv show ?thesis by (rule step)
  next
    case False
    then show ?thesis
      using assms(1) inv parse_inv_mono [OF inv assms(3)] by (simp add: connect_parse_field_def s s')
  qed
  then show ?thesis by (simp add: state_inv_def s')
qed

lemma state_inv_mono: "state_inv k cs0 s \<Longrightarrow> k \<le> l \<Longrightarrow> state_inv l cs0 s"
  by (auto simp: state_inv_def intro: parse_inv_mono)

lemma connect_parse_fields_inv:
  assumes "connect_parse_fields w u pw s = Inr s'" and "state_inv 1 cs0 s"
  shows "state_inv 5 cs0 s'"
proof -
  from assms(1) obtain s1 s2 s3 where
    1: "(if w then fbind (connect_parse_field False set_will_topic s) (connect_parse_field False set_will_msg) else Inr s) = Inr s1" and
    2: "(if u then connect_parse_field False set_username s1 else Inr s1) = Inr s2" and
    3: "(if pw then connect_parse_field True set_password s2 else Inr s2) = Inr s3" and
    4: "(case s3 of (ret, p, message_len, cp, h) \<Rightarrow>
       if ret = MQTT_SUCCESS \<and> message_len \<noteq> 0 then Inr (MQTT_CONNECT_MESSAGE_ERROR, p, message_len, cp, h)
       else Inr (ret, p, message_len, cp, h)) = (Inr s' :: parse_state res)"
    unfolding connect_parse_fields_def fbind_eq_Inr by (elim exE conjE) (rule that)
  have inv1: "state_inv 3 cs0 s1"
  proof (cases w)
    case True
    with 1 obtain s0 where t: "connect_parse_field False set_will_topic s = Inr s0"
      and g: "connect_parse_field False set_will_msg s0 = Inr s1" by (auto simp: fbind_eq_Inr)
    have "state_inv 2 cs0 s0"
      by (rule connect_parse_field_inv [OF t assms(2)]) (simp, rule field_step_will_topic)
    then show ?thesis
      by (rule connect_parse_field_inv [OF g]) (simp, rule field_step_will_msg)
  next
    case False
    then show ?thesis using 1 state_inv_mono [OF assms(2), of 3] by simp
  qed
  have inv2: "state_inv 4 cs0 s2"
  proof (cases u)
    case True
    with 2 have "connect_parse_field False set_username s1 = Inr s2" by simp
    from this inv1 show ?thesis by (rule connect_parse_field_inv) (simp, rule field_step_username)
  next
    case False
    then show ?thesis using 2 state_inv_mono [OF inv1, of 4] by simp
  qed
  have "state_inv 5 cs0 s3"
  proof (cases pw)
    case True
    with 3 have "connect_parse_field True set_password s2 = Inr s3" by simp
    from this inv2 show ?thesis by (rule connect_parse_field_inv) (simp, rule field_step_password)
  next
    case False
    then show ?thesis using 3 state_inv_mono [OF inv2, of 5] by simp
  qed
  with 4 show ?thesis by (auto simp: state_inv_def split: prod.splits if_splits)
qed

lemma connect_parse_payload_memory:
  assumes "heap_ok h" and "connect_parse_payload w u pw p m h = Inr (ret, cp, h')"
  shows "if ret = MQTT_SUCCESS then stacked (payload_pointers cp) (cells h') (cells h) else cells h' = cells h"
proof -
  from assms(2) obtain raw where raw: "rd_u16 p = Inr raw"
    and run: "(if ntohs raw = 0 \<or> 23 < ntohs raw then Inr (MQTT_CLIENT_ID_LENGTH_UNSUPPORT, set_client_id (ntohs raw) NULL zero_payload, h)
        else if m - 2 < ucast (ntohs raw) then Inr (MQTT_CONNECT_MESSAGE_ERROR, set_client_id (ntohs raw) NULL zero_payload, h)
        else fbind (connect_take_field set_client_id (ntohs raw) p m zero_payload h) (\<lambda>s.
             fbind (connect_parse_fields w u pw s) (\<lambda>(ret, _, _, cp, h).
             if ret = MQTT_SUCCESS then Inr (ret, cp, h)
             else fbind (connect_payload_release (Some cp) h) (\<lambda>(_, h). Inr (ret, cp, h))))) = Inr (ret, cp, h')"
    by (auto simp: connect_parse_payload_def parse_string_field_length fbind_assoc fbind_eq_Inr Let_def)
  show ?thesis
  proof (cases "ntohs raw = 0 \<or> 23 < ntohs raw \<or> m - 2 < ucast (ntohs raw)")
    case True
    then show ?thesis using run by (auto split: if_splits)
  next
    case False
    with run obtain r1 p1 m1 cp1 h1 r2 p2 m2 h2
      where 1: "connect_take_field set_client_id (ntohs raw) p m zero_payload h = Inr (r1, p1, m1, cp1, h1)"
        and 2: "connect_parse_fields w u pw (r1, p1, m1, cp1, h1) = Inr (r2, p2, m2, cp, h2)"
        and 3: "(if r2 = MQTT_SUCCESS then Inr (r2, cp, h2)
             else fbind (connect_payload_release (Some cp) h2) (\<lambda>(_, h). Inr (r2, cp, h))) = Inr (ret, cp, h')"
      by (auto simp: fbind_eq_Inr split: if_splits)
    have "parse_inv 1 (cells h) cp1 h1"
      using connect_take_field_step [OF raw refl _ assms(1) 1] False field_step_client_id by blast
    then have "state_inv 1 (cells h) (r1, p1, m1, cp1, h1)" by (simp add: state_inv_def)
    from connect_parse_fields_inv [OF 2 this] have stack: "stacked (payload_pointers cp) (cells h2) (cells h)"
      by (simp add: state_inv_def parse_inv_def)
    show ?thesis using 3 stack connect_payload_release_stacked [OF stack] by (auto split: if_splits)
  qed
qed

lemma connect_parse_header_memory:
  "connect_parse_header p m out h = Inr (ret, out', h') \<Longrightarrow>
   (ret \<noteq> MQTT_SUCCESS \<and> h' = h) \<or> (\<exists>w u pw p' m'. connect_parse_payload w u pw p' m' h = Inr (ret, co_payload out', h'))"
  unfolding connect_parse_header_def Let_def fbind_eq_Inr
  by (elim exE conjE) (fastforce split: if_splits simp: fbind_eq_Inr)

section \<open>From builder to parser\<close>

lemma ucast_as_of_nat: "(ucast (n :: u16) :: u32) = of_nat (unat n)"
proof -
  have "unat n < 4294967296" using unat_u16_lt [of n] by linarith
  then show ?thesis by (simp add: word_eq_iff_unsigned [where ?'a = nat] unat_ucast_u16_u32 unat_u32_of_nat)
qed

lemma connect_take_field_ok:
  assumes "length s = unat n" and "\<not> oom h (fresh h)"
  shows "connect_take_field upd n (be16 n @ s @ rest) (of_nat (length (be16 n @ s) + k)) cp h =
     Inr (MQTT_SUCCESS, rest, of_nat k, upd n (Addr (fresh h)) cp,
          h\<lparr>cells := (fresh h, Bytes s) # cells h, fresh := Suc (fresh h)\<rparr>)"
proof -
  have adv: "adv (be16 n @ s @ rest) 2 = Inr (s @ rest)" by (simp add: adv_append)
  have adv2: "adv (be16 n @ s @ rest) (Suc (Suc (unat n))) = Inr rest"
    using adv_append [of "Suc (Suc (unat n))" "be16 n @ s" rest] assms(1) by simp
  have "(ucast n :: u32) = of_nat (length s)" unfolding assms(1) by (rule ucast_as_of_nat)
  then have "of_nat (length (be16 n @ s) + k) - (ucast n + 2) = (of_nat k :: u32)" by simp
  then show ?thesis
    using assms adv adv2
    by (simp add: connect_take_field_def malloc_def load_bytes_def load_Addr junk_bytes_def parse_string_field_copy
        rd_u16_be16 rd_bytes_append wr_bytes_at_0 store_def Let_def del: length_append)
qed

lemma connect_parse_field_ok:
  assumes "length s = unat n" and "n \<noteq> 0" and "\<not> oom h (fresh h)" and "length (be16 n @ s) + k < 4294967296"
  shows "connect_parse_field b upd (MQTT_SUCCESS, be16 n @ s @ rest, of_nat (length (be16 n @ s) + k), cp, h) =
     Inr (MQTT_SUCCESS, rest, of_nat k, upd n (Addr (fresh h)) cp,
          h\<lparr>cells := (fresh h, Bytes s) # cells h, fresh := Suc (fresh h)\<rparr>)"
proof -
  define m :: u32 where "m = of_nat (length (be16 n @ s) + k)"
  have m: "unat m = unat n + 2 + k"
    unfolding m_def unat_u32_of_nat [OF assms(4)] using assms(1) by simp
  then have "unat (m - 2) = unat n + k" by (subst unat_u32_sub) simp_all
  then have "\<not> m - 2 < ucast n" by (simp add: word_less_nat_alt unat_ucast_u16_u32)
  then show ?thesis
    using assms(2) connect_take_field_ok [OF assms(1,3), of upd rest k cp, folded m_def]
    unfolding m_def [symmetric] by (simp add: connect_parse_field_def parse_string_field_length rd_u16_be16)
qed

text \<open>What the receiver has of a payload: each field that was sent, in a block of its own.\<close>

definition received :: "bool \<Rightarrow> u16 \<Rightarrow> u8 list option \<Rightarrow> u16 \<Rightarrow> link \<Rightarrow> heap \<Rightarrow> bool" where
  "received sent n s n' q h \<longleftrightarrow>
     (if sent then n' = n \<and> load_bytes q h = Inr (field_value n s) else n' = 0 \<and> q = NULL)"

definition payload_received :: "u8 list option connect_payload_t \<Rightarrow> link connect_payload_t \<Rightarrow> heap \<Rightarrow> bool" where
  "payload_received p cp h \<longleftrightarrow>
     received True (cp_client_id_len p) (cp_client_id p) (cp_client_id_len cp) (cp_client_id cp) h \<and>
     received (has_will p) (cp_will_topic_len p) (cp_will_topic p) (cp_will_topic_len cp) (cp_will_topic cp) h \<and>
     received (has_will p) (cp_will_msg_len p) (cp_will_msg p) (cp_will_msg_len cp) (cp_will_msg cp) h \<and>
     received (has_username p) (cp_username_len p) (cp_username p) (cp_username_len cp) (cp_username cp) h \<and>
     received (has_password p) (cp_password_len p) (cp_password p) (cp_password_len cp) (cp_password cp) h"

lemma length_field_value: "field_complete n s \<Longrightarrow> length (field_value n s) = unat n"
  by (auto simp: field_complete_def field_value_def split: option.splits)

definition add_field :: "bool \<Rightarrow> u8 list \<Rightarrow> heap \<Rightarrow> heap" where
  "add_field present s h = (if present then h\<lparr>cells := (fresh h, Bytes s) # cells h, fresh := Suc (fresh h)\<rparr> else h)"

lemma oom_add_field [simp]: "oom (add_field b s h) = oom h"
  by (simp add: add_field_def)

lemma heap_ok_add_field: "heap_ok h \<Longrightarrow> heap_ok (add_field b s h)"
  by (auto simp: add_field_def heap_ok_def live_def less_Suc_eq)

lemma load_bytes_add_field:
  assumes "heap_ok h" and "load_bytes q h = Inr v"
  shows "load_bytes q (add_field b s h) = Inr v"
proof -
  from assms(2) obtain a where "q = Addr a" "map_of (cells h) a = Some (Bytes v)" by (auto simp: load_bytes_eq_Inr)
  moreover from this have "a \<noteq> fresh h" using heap_ok_fresh [OF assms(1)] by auto
  ultimately show ?thesis by (simp add: load_bytes_def load_Addr add_field_def)
qed

lemma received_add_field:
  "heap_ok h \<Longrightarrow> received b n s n' q h \<Longrightarrow> received b n s n' q (add_field b' s' h)"
  by (auto simp: received_def load_bytes_add_field)

lemma received_new: "received b n s (if b then n else 0) (if b then Addr (fresh h) else NULL) (add_field b (field_value n s) h)"
  by (simp add: received_def load_bytes_def load_Addr add_field_def)

text \<open>The bytes of a field that may be absent, and what the parser keeps of it.\<close>

definition opt_bytes :: "bool \<Rightarrow> u16 \<Rightarrow> u8 list option \<Rightarrow> u8 list" where
  "opt_bytes present n s = (if present then field_bytes n s else [])"

definition kept_field ::
  "bool \<Rightarrow> (u16 \<Rightarrow> link \<Rightarrow> link connect_payload_t \<Rightarrow> link connect_payload_t) \<Rightarrow> u16 \<Rightarrow> u8 list option \<Rightarrow>
   link connect_payload_t \<times> heap \<Rightarrow> link connect_payload_t \<times> heap" where
  "kept_field present upd n s st =
     (if present then upd n (Addr (fresh (snd st))) (fst st) else fst st, add_field present (field_value n s) (snd st))"

lemma snd_kept_field [simp]: "snd (kept_field b upd n s st) = add_field b (field_value n s) (snd st)"
  by (simp add: kept_field_def)

lemma fst_kept_field:
  "fst (kept_field b upd n s st) = (if b then upd n (Addr (fresh (snd st))) (fst st) else fst st)"
  by (simp add: kept_field_def)

lemma connect_parse_field_bytes:
  assumes "field_complete n s" and "present \<longrightarrow> n \<noteq> 0" and "\<forall>i. \<not> oom (snd st) i"
    and "length (opt_bytes present n s @ others) < 4294967296"
  shows "(if present
      then connect_parse_field b upd (MQTT_SUCCESS, opt_bytes present n s @ others @ tail, of_nat (length (opt_bytes present n s @ others)), st)
      else Inr (MQTT_SUCCESS, opt_bytes present n s @ others @ tail, of_nat (length (opt_bytes present n s @ others)), st)) =
     Inr (MQTT_SUCCESS, others @ tail, of_nat (length others), kept_field present upd n s st)"
proof (cases present)
  case True
  with assms(2) have "n \<noteq> 0" by simp
  then show ?thesis
    using connect_parse_field_ok [OF length_field_value [OF assms(1)], of "snd st" "length others" b upd "others @ tail" "fst st"]
      assms(3,4) True by (simp add: field_bytes_def opt_bytes_def add_field_def kept_field_def del: of_nat_add of_nat_Suc)
next
  case False
  then show ?thesis by (simp add: opt_bytes_def add_field_def kept_field_def)
qed

text \<open>The fields behind the client identifier, of a payload with a will.\<close>

definition fields_bytes :: "u8 list option connect_payload_t \<Rightarrow> u8 list" where
  "fields_bytes p =
     opt_bytes True (cp_will_topic_len p) (cp_will_topic p) @ opt_bytes True (cp_will_msg_len p) (cp_will_msg p) @
     opt_bytes (has_username p) (cp_username_len p) (cp_username p) @ opt_bytes (has_password p) (cp_password_len p) (cp_password p)"

definition kept_fields ::
  "u8 list option connect_payload_t \<Rightarrow> link connect_payload_t \<times> heap \<Rightarrow> link connect_payload_t \<times> heap" where
  "kept_fields p st =
     kept_field (has_password p) set_password (cp_password_len p) (cp_password p)
       (kept_field (has_username p) set_username (cp_username_len p) (cp_username p)
         (kept_field True set_will_msg (cp_will_msg_len p) (cp_will_msg p)
           (kept_field True set_will_topic (cp_will_topic_len p) (cp_will_topic p) st)))"

lemma connect_payload_bytes_will:
  "has_will p \<Longrightarrow> connect_payload_bytes p = field_bytes (cp_client_id_len p) (cp_client_id p) @ fields_bytes p"
  by (simp add: connect_payload_bytes_def fields_bytes_def opt_bytes_def)

lemma connect_parse_fields_ok:
  assumes p: "payload_complete p" "has_will p" and oom: "\<forall>i. \<not> oom (snd st) i"
    and short: "length (fields_bytes p) < 4294967296"
  shows "connect_parse_fields True (has_username p) (has_password p)
      (MQTT_SUCCESS, fields_bytes p @ tail, of_nat (length (fields_bytes p)), st) =
    Inr (MQTT_SUCCESS, tail, 0, kept_fields p st)"
proof -
  have complete: "field_complete (cp_will_topic_len p) (cp_will_topic p)" "field_complete (cp_will_msg_len p) (cp_will_msg p)"
    "field_complete (cp_username_len p) (cp_username p)" "field_complete (cp_password_len p) (cp_password p)"
    using p(1) by (simp_all add: payload_complete_def)
  have nonzero: "True \<longrightarrow> cp_will_topic_len p \<noteq> 0" "True \<longrightarrow> cp_will_msg_len p \<noteq> 0"
    "has_username p \<longrightarrow> cp_username_len p \<noteq> 0" "has_password p \<longrightarrow> cp_password_len p \<noteq> 0"
    using p(2) by (auto simp: has_will_def has_username_def has_password_def)
  define t where "t = opt_bytes True (cp_will_topic_len p) (cp_will_topic p)"
  define m where "m = opt_bytes True (cp_will_msg_len p) (cp_will_msg p)"
  define u where "u = opt_bytes (has_username p) (cp_username_len p) (cp_username p)"
  define w where "w = opt_bytes (has_password p) (cp_password_len p) (cp_password p)"
  have bytes: "fields_bytes p = t @ m @ u @ w" by (simp add: fields_bytes_def t_def m_def u_def w_def)
  note will = connect_parse_field_bytes [OF complete(1) nonzero(1) _, of _ "m @ u @ w" False set_will_topic tail,
        folded t_def, unfolded if_True append_assoc]
      connect_parse_field_bytes [OF complete(2) nonzero(2) _, of _ "u @ w" False set_will_msg tail,
        folded m_def, unfolded if_True append_assoc]
  note login = connect_parse_field_bytes [OF complete(3) nonzero(3) _, of _ "w" False set_username tail,
        folded u_def, unfolded append_assoc]
      connect_parse_field_bytes [OF complete(4) nonzero(4) _, of _ "[]" True set_password tail,
        folded w_def, unfolded append_Nil2 append_Nil]
  have lens: "length (t @ m @ u @ w) < 4294967296" "length (m @ u @ w) < 4294967296" "length (u @ w) < 4294967296"
    "length w < 4294967296" using short unfolding bytes by simp_all
  show ?thesis
    unfolding connect_parse_fields_def bytes append_assoc if_True kept_fields_def
    using oom by (simp only: will(1) [OF _ lens(1)] will(2) [OF _ lens(2)] login(1) [OF _ lens(3)] login(2) [OF _ lens(4)]
        fbind.simps snd_kept_field oom_add_field simp_thms) (simp add: kept_field_def)
qed

text \<open>The first field, the client identifier, and what the caller has in the end.\<close>

definition kept_id :: "u8 list option connect_payload_t \<Rightarrow> heap \<Rightarrow> link connect_payload_t \<times> heap" where
  "kept_id p h = kept_field True set_client_id (cp_client_id_len p) (cp_client_id p) (zero_payload, h)"

lemma connect_parse_payload_enter:
  fixes p :: "u8 list option connect_payload_t" and rest :: "u8 list"
  defines "bytes \<equiv> field_bytes (cp_client_id_len p) (cp_client_id p) @ rest"
  assumes "field_complete (cp_client_id_len p) (cp_client_id p)" and "cp_client_id_len p \<noteq> 0" and "unat (cp_client_id_len p) \<le> 23"
    and "\<forall>i. \<not> oom h i" and short: "length bytes < 4294967296"
  shows "connect_parse_payload f u w (bytes @ tail) (of_nat (length bytes)) h =
    fbind (connect_parse_fields f u w (MQTT_SUCCESS, rest @ tail, of_nat (length rest), kept_id p h))
      (\<lambda>(ret, _, _, cp, h). if ret = MQTT_SUCCESS then Inr (ret, cp, h)
             else fbind (connect_payload_release (Some cp) h) (\<lambda>(_, h). Inr (ret, cp, h)))"
proof -
  let ?n = "cp_client_id_len p"
  have take: "connect_take_field set_client_id ?n (bytes @ tail) (of_nat (length bytes)) zero_payload h =
      Inr (MQTT_SUCCESS, rest @ tail, of_nat (length rest), kept_id p h)"
    using connect_take_field_ok [OF length_field_value [OF assms(2)], of h set_client_id "rest @ tail" "length rest" zero_payload] assms(5)
    by (simp add: bytes_def field_bytes_def kept_id_def kept_field_def add_field_def del: of_nat_add of_nat_Suc)
  have raw: "rd_u16 (bytes @ tail) = Inr (htons ?n)" by (simp add: bytes_def field_bytes_def rd_u16_be16)
  have len: "length bytes = unat ?n + 2 + length rest" using length_field_bytes [OF assms(2)] by (simp add: bytes_def)
  have "unat (of_nat (length bytes) - 2 :: u32) = length bytes - 2"
    using len unat_u32_of_nat [OF short] by (subst unat_u32_sub) (simp_all del: of_nat_add)
  then have "\<not> of_nat (length bytes) - 2 < (ucast ?n :: u32)"
    using len by (simp add: word_less_nat_alt unat_ucast_u16_u32 del: of_nat_add)
  moreover have "\<not> 23 < ?n" using assms(4) by (simp add: word_less_nat_alt)
  ultimately show ?thesis
    unfolding connect_parse_payload_def parse_string_field_length raw Let_def
    using assms(3) take by (simp only: fbind.simps prod.case deref_simps ntohs_htons simp_thms if_False)
qed

lemma kept_received:
  assumes "has_will p" and "heap_ok h"
  shows "payload_received p (fst (kept_fields p (kept_id p h))) (snd (kept_fields p (kept_id p h)))"
proof -
  let ?add = "\<lambda>b n s. add_field b (field_value n s)"
  define h1 where "h1 = ?add True (cp_client_id_len p) (cp_client_id p) h"
  define h2 where "h2 = ?add True (cp_will_topic_len p) (cp_will_topic p) h1"
  define h3 where "h3 = ?add True (cp_will_msg_len p) (cp_will_msg p) h2"
  define h4 where "h4 = ?add (has_username p) (cp_username_len p) (cp_username p) h3"
  define h5 where "h5 = ?add (has_password p) (cp_password_len p) (cp_password p) h4"
  note heaps = h1_def [symmetric] h2_def [symmetric] h3_def [symmetric] h4_def [symmetric] h5_def [symmetric]
  have ok: "heap_ok h1" "heap_ok h2" "heap_ok h3" "heap_ok h4"
    using assms(2) by (simp_all add: h1_def h2_def h3_def h4_def heap_ok_add_field)
  have "received True (cp_client_id_len p) (cp_client_id p) (cp_client_id_len p) (Addr (fresh h)) h5"
    using received_new [of True "cp_client_id_len p" "cp_client_id p" h, folded h1_def] ok
    by (simp add: h2_def h3_def h4_def h5_def received_add_field heap_ok_add_field)
  moreover have "received True (cp_will_topic_len p) (cp_will_topic p) (cp_will_topic_len p) (Addr (fresh h1)) h5"
    using received_new [of True "cp_will_topic_len p" "cp_will_topic p" h1, folded h2_def] ok
    by (simp add: h3_def h4_def h5_def received_add_field heap_ok_add_field)
  moreover have "received True (cp_will_msg_len p) (cp_will_msg p) (cp_will_msg_len p) (Addr (fresh h2)) h5"
    using received_new [of True "cp_will_msg_len p" "cp_will_msg p" h2, folded h3_def] ok
    by (simp add: h4_def h5_def received_add_field heap_ok_add_field)
  moreover have "received (has_username p) (cp_username_len p) (cp_username p)
      (if has_username p then cp_username_len p else 0) (if has_username p then Addr (fresh h3) else NULL) h5"
    using received_new [of "has_username p" "cp_username_len p" "cp_username p" h3, folded h4_def] ok
    by (simp add: h5_def received_add_field)
  moreover have "received (has_password p) (cp_password_len p) (cp_password p)
      (if has_password p then cp_password_len p else 0) (if has_password p then Addr (fresh h4) else NULL) h5"
    unfolding h5_def by (rule received_new)
  moreover have "snd (kept_fields p (kept_id p h)) = h5" by (simp add: kept_fields_def kept_id_def heaps)
  moreover define c3 where "c3 = set_will_msg (cp_will_msg_len p) (Addr (fresh h2)) (set_will_topic (cp_will_topic_len p)
      (Addr (fresh h1)) (set_client_id (cp_client_id_len p) (Addr (fresh h)) zero_payload))"
  have "fst (kept_fields p (kept_id p h)) = (if has_password p then set_password (cp_password_len p) (Addr (fresh h4)) else id)
      ((if has_username p then set_username (cp_username_len p) (Addr (fresh h3)) else id) c3)"
    by (simp add: kept_fields_def kept_id_def fst_kept_field heaps c3_def)
  ultimately show ?thesis
    using assms(1) unfolding payload_received_def
    by (cases "has_username p"; cases "has_password p") (simp_all add: c3_def set_client_id_def set_will_topic_def
        set_will_msg_def set_username_def set_password_def zero_payload_def)
qed

lemma connect_parse_payload_ok:
  assumes p: "payload_complete p" "has_will p" "cp_client_id_len p \<noteq> 0" "unat (cp_client_id_len p) \<le> 23"
    and h: "\<forall>i. \<not> oom h i" "heap_ok h"
  shows "\<exists>cp h'. connect_parse_payload True (has_username p) (has_password p) (connect_payload_bytes p @ tail)
       (of_nat (length (connect_payload_bytes p))) h = Inr (MQTT_SUCCESS, cp, h') \<and> payload_received p cp h'"
proof -
  have id: "field_complete (cp_client_id_len p) (cp_client_id p)" using p(1) by (simp add: payload_complete_def)
  have short: "length (field_bytes (cp_client_id_len p) (cp_client_id p) @ fields_bytes p) < 4294967296"
    using length_connect_payload_bytes [OF p(1)] unfolding connect_payload_bytes_will [OF p(2)] by linarith
  moreover have "\<forall>i. \<not> oom (snd (kept_id p h)) i" using h(1) by (simp add: kept_id_def)
  ultimately have run: "connect_parse_fields True (has_username p) (has_password p)
      (MQTT_SUCCESS, fields_bytes p @ tail, of_nat (length (fields_bytes p)), kept_id p h) =
    Inr (MQTT_SUCCESS, tail, 0, kept_fields p (kept_id p h))"
    by (intro connect_parse_fields_ok [OF p(1,2)]) simp_all
  have "connect_parse_payload True (has_username p) (has_password p) (connect_payload_bytes p @ tail)
      (of_nat (length (connect_payload_bytes p))) h =
    Inr (MQTT_SUCCESS, fst (kept_fields p (kept_id p h)), snd (kept_fields p (kept_id p h)))"
    unfolding connect_payload_bytes_will [OF p(2)] connect_parse_payload_enter [OF id p(3,4) h(1) short] run
    by (simp add: split_beta)
  then show ?thesis using kept_received [OF p(2) h(2)] by blast
qed

definition header_out :: "u8 \<Rightarrow> u16 \<Rightarrow> connect_out \<Rightarrow> connect_out" where
  "header_out f ka out = out\<lparr>co_keep_alive := ka, co_clean_session := of_bool (bit f 1), co_will_retain := of_bool (bit f 5),
     co_will_qos := (if bit f 4 \<and> bit f 3 then 0 else 2 * of_bool (bit f 4) + of_bool (bit f 3))\<rparr>"

lemma connect_parse_header_eq:
  "connect_parse_header (connect_variable_header f ka @ p) m out h =
     (if \<not> bit f 2 \<or> \<not> bit f 7 \<and> bit f 6 then Inr (MQTT_CONNECT_FLAGS_ERROR, header_out f ka out, h)
      else if m - 10 < 2 then Inr (MQTT_CONNECT_MESSAGE_ERROR, header_out f ka out, h)
      else fbind (connect_parse_payload (bit f 2) (bit f 7) (bit f 6) p (m - 10) h)
             (\<lambda>(ret, cp, h). Inr (ret, header_out f ka out\<lparr>co_payload := cp\<rparr>, h)))"
proof -
  let ?hdr = "connect_variable_header f ka @ p"
  have bytes: "?hdr = [0, 4, 0x4D, 0x51, 0x54, 0x54, 4, f] @ be16 ka @ p"
    by (simp add: connect_header_defs mem_of_u16_htons)
  have rds: "rd ?hdr 0 = Inr 0" "rd ?hdr 1 = Inr 4" "rd ?hdr 6 = Inr 4" "rd ?hdr 7 = Inr f"
    "adv ?hdr 2 = Inr ([0x4D, 0x51, 0x54, 0x54] @ 4 # f # be16 ka @ p)" "adv ?hdr 8 = Inr (be16 ka @ p)" "adv ?hdr 10 = Inr p"
    unfolding bytes by (simp_all add: rd_def adv_def)
  have name: "rd_bytes ([0x4D, 0x51, 0x54, 0x54] @ xs) 4 = Inr [0x4D, 0x51, 0x54, 0x54]" for xs
    by (simp add: rd_bytes_def)
  have out: "out\<lparr>co_will_retain := bit_is_set f 5,
      co_will_qos := if 2 < push_bit 1 (bit_is_set f 4) + bit_is_set f 3 then 0
                     else push_bit 1 (bit_is_set f 4) + bit_is_set f 3,
      co_clean_session := bit_is_set f 1, co_keep_alive := ka\<rparr> = header_out f ka out"
    by (cases "bit f 4"; cases "bit f 3") (simp_all add: header_out_def bit_is_set_eq)
  show ?thesis
    unfolding connect_parse_header_def Let_def rds fbind.simps name rd_u16_be16 ntohs_htons out
    by (simp add: bit_is_set_eq)
qed

lemma connect_message_parse_frame:
  assumes "payload_complete p" and "unat n = length (connect_frame p ka c r q)"
  shows "connect_message_parse (Some (connect_frame p ka c r q @ tail)) n (Some out) h =
     fbind (connect_parse_header (connect_variable_header (connect_flags p c r q) ka @ connect_payload_bytes p @ tail)
              (of_nat (10 + length (connect_payload_bytes p))) out h)
       (\<lambda>(ret, out, h). Inr (ret, Some out, h))"
proof -
  define body where "body = connect_variable_header (connect_flags p c r q) ka @ connect_payload_bytes p"
  have "length body < 268435456" using length_connect_payload_bytes [OF assms(1)] by (simp add: body_def)
  note header = frame_header [OF this assms(2) [unfolded connect_frame_def, folded body_def]]
  have "length body = 10 + length (connect_payload_bytes p)" by (simp add: body_def)
  then have len: "of_nat (length body) = (of_nat (10 + length (connect_payload_bytes p)) :: u32)" by simp
  have body: "connect_variable_header (connect_flags p c r q) ka @ connect_payload_bytes p @ tail = body @ tail"
    by (simp add: body_def)
  show ?thesis
    unfolding connect_frame_def body_def [symmetric] body len [symmetric] using header
    by (simp add: connect_message_parse_def frame_def adv_Suc Let_def message_type_encode_table)
qed

lemma length_connect_frame: "payload_complete p \<Longrightarrow> length (connect_frame p ka c r q) \<le> 327710"
  using length_connect_payload_bytes [of p] length_varint_4 [of "10 + length (connect_payload_bytes p)"]
  by (simp add: connect_frame_def frame_def)

lemma connect_message_parse_will:
  assumes "payload_complete p" and "has_will p" and "0 < unat (cp_client_id_len p)" and "unat (cp_client_id_len p) \<le> 23"
    and "unat n = length (connect_frame p ka c r q)" and "heap_ok h" and "\<forall>i. \<not> oom h i"
  shows "\<exists>cp h'. connect_message_parse (Some (connect_frame p ka c r q @ tail)) n (Some out) h =
       Inr (MQTT_SUCCESS, Some (header_out (connect_flags p c r q) ka out\<lparr>co_payload := cp\<rparr>), h') \<and> payload_received p cp h'"
proof -
  let ?bytes = "connect_payload_bytes p"
  have small: "10 + length ?bytes < 4294967296" using length_connect_payload_bytes [OF assms(1)] by linarith
  have id: "cp_client_id_len p \<noteq> 0" using assms(3) by auto
  have "2 \<le> length ?bytes" by (simp add: connect_payload_bytes_def field_bytes_def)
  moreover have minus: "of_nat (10 + length ?bytes) - 10 = (of_nat (length ?bytes) :: u32)" by simp
  ultimately have long: "\<not> of_nat (10 + length ?bytes) - 10 < (2 :: u32)"
    using small by (simp add: word_less_nat_alt unat_u32_of_nat)
  obtain cp h' where parsed: "connect_parse_payload True (has_username p) (has_password p) (?bytes @ tail)
      (of_nat (length ?bytes)) h = Inr (MQTT_SUCCESS, cp, h')" "payload_received p cp h'"
    using connect_parse_payload_ok [OF assms(1,2) id assms(4,7,6)] by blast
  have pw: "has_username p \<or> \<not> has_password p" by (simp add: has_password_def)
  have "connect_message_parse (Some (connect_frame p ka c r q @ tail)) n (Some out) h =
      Inr (MQTT_SUCCESS, Some (header_out (connect_flags p c r q) ka out\<lparr>co_payload := cp\<rparr>), h')"
    unfolding connect_message_parse_frame [OF assms(1,5)] connect_parse_header_eq connect_flags_bits
    using pw assms(2) long parsed(1) unfolding minus by (simp del: of_nat_add)
  with parsed(2) show ?thesis by blast
qed

section \<open>Properties\<close>

text \<open>
  C6. A CONNECT message with a will survives its round trip. For every payload whose fields have
  the bytes their lengths say, with a client identifier of 1 to 23 bytes and a will, and any
  buffer that is large enough, the builder writes the message and nothing behind it and leaves
  the heap with the blocks it had. The parser accepts the message and returns the keep-alive
  time, the flags and the quality of service of the will, and each field that was sent in a
  block of its own.
\<close>

theorem connect_with_will_roundtrip:
  assumes "payload_complete p" and "has_will p" and "0 < unat (cp_client_id_len p)" and "unat (cp_client_id_len p) \<le> 23"
    and "will_qos < MQTT_QOS_MAX" and "length (connect_frame p keep_alive clean retain will_qos) \<le> length buf"
    and "heap_ok h" and "\<forall>i. \<not> oom h i" and "heap_ok h2" and "\<forall>i. \<not> oom h2 i"
  shows "\<exists>buf' n' h' out' h3.
     connect_message_build p keep_alive clean retain will_qos buf n h = Inr (MQTT_SUCCESS, buf', n', h') \<and>
     take (unat n') buf' = connect_frame p keep_alive clean retain will_qos \<and> drop (unat n') buf' = drop (unat n') buf \<and>
     cells h' = cells h \<and>
     connect_message_parse (Some buf') n' (Some out) h2 = Inr (MQTT_SUCCESS, Some out', h3) \<and>
     payload_received p (co_payload out') h3 \<and> co_keep_alive out' = keep_alive \<and>
     co_clean_session out' = of_bool (clean \<noteq> 0) \<and> co_will_retain out' = of_bool (retain \<noteq> 0) \<and> co_will_qos out' = will_qos"
proof -
  let ?frame = "connect_frame p keep_alive clean retain will_qos" and ?f = "connect_flags p clean retain will_qos"
  have nat: "unat (of_nat (length ?frame) :: u32) = length ?frame"
    using length_connect_frame [OF assms(1)] by (intro unat_u32_of_nat) (rule le_less_trans, assumption, simp)
  have qos: "co_will_qos (header_out ?f keep_alive out) = will_qos"
    using qos_cases [OF assms(5)] assms(2) by (auto simp: header_out_def connect_flags_bits)
  from connect_message_parse_will [OF assms(1-4) nat assms(9,10)] show ?thesis
    using connect_message_build_ok [OF assms(1,4,6,7), of n] assms(2,8) nat qos
    by (fastforce simp: header_out_def connect_flags_bits)
qed

theorem connect_with_will_roundtrip_witness:
  fixes p :: "u8 list option connect_payload_t" and h :: heap and out :: connect_out
  defines "p \<equiv> \<lparr>cp_client_id_len = 2, cp_client_id = Some [97, 98], cp_will_topic_len = 1, cp_will_topic = Some [116],
      cp_will_msg_len = 1, cp_will_msg = Some [109], cp_username_len = 1, cp_username = Some [117],
      cp_password_len = 1, cp_password = Some [112]\<rparr>"
    and "h \<equiv> \<lparr>cells = [], fresh = 0, oom = \<lambda>_. False, junk = \<lambda>_. 0\<rparr>"
    and "out \<equiv> \<lparr>co_payload = zero_payload, co_keep_alive = 9, co_clean_session = 9, co_will_retain = 9, co_will_qos = 9\<rparr>"
  shows "\<exists>buf' n' h' out' h3.
     connect_message_build p 60 1 0 1 (replicate 40 0) 40 h = Inr (MQTT_SUCCESS, buf', n', h') \<and>
     take (unat n') buf' = connect_frame p 60 1 0 1 \<and> drop (unat n') buf' = drop (unat n') (replicate 40 0) \<and>
     cells h' = cells h \<and>
     connect_message_parse (Some buf') n' (Some out) h = Inr (MQTT_SUCCESS, Some out', h3) \<and>
     payload_received p (co_payload out') h3 \<and> co_keep_alive out' = 60 \<and>
     co_clean_session out' = of_bool ((1 :: u8) \<noteq> 0) \<and> co_will_retain out' = of_bool ((0 :: u8) \<noteq> 0) \<and> co_will_qos out' = 1"
  by (rule connect_with_will_roundtrip)
    (simp_all add: p_def h_def heap_ok_def live_def payload_complete_def field_complete_def has_will_def has_username_def
      has_password_def connect_frame_def connect_payload_bytes_def field_bytes_def field_value_def frame_def varint_small)

text \<open>
  C28. Without a will the parser turns every CONNECT message down: whatever the payload, the
  flags, the bytes behind the message and the result variables, a message of the builder
  without a will is answered with \<^verbatim>\<open>MQTT_CONNECT_FLAGS_ERROR\<close>. The test that is
  meant for \<^verbatim>\<open>*will_retain\<close> and \<^verbatim>\<open>*will_qos\<close> is on the pointers.
\<close>

theorem connect_without_will_rejected:
  assumes "payload_complete p" and "\<not> has_will p" and "unat n = length (connect_frame p keep_alive clean retain will_qos)"
  shows "connect_message_parse (Some (connect_frame p keep_alive clean retain will_qos @ tail)) n (Some out) h =
     Inr (MQTT_CONNECT_FLAGS_ERROR, Some (out\<lparr>co_keep_alive := keep_alive, co_clean_session := of_bool (clean \<noteq> 0),
       co_will_retain := 0, co_will_qos := 0\<rparr>), h)"
  unfolding connect_message_parse_frame [OF assms(1,3)] connect_parse_header_eq
  using assms(2) by (simp add: connect_flags_bits header_out_def)

theorem connect_without_will_rejected_witness:
  fixes p :: "u8 list option connect_payload_t" and h :: heap and out :: connect_out
  defines "p \<equiv> \<lparr>cp_client_id_len = 2, cp_client_id = Some [97, 98], cp_will_topic_len = 0, cp_will_topic = None,
      cp_will_msg_len = 0, cp_will_msg = None, cp_username_len = 0, cp_username = None, cp_password_len = 0, cp_password = None\<rparr>"
    and "h \<equiv> \<lparr>cells = [], fresh = 0, oom = \<lambda>_. False, junk = \<lambda>_. 0\<rparr>"
    and "out \<equiv> \<lparr>co_payload = zero_payload, co_keep_alive = 9, co_clean_session = 9, co_will_retain = 9, co_will_qos = 9\<rparr>"
  shows "connect_message_parse (Some (connect_frame p 60 1 0 0 @ [])) 16 (Some out) h =
     Inr (MQTT_CONNECT_FLAGS_ERROR, Some (out\<lparr>co_keep_alive := 60, co_clean_session := of_bool ((1 :: u8) \<noteq> 0),
       co_will_retain := 0, co_will_qos := 0\<rparr>), h)"
  by (rule connect_without_will_rejected)
    (simp_all add: p_def payload_complete_def field_complete_def has_will_def has_username_def has_password_def
      connect_frame_def connect_payload_bytes_def field_bytes_def field_value_def frame_def varint_small)

text \<open>
  C39. The size computed for a CONNECT message is enough, as the builder does not look at the
  size of its buffer: for every complete payload the message has at most
  \<open>connect_message_len_calc\<close> bytes, so that a buffer of that size is not overrun.
\<close>

theorem connect_len_calc_suffices:
  assumes "payload_complete p" and "unat (cp_client_id_len p) \<le> 23" and "heap_ok h" and "\<not> oom h (fresh h)"
    and "connect_message_len_calc p keep_alive clean retain will_qos = (ret, n)" and "length buf = unat n"
  shows "ret = MQTT_SUCCESS \<and>
     (\<exists>buf' n' h'. connect_message_build p keep_alive clean retain will_qos buf n h = Inr (MQTT_SUCCESS, buf', n', h') \<and>
        unat n' \<le> unat n \<and> take (unat n') buf' = connect_frame p keep_alive clean retain will_qos)"
proof -
  let ?frame = "connect_frame p keep_alive clean retain will_qos"
  have fits: "length ?frame \<le> unat n"
    using connect_frame_fits [OF assms(1), of keep_alive clean retain will_qos] assms(5) by simp
  then have "unat (of_nat (length ?frame) :: u32) = length ?frame"
    using unat_u32_lt [of n] by (intro unat_u32_of_nat) linarith
  with fits connect_message_build_ok [OF assms(1,2) _ assms(3,4), of keep_alive clean retain will_qos buf n] assms(5,6)
  show ?thesis by (simp add: connect_message_len_calc_def)
qed

theorem connect_len_calc_suffices_witness:
  fixes p :: "u8 list option connect_payload_t" and h :: heap
  defines "p \<equiv> \<lparr>cp_client_id_len = 2, cp_client_id = Some [97, 98], cp_will_topic_len = 0, cp_will_topic = None,
      cp_will_msg_len = 0, cp_will_msg = None, cp_username_len = 1, cp_username = Some [117], cp_password_len = 0, cp_password = None\<rparr>"
    and "h \<equiv> \<lparr>cells = [], fresh = 0, oom = \<lambda>_. False, junk = \<lambda>_. 0\<rparr>"
  shows "MQTT_SUCCESS = MQTT_SUCCESS \<and>
     (\<exists>buf' n' h'. connect_message_build p 60 1 0 0 (replicate 28 7) 28 h = Inr (MQTT_SUCCESS, buf', n', h') \<and>
        unat n' \<le> unat (28 :: u32) \<and> take (unat n') buf' = connect_frame p 60 1 0 0)"
  by (rule connect_len_calc_suffices)
    (simp_all add: p_def h_def heap_ok_def live_def payload_complete_def field_complete_def connect_message_len_calc_def)

text \<open>
  C19. CONNECT parsing neither leaks nor releases twice. On every input and for every pattern of
  failing allocations, if the parser returns an error, the blocks of the heap are those it
  started with. If it returns success, the payload owns all the blocks that were added:
  \<open>connect_payload_release\<close> succeeds on it and brings the heap back.
\<close>

theorem connect_parse_memory:
  assumes "connect_message_parse (Some p) n (Some out) h = Inr (ret, Some out', h')" and "heap_ok h"
  shows "if ret = MQTT_SUCCESS
     then connect_payload_release (Some (co_payload out')) h' = Inr (MQTT_SUCCESS, h'\<lparr>cells := cells h\<rparr>)
     else cells h' = cells h"
proof -
  from assms(1) consider "ret \<noteq> MQTT_SUCCESS" "h' = h"
    | q m where "connect_parse_header q m out h = Inr (ret, out', h')"
    by (auto simp: connect_message_parse_def fbind_eq_Inr Let_def split: if_splits)
  then show ?thesis
  proof cases
    case 1
    then show ?thesis by simp
  next
    case 2
    from connect_parse_header_memory [OF this] consider "ret \<noteq> MQTT_SUCCESS" "h' = h"
      | w u pw q m where "connect_parse_payload w u pw q m h = Inr (ret, co_payload out', h')" by blast
    then show ?thesis
    proof cases
      case 1
      then show ?thesis by simp
    next
      case 2
      from connect_parse_payload_memory [OF assms(2) this] show ?thesis
        by (auto simp: connect_payload_release_stacked split: if_splits)
    qed
  qed
qed

theorem connect_parse_memory_witness:
  fixes p :: "u8 list option connect_payload_t" and h :: heap and out :: connect_out
  defines "p \<equiv> \<lparr>cp_client_id_len = 2, cp_client_id = Some [97, 98], cp_will_topic_len = 1, cp_will_topic = Some [116],
      cp_will_msg_len = 1, cp_will_msg = Some [109], cp_username_len = 1, cp_username = Some [117],
      cp_password_len = 1, cp_password = Some [112]\<rparr>"
    and "h \<equiv> \<lparr>cells = [(0, Bytes [5])], fresh = 1, oom = \<lambda>_. False, junk = \<lambda>_. 0\<rparr>"
    and "out \<equiv> \<lparr>co_payload = zero_payload, co_keep_alive = 9, co_clean_session = 9, co_will_retain = 9, co_will_qos = 9\<rparr>"
  shows "\<exists>out' h'. connect_message_parse (Some (connect_frame p 60 1 0 1)) 28 (Some out) h = Inr (MQTT_SUCCESS, Some out', h') \<and>
     connect_payload_release (Some (co_payload out')) h' = Inr (MQTT_SUCCESS, h'\<lparr>cells := cells h\<rparr>)"
proof -
  have "\<exists>cp h'. connect_message_parse (Some (connect_frame p 60 1 0 1 @ [])) 28 (Some out) h =
       Inr (MQTT_SUCCESS, Some (header_out (connect_flags p 1 0 1) 60 out\<lparr>co_payload := cp\<rparr>), h') \<and> payload_received p cp h'"
    by (rule connect_message_parse_will)
      (simp_all add: p_def h_def heap_ok_def live_def payload_complete_def field_complete_def has_will_def has_username_def
        has_password_def connect_frame_def connect_payload_bytes_def field_bytes_def field_value_def frame_def varint_small)
  then obtain out' h' where run: "connect_message_parse (Some (connect_frame p 60 1 0 1)) 28 (Some out) h =
      Inr (MQTT_SUCCESS, Some out', h')" by auto
  have "heap_ok h" by (simp add: h_def heap_ok_def live_def)
  from connect_parse_memory [OF run this] run show ?thesis by auto
qed

end
