(* ===== verification/Msg_Publish.thy ===== *)
theory Msg_Publish
  imports Message
begin

text \<open>
  message/msg_publish.c: an application message with its topic. The remaining length is
  computed in a 16-bit variable, so it is the true length of the body modulo \<open>2\<^sup>1\<^sup>6\<close>.
\<close>

abbreviation (input) PUBLISH_FLAG_INDEX_RETAIN :: nat where "PUBLISH_FLAG_INDEX_RETAIN \<equiv> 0"
abbreviation (input) PUBLISH_FLAG_INDEX_QOS_LOW :: nat where "PUBLISH_FLAG_INDEX_QOS_LOW \<equiv> 1"
abbreviation (input) PUBLISH_FLAG_INDEX_QOS_HIGH :: nat where "PUBLISH_FLAG_INDEX_QOS_HIGH \<equiv> 2"
abbreviation (input) PUBLISH_FLAG_INDEX_DUP :: nat where "PUBLISH_FLAG_INDEX_DUP \<equiv> 3"

section \<open>Building\<close>

definition publish_type_with_flags :: "u8 \<Rightarrow> u8 \<Rightarrow> u8 \<Rightarrow> u8" where
  "publish_type_with_flags dup qos retain =
     (let f = message_type_encode MQTT_MESSAGE_TYPE_PUBLISH;
          f = (if dup \<noteq> 0 then f OR push_bit PUBLISH_FLAG_INDEX_DUP 1 else f);
          f = (if retain \<noteq> 0 then f OR push_bit PUBLISH_FLAG_INDEX_RETAIN 1 else f)
      in if qos = MQTT_QOS_1 then f OR push_bit PUBLISH_FLAG_INDEX_QOS_LOW 1
         else if qos = MQTT_QOS_2 then f OR push_bit PUBLISH_FLAG_INDEX_QOS_HIGH 1 else f)"

definition publish_remain_len :: "u8 \<Rightarrow> u16 \<Rightarrow> u32 \<Rightarrow> u16" where
  "publish_remain_len qos topic_len payload_len =
     (let remain_len = topic_len + 2;
          remain_len = (if MQTT_QOS_0 < qos then remain_len + 2 else remain_len)
      in ucast (ucast remain_len + payload_len))"

text \<open>
  The writing part of the builder, after its checks: the result holds the return code, the
  message, the message length and \<open>*packet_id\<close>, which the code overwrites with its
  network-order form.
\<close>

definition publish_write_message ::
  "u8 \<Rightarrow> u8 list \<Rightarrow> u32 \<Rightarrow> u8 \<Rightarrow> u8 list option \<Rightarrow> u16 \<Rightarrow> u16 option \<Rightarrow> u8 list option \<Rightarrow> u32 \<Rightarrow>
   u8 list \<Rightarrow> (mqtt_ret \<times> u8 list \<times> u32 \<times> u16 option) res" where
  "publish_write_message type_with_flags buffer feild_len qos topic topic_len packet_id payload payload_len message =
     fbind (wr_bytes message 0 [type_with_flags]) (\<lambda>message.
     fbind (rd_bytes buffer (unat feild_len)) (\<lambda>encoded.
     fbind (wr_bytes message 1 encoded) (\<lambda>message.
     let pos = 1 + unat feild_len; message_len = 1 + feild_len
     in fbind (put_string topic topic_len message pos feild_len) (\<lambda>(ret, message, feild_len).
        if ret \<noteq> MQTT_SUCCESS then Inr (ret, message, message_len, packet_id)
        else let pos = pos + unat feild_len; message_len = message_len + feild_len
        in fbind (if MQTT_QOS_0 < qos
                  then fbind (deref packet_id) (\<lambda>id.
                       let id = htons id
                       in fbind (wr_bytes message pos (mem_of_u16 id)) (\<lambda>message.
                          Inr (message, pos + 2, message_len + 2, Some id)))
                  else Inr (message, pos, message_len, packet_id))
             (\<lambda>(message, pos, message_len, packet_id).
                fbind (rd_ptr payload (unat payload_len)) (\<lambda>bytes.
                fbind (wr_bytes message pos bytes) (\<lambda>message.
                Inr (MQTT_SUCCESS, message, message_len + payload_len, packet_id))))))))"

text \<open>
  The array that receives the remaining length is read only where it was written.
\<close>

definition publish_message_build ::
  "u8 \<Rightarrow> u8 \<Rightarrow> u8 \<Rightarrow> u8 list option \<Rightarrow> u16 \<Rightarrow> u16 option \<Rightarrow> u8 list option \<Rightarrow> u32 \<Rightarrow>
   u8 list option \<Rightarrow> u32 option \<Rightarrow> (mqtt_ret \<times> u8 list option \<times> u32 option \<times> u16 option) res" where
  "publish_message_build dup qos retain topic topic_len packet_id payload payload_len message message_len =
     (case (message, message_len) of
        (Some buf, Some len) \<Rightarrow>
          if topic = None \<or> topic_len = 0 \<or> MQTT_QOS_MAX \<le> qos
          then Inr (MQTT_INVALID_PARAM, message, message_len, packet_id)
          else if MQTT_QOS_0 < qos \<and> packet_id = None
          then Inr (MQTT_INVALID_PARAM, message, message_len, packet_id)
          else if payload_len \<noteq> 0 \<and> payload = None
          then Inr (MQTT_INVALID_PARAM, message, message_len, packet_id)
          else let type_with_flags = publish_type_with_flags dup qos retain;
                   remain_len = publish_remain_len qos topic_len payload_len
          in fbind (remain_length_encode (ucast remain_len) (replicate 4 0) 0) (\<lambda>(ret, buffer, feild_len).
             if ret \<noteq> MQTT_SUCCESS then Inr (ret, message, message_len, packet_id)
             else if len < 1 + feild_len + ucast remain_len
             then Inr (MQTT_MEMORY_NOBUFFER, message, message_len, packet_id)
             else fbind (publish_write_message type_with_flags buffer feild_len qos topic topic_len
                           packet_id payload payload_len buf)
                  (\<lambda>(ret, buf, len, packet_id). Inr (ret, Some buf, Some len, packet_id)))
      | _ \<Rightarrow> Inr (MQTT_INVALID_PARAM, message, message_len, packet_id))"

section \<open>Parsing\<close>

text \<open>The result variables; \<open>pub_topic\<close> and \<open>pub_payload\<close> point into the message.\<close>

record publish_out =
  pub_dup :: u8
  pub_qos :: u8
  pub_retain :: u8
  pub_topic :: "u8 list option"
  pub_topic_len :: u16
  pub_packet_id :: u16
  pub_payload :: "u8 list option"
  pub_payload_len :: u32

text \<open>
  The part after the type byte: the remaining length, the topic, the packet identifier and
  what is left, the payload.
\<close>

definition publish_parse_body :: "u8 list \<Rightarrow> u32 \<Rightarrow> publish_out \<Rightarrow> (mqtt_ret \<times> publish_out) res" where
  "publish_parse_body p message_len out =
     fbind (remain_length_decode p message_len) (\<lambda>(ret, feild_len, remain_len).
     if ret \<noteq> MQTT_SUCCESS then Inr (ret, out)
     else fbind (adv p (unat feild_len)) (\<lambda>p.
          let message_len = message_len - feild_len
          in if message_len < remain_len then Inr (MQTT_PUBLISH_MESSAGE_ERROR, out)
             else fbind (locate_string p message_len) (\<lambda>(ret, topic, topic_len).
                  let out = out\<lparr>pub_topic := topic, pub_topic_len := topic_len\<rparr>
                  in if ret \<noteq> MQTT_SUCCESS then Inr (ret, out)
                     else fbind (adv p (unat topic_len + 2)) (\<lambda>p.
                          let message_len = message_len - (ucast topic_len + 2)
                          in fbind (if MQTT_QOS_0 < pub_qos out
                                    then fbind (rd_u16 p) (\<lambda>raw. fbind (adv p 2) (\<lambda>p.
                                         Inr (p, message_len - 2, out\<lparr>pub_packet_id := ntohs raw\<rparr>)))
                                    else Inr (p, message_len, out\<lparr>pub_packet_id := 0\<rparr>))
                             (\<lambda>(p, message_len, out).
                                Inr (MQTT_SUCCESS,
                                     out\<lparr>pub_payload := Some p, pub_payload_len := message_len\<rparr>))))))"

text \<open>\<open>None\<close> for \<open>out\<close> stands for a call with a null result pointer; the code treats all alike.\<close>

definition publish_message_parse ::
  "u8 list option \<Rightarrow> u32 \<Rightarrow> publish_out option \<Rightarrow> (mqtt_ret \<times> publish_out option) res" where
  "publish_message_parse message message_len outp =
     (case (message, outp) of
        (Some p, Some out) \<Rightarrow>
          if message_len = 0 then Inr (MQTT_INVALID_PARAM, outp)
          else fbind (rd p 0) (\<lambda>b.
          if b AND MESSAGE_TYPE_MASK \<noteq> message_type_encode MQTT_MESSAGE_TYPE_PUBLISH
          then Inr (MQTT_MESSAGE_TYPE_ERROR, outp)
          else let out = out\<lparr>pub_dup := (if b AND push_bit PUBLISH_FLAG_INDEX_DUP 1 \<noteq> 0 then 1 else 0),
                             pub_retain := (if b AND push_bit PUBLISH_FLAG_INDEX_RETAIN 1 \<noteq> 0 then 1 else 0)\<rparr>;
                   low = (b AND push_bit PUBLISH_FLAG_INDEX_QOS_LOW 1 \<noteq> 0);
                   high = (b AND push_bit PUBLISH_FLAG_INDEX_QOS_HIGH 1 \<noteq> 0)
          in if low \<and> high then Inr (MQTT_PUBLISH_QOS_ERROR, Some out)
             else let out = out\<lparr>pub_qos := (if high then MQTT_QOS_2 else if low then MQTT_QOS_1 else MQTT_QOS_0)\<rparr>
             in fbind (adv p 1) (\<lambda>p.
                fbind (publish_parse_body p (message_len - 1) out) (\<lambda>(ret, out). Inr (ret, Some out))))
      | _ \<Rightarrow> Inr (MQTT_INVALID_PARAM, outp))"

section \<open>The message on the wire\<close>

definition publish_flags :: "bool \<Rightarrow> u8 \<Rightarrow> bool \<Rightarrow> u8" where
  "publish_flags dup qos retain = 0x30 + (if dup then 8 else 0) + 2 * qos + (if retain then 1 else 0)"

definition publish_body :: "u8 list \<Rightarrow> u16 option \<Rightarrow> u8 list \<Rightarrow> u8 list" where
  "publish_body topic packet_id payload =
     field topic @ (case packet_id of None \<Rightarrow> [] | Some i \<Rightarrow> be16 i) @ payload"

lemma publish_type_with_flags_eq:
  "qos < MQTT_QOS_MAX \<Longrightarrow> publish_type_with_flags dup qos retain = publish_flags (dup \<noteq> 0) qos (retain \<noteq> 0)"
  using qos_cases [of qos]
  by (auto simp: publish_type_with_flags_def publish_flags_def message_type_encode_table)

lemma length_publish_body:
  "length (publish_body topic pid payload) =
     2 + length topic + (case pid of None \<Rightarrow> 0 | Some _ \<Rightarrow> 2) + length payload"
  by (simp add: publish_body_def field_def split: option.split)

text \<open>The remaining length is the length of the body, unless that is \<open>2\<^sup>1\<^sup>6\<close> or more.\<close>

lemma unat_publish_remain_len:
  "unat (publish_remain_len qos k n) =
     (unat k + 2 + (if qos = 0 then 0 else 2) + unat n) mod 65536"
proof -
  have pos: "0 < qos \<longleftrightarrow> qos \<noteq> 0" by (simp add: word_greater_zero_iff)
  have "unat (ucast (ucast r + n) :: u16) = (unat r + unat n) mod 65536" for r :: u16
    by (simp add: unat_ucast_u32_u16 unat_word_ariths unat_ucast_u16_u32 mod_mod_cancel)
  then show ?thesis
    unfolding publish_remain_len_def Let_def pos
    by (simp add: unat_word_ariths mod_simps add.assoc) (simp add: add.left_commute)
qed

text \<open>Encoding into the local array of four bytes never runs out of room for a 16-bit length.\<close>

lemma remain_length_encode_local:
  assumes "unat (n :: u32) < 268435456"
  shows "remain_length_encode n (replicate 4 0) 0 =
           Inr (MQTT_SUCCESS, varint (unat n) @ drop (length (varint (unat n))) (replicate 4 0),
                of_nat (length (varint (unat n))))"
  using assms by (simp add: remain_length_encode_eq wr_bytes_at_0 length_varint_4)

lemma publish_write_message_eq:
  assumes topic: "unat topic_len = length topic"
    and pid: "qos \<noteq> 0 \<longrightarrow> pid = Some i"
    and payload: "unat payload_len = length payload"
    and enc: "unat n = length enc"
  shows "publish_write_message f (enc @ tail) n qos (Some topic) topic_len pid (Some payload) payload_len buf =
     fbind (wr_bytes buf 0 (f # enc @ publish_body topic (if qos = 0 then None else Some i) payload))
       (\<lambda>b. Inr (MQTT_SUCCESS, b,
          1 + n + (ucast topic_len + 2) + (if qos = 0 then 0 else 2) + payload_len,
          if qos = 0 then pid else Some (htons i)))"
proof -
  have pos: "0 < qos \<longleftrightarrow> qos \<noteq> 0" by (simp add: word_greater_zero_iff)
  have tlen: "unat (ucast topic_len + 2 :: u32) = length topic + 2"
    using unat_u16_lt [of topic_len] topic
    by (subst unat_word_ariths) (simp add: unat_ucast_u16_u32 del: unat_u16_lt)
  have field: "string_field topic_len topic = field topic"
    using topic by (rule string_field_eq_field)
  have flen: "length (field topic) = length topic + 2" by (simp add: field_def)
  note run = publish_write_message_def Let_def rd_bytes_append enc put_string_eq topic field flen tlen
    payload pos wr_bytes_seq fbind_assoc rd_ptr_def rd_bytes_def publish_body_def mem_of_u16_htons
  show ?thesis
  proof (cases "qos = 0")
    case True
    then show ?thesis by (simp add: run)
  next
    case False
    with pid show ?thesis by (simp add: run)
  qed
qed

text \<open>
  With its checks passed and a body shorter than \<open>2\<^sup>1\<^sup>6\<close> bytes, the builder writes the message
  of the standard and nothing else.
\<close>

lemma publish_message_build_ok:
  fixes payload topic :: "u8 list" and i :: u16
  defines "msg qos f \<equiv> frame f (publish_body topic (if qos = 0 then None else Some i) payload)"
  assumes topic: "unat topic_len = length topic" "topic \<noteq> []"
    and qos: "qos < MQTT_QOS_MAX"
    and pid: "qos \<noteq> 0 \<longrightarrow> pid = Some i"
    and payload: "unat payload_len = length payload"
    and short: "length (publish_body topic (if qos = 0 then None else Some i) payload) < 65536"
    and f: "f = publish_flags (dup \<noteq> 0) qos (retain \<noteq> 0)"
    and room: "length (msg qos f) \<le> unat n" "length (msg qos f) \<le> length buf"
  shows "publish_message_build dup qos retain (Some topic) topic_len pid (Some payload) payload_len (Some buf) (Some n) =
     Inr (MQTT_SUCCESS, Some (msg qos f @ drop (length (msg qos f)) buf),
          Some (of_nat (length (msg qos f))), if qos = 0 then pid else Some (htons i))"
proof -
  let ?r = "publish_remain_len qos topic_len payload_len"
  let ?b = "publish_body topic (if qos = 0 then None else Some i) payload"
  let ?v = "length (varint (length ?b))"
  have len: "unat ?r = length ?b"
    using short unfolding unat_publish_remain_len topic(1) payload length_publish_body
    by (simp split: if_splits)
  have vlen: "?v \<le> 4" using short by (simp add: length_varint_4)
  have enc: "remain_length_encode (ucast ?r) (replicate 4 0) 0 =
      Inr (MQTT_SUCCESS, varint (length ?b) @ drop ?v (replicate 4 0), of_nat ?v)"
    using remain_length_encode_local [of "ucast ?r"] short by (simp add: unat_ucast_u16_u32 len)
  have vnat: "unat (of_nat ?v :: u32) = ?v"
    by (rule unat_u32_of_nat) (use vlen in linarith)
  have total: "unat (1 + of_nat ?v + ucast ?r :: u32) = length (msg qos f)"
    using vlen short len by (simp add: unat_word_ariths vnat unat_ucast_u16_u32 frame_def msg_def)
  have fits: "\<not> n < 1 + of_nat ?v + ucast ?r"
    using total room(1) by (simp add: word_less_nat_alt)
  have nonzero: "topic_len \<noteq> 0" using topic by auto
  have pos: "0 < qos \<longleftrightarrow> qos \<noteq> 0" by (simp add: word_greater_zero_iff)
  have guards: "\<not> MQTT_QOS_MAX \<le> qos" "qos = 0 \<or> pid \<noteq> None" using qos pid by auto
  have words: "ucast topic_len = (of_nat (length topic) :: u32)" "payload_len = of_nat (length payload)"
    by (simp_all add: topic(1) [symmetric] payload [symmetric])
  have count: "1 + of_nat ?v + (ucast topic_len + 2) + (if qos = 0 then 0 else 2) + payload_len =
      (of_nat (length (msg qos f)) :: u32)"
    unfolding words by (simp add: msg_def frame_def length_publish_body)
  have written: "publish_write_message f (varint (length ?b) @ drop ?v (replicate 4 0)) (of_nat ?v) qos (Some topic)
      topic_len pid (Some payload) payload_len buf =
      Inr (MQTT_SUCCESS, msg qos f @ drop (length (msg qos f)) buf, of_nat (length (msg qos f)),
           if qos = 0 then pid else Some (htons i))"
    unfolding publish_write_message_eq [OF topic(1) pid payload vnat] count
    using room(2) by (simp add: wr_bytes_at_0 msg_def frame_def)
  show ?thesis
    unfolding publish_message_build_def publish_type_with_flags_eq [OF qos] f [symmetric]
    using nonzero guards enc fits written by (simp add: Let_def pos)
qed

section \<open>The parser on such a message\<close>

lemma publish_flags_decode:
  assumes "q < MQTT_QOS_MAX"
  shows "publish_flags d q r AND MESSAGE_TYPE_MASK = message_type_encode MQTT_MESSAGE_TYPE_PUBLISH"
    and "publish_flags d q r AND push_bit PUBLISH_FLAG_INDEX_DUP 1 \<noteq> 0 \<longleftrightarrow> d"
    and "publish_flags d q r AND push_bit PUBLISH_FLAG_INDEX_RETAIN 1 \<noteq> 0 \<longleftrightarrow> r"
    and "publish_flags d q r AND push_bit PUBLISH_FLAG_INDEX_QOS_LOW 1 \<noteq> 0 \<longleftrightarrow> q = 1"
    and "publish_flags d q r AND push_bit PUBLISH_FLAG_INDEX_QOS_HIGH 1 \<noteq> 0 \<longleftrightarrow> q = 2"
  using qos_cases [OF assms]
  by (cases d; cases r; auto simp: publish_flags_def message_type_encode_table)+

lemma publish_parse_body_eq:
  assumes len: "length topic < 65536" and small: "length body < 268435456"
    and body: "body = publish_body topic (if pub_qos out = 0 then None else Some i) payload"
    and n: "unat n = length (varint (length body)) + length body"
  shows "publish_parse_body (varint (length body) @ body @ rest) n out =
     Inr (MQTT_SUCCESS, out\<lparr>pub_topic := Some (topic @ (if pub_qos out = 0 then [] else be16 i) @ payload @ rest),
       pub_topic_len := of_nat (length topic), pub_packet_id := (if pub_qos out = 0 then 0 else i),
       pub_payload := Some (payload @ rest), pub_payload_len := of_nat (length payload)\<rparr>)"
proof -
  let ?v = "length (varint (length body))"
  have vlen: "?v \<le> 4" using small by (simp add: length_varint_4)
  have vnat: "unat (of_nat ?v :: u32) = ?v"
    by (rule unat_u32_of_nat) (use vlen in linarith)
  have dec: "remain_length_decode (varint (length body) @ body @ rest) n =
      Inr (MQTT_SUCCESS, of_nat ?v, of_nat (length body))"
    using small by (intro remain_length_decode_varint) (simp_all add: n)
  have "unat (of_nat ?v + of_nat (length body) :: u32) = ?v + length body"
    using vlen small by (simp add: unat_word_ariths vnat unat_u32_of_nat)
  then have nw: "n = of_nat ?v + of_nat (length body)"
    using n by (simp add: word_eq_iff_unsigned [where ?'a = nat])
  have left: "n - of_nat ?v = of_nat (length body)" by (simp add: nw)
  have tl: "unat (of_nat (length topic) :: u16) = length topic"
    using len by (rule unat_u16_of_nat)
  have tlw: "ucast (of_nat (length topic) :: u16) = (of_nat (length topic) :: u32)"
    by (simp add: word_eq_iff_unsigned [where ?'a = nat] unat_ucast_u16_u32 tl unat_u32_of_nat len less_trans [OF len])
  have pos: "0 < pub_qos out \<longleftrightarrow> pub_qos out \<noteq> 0" by (simp add: word_greater_zero_iff)
  note run = publish_parse_body_def dec left vnat adv_append Let_def tlw tl pos locate_string_field_of
    rd_u16_be16 body publish_body_def field_def
  have topic_part: "adv (be16 (of_nat (length topic)) @ topic @ q) (length topic + 2) = Inr q" for q
    by (simp add: adv_def)
  show ?thesis
  proof (cases "pub_qos out = 0")
    case True
    with topic_part [of "payload @ rest"] show ?thesis
      by (simp add: publish_parse_body_def dec left vnat adv_append) (simp add: run)
  next
    case False
    with topic_part [of "be16 i @ payload @ rest"] show ?thesis
      by (simp add: publish_parse_body_def dec left vnat adv_append) (simp add: run)
  qed
qed

lemma publish_message_parse_flags:
  assumes q: "q < MQTT_QOS_MAX" and n: "n \<noteq> 0"
  shows "publish_message_parse (Some (publish_flags d q r # p)) n (Some out) =
     fbind (publish_parse_body p (n - 1)
              (out\<lparr>pub_dup := if d then 1 else 0, pub_retain := if r then 1 else 0, pub_qos := q\<rparr>))
       (\<lambda>(ret, out). Inr (ret, Some out))"
proof -
  have qos: "(if q = 2 then 2 else if q = 1 then 1 else 0) = q" using qos_cases [OF q] by auto
  have clash: "(q = 1 \<and> q = (2 :: u8)) = False" by auto
  show ?thesis
    by (simp only: publish_message_parse_def prod.case option.case rd_0 list.case fbind.simps
        publish_flags_decode [OF q] Let_def n qos clash if_False simp_thms adv_1_Cons)
qed

lemma publish_message_parse_frame:
  fixes topic payload rest :: "u8 list" and out :: publish_out
  defines "body q i \<equiv> publish_body topic (if q = 0 then None else Some i) payload"
  assumes len: "length topic < 65536" and small: "length (body q i) < 268435456" and q: "q < MQTT_QOS_MAX"
    and m: "m = frame (publish_flags d q r) (body q i)"
  shows "publish_message_parse (Some (m @ rest)) (of_nat (length m)) (Some out) =
     Inr (MQTT_SUCCESS, Some \<lparr>pub_dup = (if d then 1 else 0), pub_qos = q, pub_retain = (if r then 1 else 0),
       pub_topic = Some (topic @ (if q = 0 then [] else be16 i) @ payload @ rest),
       pub_topic_len = of_nat (length topic), pub_packet_id = (if q = 0 then 0 else i),
       pub_payload = Some (payload @ rest), pub_payload_len = of_nat (length payload)\<rparr>)"
proof -
  let ?b = "body q i"
  let ?n = "length (varint (length ?b)) + length ?b"
  have vlen: "length (varint (length ?b)) \<le> 4" using small by (simp add: length_varint_4)
  have n: "unat (of_nat ?n :: u32) = ?n"
    by (rule unat_u32_of_nat) (use vlen small in linarith)
  have nonzero: "(of_nat (length m) :: u32) \<noteq> 0"
  proof -
    have "unat (of_nat (length m) :: u32) = Suc ?n"
      unfolding m by (subst unat_u32_of_nat) (use vlen small in \<open>simp_all add: frame_def\<close>)
    then show ?thesis by auto
  qed
  have minus: "(of_nat (length m) :: u32) - 1 = of_nat ?n" by (simp add: m frame_def)
  let ?out = "out\<lparr>pub_dup := if d then 1 else 0, pub_retain := if r then 1 else 0, pub_qos := q\<rparr>"
  have body: "publish_parse_body (varint (length ?b) @ ?b @ rest) (of_nat ?n) ?out =
     Inr (MQTT_SUCCESS, ?out\<lparr>pub_topic := Some (topic @ (if q = 0 then [] else be16 i) @ payload @ rest),
       pub_topic_len := of_nat (length topic), pub_packet_id := (if q = 0 then 0 else i),
       pub_payload := Some (payload @ rest), pub_payload_len := of_nat (length payload)\<rparr>)"
    using publish_parse_body_eq [OF len small, of ?out i payload "of_nat ?n" rest] n by (simp add: body_def)
  have cons: "m @ rest = publish_flags d q r # varint (length ?b) @ ?b @ rest" by (simp add: m frame_def)
  show ?thesis
    unfolding cons publish_message_parse_flags [OF q nonzero] minus body by simp
qed

text \<open>
  C5. A PUBLISH message survives its round trip. For every topic that is not empty, quality of
  service, flags, packet identifier and payload whose body is shorter than 65536 bytes, and for
  every buffer that is large enough, the builder succeeds, touches only the bytes of the message,
  stores its length, and the parser, applied to these bytes with anything behind them, gives back
  the flags, the topic, the packet identifier (0 for quality of service 0) and the payload.
\<close>

theorem publish_roundtrip:
  fixes topic payload buf rest :: "u8 list" and i :: u16 and out :: publish_out
  assumes "unat topic_len = length topic" and "topic \<noteq> []" and "qos < MQTT_QOS_MAX"
    and "qos \<noteq> 0 \<longrightarrow> pid = Some i" and "unat payload_len = length payload"
    and "length (publish_body topic (if qos = 0 then None else Some i) payload) < 65536"
    and "m = frame (publish_flags (dup \<noteq> 0) qos (retain \<noteq> 0)) (publish_body topic (if qos = 0 then None else Some i) payload)"
    and "length m \<le> unat n" and "length m \<le> length buf"
  shows "publish_message_build dup qos retain (Some topic) topic_len pid (Some payload) payload_len (Some buf) (Some n) =
           Inr (MQTT_SUCCESS, Some (m @ drop (length m) buf), Some (of_nat (length m)),
                if qos = 0 then pid else Some (htons i)) \<and>
         publish_message_parse (Some (m @ rest)) (of_nat (length m)) (Some out) =
           Inr (MQTT_SUCCESS, Some \<lparr>pub_dup = (if dup \<noteq> 0 then 1 else 0), pub_qos = qos,
             pub_retain = (if retain \<noteq> 0 then 1 else 0),
             pub_topic = Some (topic @ (if qos = 0 then [] else be16 i) @ payload @ rest),
             pub_topic_len = topic_len, pub_packet_id = (if qos = 0 then 0 else i),
             pub_payload = Some (payload @ rest), pub_payload_len = payload_len\<rparr>)"
proof -
  have t: "length topic < 65536" using assms(1) unat_u16_lt [of topic_len] by simp
  have w: "of_nat (length topic) = topic_len" "of_nat (length payload) = payload_len"
    by (simp_all add: assms(1) [symmetric] assms(5) [symmetric])
  have small: "length (publish_body topic (if qos = 0 then None else Some i) payload) < 268435456"
    using assms(6) by linarith
  from publish_message_build_ok [OF assms(1-6) refl] publish_message_parse_frame [OF t small assms(3,7), of rest out]
  show ?thesis using assms(7-9) by (simp add: w)
qed

theorem publish_roundtrip_witness:
  "publish_message_build 0 1 1 (Some [116]) 1 (Some 7) (Some [72, 105]) 2 (Some (replicate 20 0)) (Some 20) =
     Inr (MQTT_SUCCESS, Some ([0x33, 7, 0, 1, 116, 0, 7, 72, 105] @ drop 9 (replicate 20 0)), Some 9, Some (htons 7)) \<and>
   publish_message_parse (Some [0x33, 7, 0, 1, 116, 0, 7, 72, 105]) 9 (Some \<lparr>pub_dup = 9, pub_qos = 9, pub_retain = 9, pub_topic = None, pub_topic_len = 9,
       pub_packet_id = 9, pub_payload = None, pub_payload_len = 9\<rparr>) =
     Inr (MQTT_SUCCESS, Some \<lparr>pub_dup = 0, pub_qos = 1, pub_retain = 1, pub_topic = Some [116, 0, 7, 72, 105],
       pub_topic_len = 1, pub_packet_id = 7, pub_payload = Some [72, 105], pub_payload_len = 2\<rparr>)"
proof -
  let ?b = "publish_body [116] (Some 7) [72, 105]"
  have b: "?b = [0, 1, 116, 0, 7, 72, 105]"
    by (simp add: publish_body_def field_def be16_def)
  have m: "frame (publish_flags False 1 True) [0, 1, 116, 0, 7, 72, 105] = [0x33, 7, 0, 1, 116, 0, 7, 72, 105]"
    by (simp add: frame_def varint_small publish_flags_def)
  show ?thesis
    using publish_roundtrip [of 1 "[116]" 1 "Some 7" 7 2 "[72, 105]" "[0x33, 7, 0, 1, 116, 0, 7, 72, 105]" 0 1 20
        "replicate 20 0" "[]" "\<lparr>pub_dup = 9, pub_qos = 9, pub_retain = 9, pub_topic = None, pub_topic_len = 9,
          pub_packet_id = 9, pub_payload = None, pub_payload_len = 9\<rparr>"]
    by (simp add: b m be16_def)
qed

text \<open>
  C38. The 16-bit remaining length wraps. When the body has 65536 bytes or more, the builder
  compares the caller's buffer with the body length modulo 65536; every buffer that passes this
  comparison and is shorter than the message is written beyond its end.
\<close>

theorem publish_length_wraps:
  fixes topic payload buf :: "u8 list" and i :: u16
  assumes "unat topic_len = length topic" and "topic \<noteq> []" and "qos < MQTT_QOS_MAX"
    and "qos \<noteq> 0 \<longrightarrow> pid = Some i" and "unat payload_len = length payload"
    and "body_len = length (publish_body topic (if qos = 0 then None else Some i) payload)" and "65536 \<le> body_len"
    and "1 + length (varint (body_len mod 65536)) + body_len mod 65536 \<le> unat n"
    and "length buf < 1 + length (varint (body_len mod 65536)) + body_len"
  shows "unat (publish_remain_len qos topic_len payload_len) = body_len mod 65536 \<and>
         publish_message_build dup qos retain (Some topic) topic_len pid (Some payload) payload_len (Some buf) (Some n) =
           Inl Out_Of_Bounds"
proof -
  let ?r = "publish_remain_len qos topic_len payload_len"
  let ?v = "length (varint (body_len mod 65536))"
  have len: "unat ?r = body_len mod 65536"
    unfolding unat_publish_remain_len assms(1,5,6) length_publish_body by simp
  have lt: "body_len mod 65536 < 268435456" by (rule less_trans [of _ 65536]) simp_all
  then have vlen: "?v \<le> 4" by (simp add: length_varint_4)
  have enc: "remain_length_encode (ucast ?r) (replicate 4 0) 0 =
      Inr (MQTT_SUCCESS, varint (body_len mod 65536) @ drop ?v (replicate 4 0), of_nat ?v)"
    using remain_length_encode_local [of "ucast ?r"] lt by (simp add: unat_ucast_u16_u32 len)
  have vnat: "unat (of_nat ?v :: u32) = ?v"
    by (rule unat_u32_of_nat) (use vlen in linarith)
  have "body_len mod 65536 < 65536" by simp
  then have "unat (1 + of_nat ?v + ucast ?r :: u32) = 1 + ?v + body_len mod 65536"
    using vlen by (simp add: unat_word_ariths vnat unat_ucast_u16_u32 len del: mod_less_divisor)
  then have fits: "\<not> n < 1 + of_nat ?v + ucast ?r"
    using assms(8) by (simp add: word_less_nat_alt)
  have nonzero: "topic_len \<noteq> 0" using assms(1,2) by auto
  have pos: "0 < qos \<longleftrightarrow> qos \<noteq> 0" by (simp add: word_greater_zero_iff)
  have guards: "\<not> MQTT_QOS_MAX \<le> qos" "qos = 0 \<or> pid \<noteq> None" using assms(3,4) by auto
  have short: "length buf < length (f # varint (body_len mod 65536) @
      publish_body topic (if qos = 0 then None else Some i) payload)" for f :: u8
    using assms(6,9) by simp
  have written: "publish_write_message f (varint (body_len mod 65536) @ drop ?v (replicate 4 0)) (of_nat ?v) qos
      (Some topic) topic_len pid (Some payload) payload_len buf = Inl Out_Of_Bounds" for f
    unfolding publish_write_message_eq [OF assms(1,4,5) vnat] using short [of f] by (simp add: wr_bytes_def)
  show ?thesis
    using nonzero guards enc fits written len by (simp add: publish_message_build_def Let_def pos)
qed

theorem publish_length_wraps_witness:
  "unat (publish_remain_len 0 1 65533) = 65536 mod 65536 \<and>
   publish_message_build 0 0 0 (Some [116]) 1 None (Some (replicate 65533 0)) 65533 (Some (replicate 10 0)) (Some 10) =
     Inl Out_Of_Bounds"
proof (rule publish_length_wraps)
  show "65536 = length (publish_body [116] (if (0 :: u8) = 0 then None else Some 0) (replicate 65533 0))"
    by (simp add: length_publish_body)
qed (simp_all add: varint_small)

text \<open>
  The parser does not check that the encoded remaining length lies inside the message. On a
  message of one byte, the type byte alone, it takes the next byte of the buffer for the
  remaining length; the number of bytes left over wraps below 0, so that the check against the
  remaining length passes and the caller is told of a payload of \<open>2\<^sup>3\<^sup>2 - 3\<close> bytes.
\<close>

theorem publish_one_byte_message_accepted:
  "publish_message_parse (Some (0x30 # b # 0 # 0 # rest)) 1 (Some out) =
     Inr (MQTT_SUCCESS, Some (out\<lparr>pub_dup := 0, pub_qos := 0, pub_retain := 0, pub_topic := Some rest,
       pub_topic_len := 0, pub_packet_id := 0, pub_payload := Some rest, pub_payload_len := 4294967293\<rparr>))"
proof -
  have flags: "0x30 = publish_flags False 0 False" by (simp add: publish_flags_def)
  have zero: "u16_of_mem 0 0 = 0" by (simp add: u16_of_mem_def)
  have body: "publish_parse_body (b # 0 # 0 # rest) 0 o1 = Inr (MQTT_SUCCESS,
      o1\<lparr>pub_topic := Some rest, pub_topic_len := 0, pub_packet_id := 0,
         pub_payload := Some rest, pub_payload_len := 4294967293\<rparr>)"
    if "pub_qos o1 = 0" for o1
    using that zero
    by (simp add: publish_parse_body_def remain_length_decode_none adv_def locate_string_eq Let_def)
  show ?thesis
    unfolding flags by (subst publish_message_parse_flags) (simp_all add: body)
qed

end
