(* ===== verification/Msg_Subscribe.thy ===== *)
theory Msg_Subscribe
  imports Message Memory
begin

text \<open>
  message/msg_subscribe.c: a list of topic filters in one message. The lists are the linked
  lists of \<^verbatim>\<open>topic_filter_t\<close> in the heap. SUBSCRIBE and UNSUBSCRIBE
  (message/msg_unsubscribe.c) are the same code but for the type byte and the byte with the
  quality of service behind each filter, so builder and parser are written once with these two
  as parameters.
\<close>

section \<open>Building\<close>

text \<open>What a filter adds to the length; the sums are computed modulo \<open>2\<^sup>3\<^sup>2\<close>.\<close>

definition filter_cost :: "bool \<Rightarrow> topic_filter_t \<Rightarrow> u32" where
  "filter_cost with_qos f = ucast (tf_len f) + 2 + (if with_qos then 1 else 0)"

definition filter_len_loop :: "bool \<Rightarrow> heap \<Rightarrow> link \<Rightarrow> u32 \<Rightarrow> u32 outcome" where
  "filter_len_loop with_qos h =
     list_loop (\<lambda>cur n. fbind (load_filter cur h) (\<lambda>f. Inr (Go (tf_next f) (n + filter_cost with_qos f)))) Inr"

definition subscribe_message_len_calc :: "link \<Rightarrow> u32 option \<Rightarrow> heap \<Rightarrow> (mqtt_ret \<times> u32 option) outcome" where
  "subscribe_message_len_calc filter_list message_len h =
     (if filter_list = NULL \<or> message_len = None then Some (Inr (MQTT_INVALID_PARAM, message_len))
      else obind (filter_len_loop True h filter_list (1 + 4 + 2)) (\<lambda>n. Some (Inr (MQTT_SUCCESS, Some n))))"

text \<open>The state of the writing loop is the buffer, the place of \<^verbatim>\<open>message\<close> in it and \<open>*message_len\<close>.\<close>

definition filter_write_body ::
  "bool \<Rightarrow> heap \<Rightarrow> u32 \<Rightarrow> link \<Rightarrow> u8 list \<times> nat \<times> u32 \<Rightarrow>
   (u8 list \<times> nat \<times> u32, mqtt_ret \<times> u8 list \<times> u32) ctl res" where
  "filter_write_body with_qos h field_len cur = (\<lambda>(message, pos, message_len).
     fbind (load_filter cur h) (\<lambda>f.
     fbind (put_string (tf_topic f) (tf_len f) message pos field_len) (\<lambda>(ret, message, field_len).
     if ret \<noteq> MQTT_SUCCESS then Inr (Return (ret, message, message_len))
     else let pos = pos + unat field_len; message_len = message_len + field_len
     in if with_qos
        then fbind (wr_bytes message pos [tf_qos f AND 3]) (\<lambda>message.
             Inr (Go (tf_next f) (message, pos + 1, message_len + 1)))
        else Inr (Go (tf_next f) (message, pos, message_len)))))"

definition filter_write_message ::
  "bool \<Rightarrow> heap \<Rightarrow> u8 \<Rightarrow> u8 list \<Rightarrow> u32 \<Rightarrow> u16 \<Rightarrow> link \<Rightarrow> u8 list \<Rightarrow> (mqtt_ret \<times> u8 list \<times> u32) outcome" where
  "filter_write_message with_qos h type_byte buffer field_len packet_id filter_list message =
     obind (Some (fbind (wr_bytes message 0 [type_byte]) (\<lambda>message.
                  fbind (rd_bytes buffer (unat field_len)) (\<lambda>encoded.
                  fbind (wr_bytes message 1 encoded) (\<lambda>message.
                  fbind (wr_bytes message (1 + unat field_len) (mem_of_u16 (htons packet_id))) (\<lambda>message.
                  Inr (message, 1 + unat field_len + 2, 1 + field_len + 2)))))))
       (list_loop (filter_write_body with_qos h field_len)
          (\<lambda>(message, pos, message_len). Inr (MQTT_SUCCESS, message, message_len)) filter_list)"

definition filter_message_build ::
  "mqtt_message_type \<Rightarrow> bool \<Rightarrow> u16 \<Rightarrow> link \<Rightarrow> u8 list option \<Rightarrow> u32 option \<Rightarrow> heap \<Rightarrow>
   (mqtt_ret \<times> u8 list option \<times> u32 option) outcome" where
  "filter_message_build type with_qos packet_id filter_list message message_len h =
     (case (message, message_len) of
        (Some buf, Some len) \<Rightarrow>
          if filter_list = NULL then Some (Inr (MQTT_INVALID_PARAM, message, message_len))
          else obind (filter_len_loop with_qos h filter_list 2) (\<lambda>remain_len.
               obind (Some (remain_length_encode remain_len (replicate 4 0) 0)) (\<lambda>(ret, buffer, field_len).
               if ret \<noteq> MQTT_SUCCESS then Some (Inr (ret, message, message_len))
               else if len < field_len + remain_len + 1 then Some (Inr (MQTT_INVALID_PARAM, message, message_len))
               else obind (filter_write_message with_qos h (message_type_encode type) buffer field_len
                             packet_id filter_list buf)
                      (\<lambda>(ret, buf, len). Some (Inr (ret, Some buf, Some len)))))
      | _ \<Rightarrow> Some (Inr (MQTT_INVALID_PARAM, message, message_len)))"

definition subscribe_message_build ::
  "u16 \<Rightarrow> link \<Rightarrow> u8 list option \<Rightarrow> u32 option \<Rightarrow> heap \<Rightarrow> (mqtt_ret \<times> u8 list option \<times> u32 option) outcome" where
  "subscribe_message_build = filter_message_build MQTT_MESSAGE_TYPE_SUBSCRIBE True"

section \<open>Releasing a list\<close>

text \<open>Every round releases a live node, so the loop ends, on any heap.\<close>

function topic_filter_release_loop :: "link \<Rightarrow> heap \<Rightarrow> heap res" where
  "topic_filter_release_loop head h =
     (if head = NULL then Inr h
      else case load_filter head h of
        Inl e \<Rightarrow> Inl e
      | Inr f \<Rightarrow> (case free head h of
          Inl e \<Rightarrow> Inl e
        | Inr h' \<Rightarrow> topic_filter_release_loop (tf_next f) h'))"
  by pat_completeness auto
termination
  by (relation "measure (\<lambda>(_, h). length (cells h))")
    (auto simp: free_def load_filter_eq_Inr length_delete_less split: link.splits option.splits)

declare topic_filter_release_loop.simps [simp del]

definition topic_filter_release :: "link \<Rightarrow> heap \<Rightarrow> (mqtt_ret \<times> heap) res" where
  "topic_filter_release head h = fbind (topic_filter_release_loop head h) (\<lambda>h. Inr (MQTT_SUCCESS, h))"

section \<open>Parsing\<close>

text \<open>A node fresh from \<^verbatim>\<open>malloc\<close>, and one cleared by \<^verbatim>\<open>memset\<close>.\<close>

definition fresh_filter :: topic_filter_t where
  "fresh_filter = \<lparr>tf_topic = None, tf_len = 0, tf_qos = 0, tf_next = Indeterminate\<rparr>"

definition zero_filter :: topic_filter_t where
  "zero_filter = \<lparr>tf_topic = None, tf_len = 0, tf_qos = 0, tf_next = NULL\<rparr>"

text \<open>
  The loop over the filters of a message. It ends with \<open>None\<close>, or jumps to
  \<^verbatim>\<open>_exit\<close> with \<open>Some ret\<close>. Its steps on the node \<^verbatim>\<open>cur\<close>
  that is filled before it is linked in are on the local \<open>f\<close>, and reach the heap with
  \<^verbatim>\<open>pre->next = cur\<close>; on the error paths the node is released.
\<close>

function filter_parse_loop :: "bool \<Rightarrow> u8 list \<Rightarrow> u32 \<Rightarrow> link \<Rightarrow> heap \<Rightarrow> (mqtt_ret option \<times> heap) res" where
  "filter_parse_loop with_qos message message_len pre h =
     (if message_len = 0 then Inr (None, h)
      else let (cur, h) = malloc (Filter zero_filter) h
      in if cur = NULL then Inr (Some MQTT_MEMORY_NOBUFFER, h)
      else fbind (locate_string message message_len) (\<lambda>(ret, topic, len).
        if ret \<noteq> MQTT_SUCCESS then fbind (free cur h) (\<lambda>h. Inr (Some ret, h))
        else case adv message (unat len + 2) of
          Inl e \<Rightarrow> Inl e
        | Inr message \<Rightarrow>
            let message_len = message_len - (ucast len + 2);
                f = zero_filter\<lparr>tf_topic := topic, tf_len := len\<rparr>
            in if with_qos
               then (case message of
                   [] \<Rightarrow> Inl Out_Of_Bounds
                 | qos # message \<Rightarrow>
                     if MQTT_QOS_2 < qos
                     then fbind (free cur h) (\<lambda>h. Inr (Some MQTT_SUBSCRIBE_MESSAGE_ERROR, h))
                     else fbind (store cur (Filter (f\<lparr>tf_qos := qos, tf_next := NULL\<rparr>)) h) (\<lambda>h.
                          fbind (load_filter pre h) (\<lambda>g.
                          fbind (store pre (Filter (g\<lparr>tf_next := cur\<rparr>)) h) (\<lambda>h.
                          filter_parse_loop with_qos message (message_len - 1) cur h))))
               else fbind (store cur (Filter (f\<lparr>tf_next := NULL\<rparr>)) h) (\<lambda>h.
                    fbind (load_filter pre h) (\<lambda>g.
                    fbind (store pre (Filter (g\<lparr>tf_next := cur\<rparr>)) h) (\<lambda>h.
                    filter_parse_loop with_qos message message_len cur h)))))"
  by pat_completeness auto
termination
  by (relation "measure (\<lambda>(_, m, _). length m)") (auto simp: adv_def dest: drop_Cons_shorter split: if_splits)

declare filter_parse_loop.simps [simp del]

definition filter_parse_list :: "bool \<Rightarrow> u8 list \<Rightarrow> u32 \<Rightarrow> heap \<Rightarrow> (mqtt_ret \<times> link \<times> heap) res" where
  "filter_parse_list with_qos message message_len h =
     (let (head, h) = malloc (Filter fresh_filter) h
      in if head = NULL then Inr (MQTT_MEMORY_NOBUFFER, NULL, h)
      else fbind (filter_parse_loop with_qos message message_len head h) (\<lambda>(exit, h).
        case exit of
          None \<Rightarrow> fbind (load_filter head h) (\<lambda>f. fbind (free head h) (\<lambda>h. Inr (MQTT_SUCCESS, tf_next f, h)))
        | Some ret \<Rightarrow> fbind (topic_filter_release_loop head h) (\<lambda>h. Inr (ret, head, h))))"

definition filter_message_parse ::
  "mqtt_message_type \<Rightarrow> bool \<Rightarrow> u8 list option \<Rightarrow> u32 \<Rightarrow> u16 option \<Rightarrow> link option \<Rightarrow> heap \<Rightarrow>
   (mqtt_ret \<times> u16 option \<times> link option \<times> heap) res" where
  "filter_message_parse type with_qos message message_len packet_id filter_list h =
     (case (message, packet_id, filter_list) of
        (Some p, Some _, Some _) \<Rightarrow>
          if message_len = 0 then Inr (MQTT_INVALID_PARAM, packet_id, filter_list, h)
          else fbind (rd p 0) (\<lambda>b.
          if b \<noteq> message_type_encode type then Inr (MQTT_MESSAGE_TYPE_ERROR, packet_id, filter_list, h)
          else fbind (adv p 1) (\<lambda>p. let message_len = message_len - 1
          in fbind (remain_length_decode p message_len) (\<lambda>(ret, field_len, remain_len).
          if ret \<noteq> MQTT_SUCCESS then Inr (ret, packet_id, filter_list, h)
          else fbind (adv p (unat field_len)) (\<lambda>p. let message_len = message_len - field_len
          in if remain_len \<noteq> message_len then Inr (MQTT_SUBSCRIBE_MESSAGE_ERROR, packet_id, filter_list, h)
          else fbind (rd_u16 p) (\<lambda>raw. fbind (adv p 2) (\<lambda>p.
               fbind (filter_parse_list with_qos p (message_len - 2) h) (\<lambda>(ret, list, h).
               Inr (ret, Some (ntohs raw), Some list, h))))))))
      | _ \<Rightarrow> Inr (MQTT_INVALID_PARAM, packet_id, filter_list, h))"

definition subscribe_message_parse ::
  "u8 list option \<Rightarrow> u32 \<Rightarrow> u16 option \<Rightarrow> link option \<Rightarrow> heap \<Rightarrow>
   (mqtt_ret \<times> u16 option \<times> link option \<times> heap) res" where
  "subscribe_message_parse = filter_message_parse MQTT_MESSAGE_TYPE_SUBSCRIBE True"

section \<open>What the builder writes\<close>

text \<open>
  A filter is complete when its topic has at least the bytes its length says. \<open>filter_entry\<close>
  are its bytes in the message.
\<close>

definition filter_complete :: "topic_filter_t \<Rightarrow> bool" where
  "filter_complete f \<longleftrightarrow> (case tf_topic f of None \<Rightarrow> False | Some t \<Rightarrow> unat (tf_len f) \<le> length t)"

definition filter_entry :: "bool \<Rightarrow> topic_filter_t \<Rightarrow> u8 list" where
  "filter_entry with_qos f = string_field (tf_len f) (the (tf_topic f)) @ (if with_qos then [tf_qos f AND 3] else [])"

definition filter_body :: "bool \<Rightarrow> u16 \<Rightarrow> topic_filter_t list \<Rightarrow> u8 list" where
  "filter_body with_qos packet_id fs = be16 packet_id @ concat (map (filter_entry with_qos) fs)"

lemma unat_filter_cost: "unat (filter_cost q f) = unat (tf_len f) + (if q then 3 else 2)"
  using unat_u16_lt [of "tf_len f"]
  by (simp add: filter_cost_def unat_word_ariths unat_ucast_u16_u32 del: unat_u16_lt)

lemma length_filter_entry: "filter_complete f \<Longrightarrow> length (filter_entry q f) = unat (filter_cost q f)"
  by (auto simp: filter_complete_def filter_entry_def unat_filter_cost length_string_field split: option.splits)

lemma length_filter_entries:
  "list_all filter_complete fs \<Longrightarrow>
   length (concat (map (filter_entry q) fs)) = sum_list (map (\<lambda>f. unat (filter_cost q f)) fs)"
  by (induction fs) (auto simp: length_filter_entry)

lemma length_filter_body:
  "list_all filter_complete fs \<Longrightarrow>
   length (filter_body q packet_id fs) = 2 + sum_list (map (\<lambda>f. unat (filter_cost q f)) fs)"
  unfolding filter_body_def length_append length_filter_entries by simp

lemma unat_sum_list_u32:
  "unat n + sum_list (map (\<lambda>x. unat (c x :: u32)) xs) < 4294967296 \<Longrightarrow>
   unat (n + sum_list (map c xs)) = unat n + sum_list (map (\<lambda>x. unat (c x)) xs)"
proof (induction xs arbitrary: n)
  case Nil
  then show ?case by simp
next
  case (Cons x xs)
  then have step: "unat (n + c x) = unat n + unat (c x)" by (intro unat_u32_add) simp
  with Cons.prems have "unat (n + c x + sum_list (map c xs)) = unat (n + c x) + sum_list (map (\<lambda>x. unat (c x)) xs)"
    by (intro Cons.IH) simp
  with step show ?case by (simp add: add.assoc)
qed

lemma filter_len_loop_linked:
  assumes "linked load_filter tf_next h p fs"
  shows "filter_len_loop q h p n = Some (Inr (n + sum_list (map (filter_cost q) fs)))"
proof -
  have "fold (\<lambda>f n. n + filter_cost q f) fs n = n + sum_list (map (filter_cost q) fs)"
    by (induction fs arbitrary: n) (simp_all add: add.assoc)
  then show ?thesis
    unfolding filter_len_loop_def
    by (subst list_loop_linked [OF assms, where g = "\<lambda>f n. Inr (n + filter_cost q f)"])
      (simp_all add: fold_res_Inr)
qed

lemma filter_write_body_eq:
  assumes "filter_complete f" and "load_filter cur h = Inr f"
  shows "filter_write_body q h l cur (b, pos, n) =
     fbind (wr_bytes b pos (filter_entry q f))
       (\<lambda>b. Inr (Go (tf_next f) (b, pos + unat (filter_cost q f), n + filter_cost q f)))"
proof -
  from assms(1) obtain t where t: "tf_topic f = Some t" "unat (tf_len f) \<le> length t"
    by (auto simp: filter_complete_def split: option.splits)
  have cost: "unat (ucast (tf_len f) + 2 :: u32) = unat (tf_len f) + 2"
    using unat_filter_cost [of False f] by (simp add: filter_cost_def)
  have n: "n + filter_cost r f = (if r then n + (ucast (tf_len f) + 2) + 1 else n + (ucast (tf_len f) + 2))" for r
    by (simp add: filter_cost_def add.assoc)
  show ?thesis
    using t(2)
    by (cases q) (simp_all add: filter_write_body_def assms(2) t put_string_eq fbind_assoc filter_entry_def cost
        Let_def unat_filter_cost wr_bytes_append length_string_field n add.left_commute [of 3 pos] add.commute [of _ 3] del: add_2_eq_Suc')
qed

lemma filter_write_message_linked:
  assumes fs: "linked load_filter tf_next h p fs" "list_all filter_complete fs"
    and enc: "unat n = length enc"
  shows "filter_write_message q h type (enc @ tail) n packet_id p buf =
     Some (fbind (wr_bytes buf 0 (type # enc @ filter_body q packet_id fs))
       (\<lambda>b. Inr (MQTT_SUCCESS, b, 1 + n + 2 + sum_list (map (filter_cost q) fs))))"
proof -
  let ?g = "\<lambda>f (b, pos, n). fbind (wr_bytes b pos (filter_entry q f))
              (\<lambda>b. Inr (b, pos + unat (filter_cost q f), n + filter_cost q f))"
  let ?fin = "\<lambda>(b, pos, len :: u32). Inr (MQTT_SUCCESS, b, len)"
  have loop: "list_loop (filter_write_body q h n) ?fin p s = Some (fbind (fold_res ?g fs s) ?fin)" for s
    by (rule list_loop_linked [OF fs(1)])
      (use fs(2) in \<open>auto simp: filter_write_body_eq fbind_assoc list_all_iff split: prod.split\<close>)
  have costs: "unat (filter_cost q f) = length (filter_entry q f)" if "f \<in> set fs" for f
    using that fs(2) by (simp add: length_filter_entry list_all_iff)
  have "fbind (wr_bytes buf 0 (type # enc @ be16 packet_id)) (\<lambda>b.
      fold_res ?g fs (b, 1 + unat n + 2, 1 + n + 2)) =
    fbind (wr_bytes buf 0 ((type # enc @ be16 packet_id) @ concat (map (filter_entry q) fs)))
      (\<lambda>b. Inr (b, 1 + unat n + 2 + length (concat (map (filter_entry q) fs)), 1 + n + 2 + sum_list (map (filter_cost q) fs)))"
    by (rule fold_res_write) (use costs in \<open>simp_all add: enc\<close>)
  from arg_cong [OF this, of "\<lambda>m. Some (fbind m ?fin)"]
  have writes: "Some (fbind (wr_bytes buf 0 (type # enc @ be16 packet_id)) (\<lambda>b.
      fbind (fold_res ?g fs (b, 1 + unat n + 2, 1 + n + 2)) ?fin)) =
    Some (fbind (wr_bytes buf 0 (type # enc @ filter_body q packet_id fs))
      (\<lambda>b. Inr (MQTT_SUCCESS, b, 1 + n + 2 + sum_list (map (filter_cost q) fs))))"
    by (simp add: fbind_assoc filter_body_def)
  show ?thesis
    unfolding filter_write_message_def loop obind_Some_fbind writes [symmetric]
    by (simp add: fbind_assoc rd_bytes_append enc wr_bytes_seq mem_of_u16_htons split: prod.split)
qed

lemma filter_message_build_linked:
  fixes fs :: "topic_filter_t list" and packet_id :: u16
  defines "msg t q \<equiv> frame (message_type_encode t) (filter_body q packet_id fs)"
  assumes fs: "linked load_filter tf_next h p fs" "p \<noteq> NULL" "list_all filter_complete fs"
    and short: "length (filter_body q packet_id fs) < 268435456"
    and room: "length (msg t q) \<le> unat n" "length (msg t q) \<le> length buf"
  shows "filter_message_build t q packet_id p (Some buf) (Some n) h =
     Some (Inr (MQTT_SUCCESS, Some (msg t q @ drop (length (msg t q)) buf), Some (of_nat (length (msg t q)))))"
proof -
  let ?b = "filter_body q packet_id fs"
  let ?r = "2 + sum_list (map (filter_cost q) fs) :: u32"
  let ?v = "length (varint (length ?b))"
  have blen: "length ?b = 2 + sum_list (map (\<lambda>f. unat (filter_cost q f)) fs)"
    by (rule length_filter_body [OF fs(3)])
  have len: "unat ?r = length ?b"
    using unat_sum_list_u32 [of 2 "filter_cost q" fs] short by (simp add: blen)
  have vlen: "?v \<le> 4" using short by (simp add: length_varint_4)
  have vnat: "unat (of_nat ?v :: u32) = ?v" by (rule unat_u32_of_nat) (use vlen in linarith)
  have enc: "remain_length_encode ?r (replicate 4 0) 0 =
      Inr (MQTT_SUCCESS, varint (length ?b) @ drop ?v (replicate 4 0), of_nat ?v)"
    using short vlen by (simp add: remain_length_encode_eq len wr_bytes_at_0)
  have total: "unat (of_nat ?v + ?r + 1) = length (msg t q)"
    using vlen short by (subst unat_u32_add; subst unat_u32_add) (simp_all add: vnat len frame_def msg_def)
  have fits: "\<not> n < of_nat ?v + ?r + 1"
    using total room(1) by (simp add: word_less_nat_alt)
  have "1 + of_nat ?v + 2 + sum_list (map (filter_cost q) fs) = of_nat ?v + ?r + 1"
    by (simp add: add_ac)
  then have sent: "1 + of_nat ?v + 2 + sum_list (map (filter_cost q) fs) = of_nat (length (msg t q))"
    unfolding total [symmetric] by simp
  have written: "filter_write_message q h (message_type_encode t) (varint (length ?b) @ drop ?v (replicate 4 0))
      (of_nat ?v) packet_id p buf =
      Some (Inr (MQTT_SUCCESS, msg t q @ drop (length (msg t q)) buf, of_nat (length (msg t q))))"
    unfolding filter_write_message_linked [OF fs(1,3) vnat] sent using room(2)
    by (simp add: msg_def frame_def wr_bytes_at_0)
  show ?thesis
    unfolding filter_message_build_def filter_len_loop_linked [OF fs(1)]
    using fs(2) fits by (simp add: enc written del: drop_replicate)
qed

section \<open>What the parser allocates\<close>

text \<open>
  The nodes that the parser makes of a sequence of topics with their qualities of service, when
  the next block of the heap has number \<open>k\<close>. The topic of a node points into the
  message, so it is followed by the rest of the message.
\<close>

type_synonym subscription = "u8 list \<times> u8"

definition entry_bytes :: "bool \<Rightarrow> subscription \<Rightarrow> u8 list" where
  "entry_bytes q e = field (fst e) @ (if q then [snd e] else [])"

definition entry_ok :: "bool \<Rightarrow> subscription \<Rightarrow> bool" where
  "entry_ok q e \<longleftrightarrow> length (fst e) < 65536 \<and> (if q then snd e \<le> MQTT_QOS_2 else snd e = 0)"

definition filter_value :: "topic_filter_t \<Rightarrow> subscription" where
  "filter_value f = (take (unat (tf_len f)) (the (tf_topic f)), tf_qos f)"

primrec filter_nodes :: "bool \<Rightarrow> nat \<Rightarrow> subscription list \<Rightarrow> u8 list \<Rightarrow> topic_filter_t list" where
  "filter_nodes q k [] tail = []"
| "filter_nodes q k (e # es) tail =
     \<lparr>tf_topic = Some (fst e @ (if q then [snd e] else []) @ concat (map (entry_bytes q) es) @ tail),
      tf_len = of_nat (length (fst e)), tf_qos = snd e,
      tf_next = (if es = [] then NULL else Addr (Suc k))\<rparr> # filter_nodes q (Suc k) es tail"

primrec node_cells :: "nat \<Rightarrow> topic_filter_t list \<Rightarrow> (nat \<times> block) list" where
  "node_cells k [] = []"
| "node_cells k (f # fs) = node_cells (Suc k) fs @ [(k, Filter f)]"

definition add_nodes :: "bool \<Rightarrow> nat \<Rightarrow> topic_filter_t \<Rightarrow> subscription list \<Rightarrow> u8 list \<Rightarrow> heap \<Rightarrow> (nat \<times> block) list \<Rightarrow> heap" where
  "add_nodes q a g es tail h cs = h\<lparr>cells := node_cells (fresh h) (filter_nodes q (fresh h) es tail) @
      (a, Filter (if es = [] then g else g\<lparr>tf_next := Addr (fresh h)\<rparr>)) # cs, fresh := fresh h + length es\<rparr>"

lemma length_filter_nodes [simp]: "length (filter_nodes q k es tail) = length es"
  by (induction es arbitrary: k) auto

lemma keys_node_cells: "set (map fst (node_cells k fs)) = {k..<k + length fs}"
  by (induction fs arbitrary: k) auto

lemma map_of_node_cells: "i < length fs \<Longrightarrow> map_of (node_cells k fs @ cs) (k + i) = Some (Filter (fs ! i))"
proof (induction fs arbitrary: k i cs)
  case Nil
  then show ?case by simp
next
  case (Cons f fs)
  show ?case
  proof (cases i)
    case 0
    have "map_of (node_cells (Suc k) fs) k = None"
      using keys_node_cells [of "Suc k" fs] by (simp add: map_of_eq_None_iff)
    with 0 show ?thesis by (simp add: map_add_def)
  next
    case (Suc j)
    with Cons.prems show ?thesis using Cons.IH [of j "Suc k" "(k, Filter f) # cs"] by simp
  qed
qed

lemma map_of_outside_node_cells:
  "a < k \<or> k + length fs \<le> a \<Longrightarrow> map_of (node_cells k fs @ cs) a = map_of cs a"
proof -
  assume "a < k \<or> k + length fs \<le> a"
  then have "map_of (node_cells k fs) a = None"
    using keys_node_cells [of k fs] by (auto simp: map_of_eq_None_iff)
  then show ?thesis by (simp add: map_add_def)
qed

lemma linked_filter_nodes:
  assumes "\<And>i. i < length es \<Longrightarrow> map_of (cells h) (k + i) = Some (Filter (filter_nodes q k es tail ! i))"
  shows "linked load_filter tf_next h (if es = [] then NULL else Addr k) (filter_nodes q k es tail)"
  using assms
proof (induction es arbitrary: k)
  case Nil
  then show ?case by simp
next
  case (Cons e es)
  have "linked load_filter tf_next h (if es = [] then NULL else Addr (Suc k)) (filter_nodes q (Suc k) es tail)"
  proof (rule Cons.IH)
    fix i assume "i < length es"
    then show "map_of (cells h) (Suc k + i) = Some (Filter (filter_nodes q (Suc k) es tail ! i))"
      using Cons.prems [of "Suc i"] by simp
  qed
  then show ?case using Cons.prems [of 0] by (auto simp: load_filter_eq_Inr)
qed

lemma filter_values_of_nodes:
  "list_all (entry_ok q) es \<Longrightarrow> map filter_value (filter_nodes q k es tail) = es"
  by (induction es arbitrary: k) (auto simp: filter_value_def entry_ok_def unat_u16_of_nat)

text \<open>One round of the loop on a good entry.\<close>

lemma filter_parse_loop_entry:
  assumes e: "entry_ok q e" and len: "length (entry_bytes q e) \<le> unat n"
    and h: "cells h = (a, Filter g) # cs" "a \<noteq> fresh h" "\<not> oom h (fresh h)"
  shows "filter_parse_loop q (entry_bytes q e @ rest) n (Addr a) h =
     filter_parse_loop q rest (n - of_nat (length (entry_bytes q e))) (Addr (fresh h))
       (h\<lparr>cells := (fresh h, Filter \<lparr>tf_topic = Some (fst e @ (if q then [snd e] else []) @ rest),
                      tf_len = of_nat (length (fst e)), tf_qos = snd e, tf_next = NULL\<rparr>)
                   # (a, Filter (g\<lparr>tf_next := Addr (fresh h)\<rparr>)) # cs, fresh := Suc (fresh h)\<rparr>)"
proof -
  obtain t s where es: "e = (t, s)" by (cases e)
  have tl: "unat (of_nat (length t) :: u16) = length t"
    using e by (simp add: es entry_ok_def unat_u16_of_nat)
  have "length t < 4294967296" using e by (simp add: es entry_ok_def)
  then have cost: "(ucast (of_nat (length t) :: u16) :: u32) = of_nat (length t)"
    using tl unat_u32_of_nat [of "length t"] by (simp add: word_eq_iff_unsigned [where ?'a = nat] unat_ucast_u16_u32)
  have n: "n \<noteq> 0" using len by (auto simp: entry_bytes_def field_def)
  have s: "q \<Longrightarrow> \<not> 2 < s" "\<not> q \<Longrightarrow> s = 0" using e by (auto simp: es entry_ok_def)
  have adv: "adv (be16 (of_nat (length t)) @ t @ xs) (Suc (Suc (length t))) = Inr xs" for xs
    by (simp add: adv_def)
  note run = filter_parse_loop.simps [of _ _ n] n es entry_bytes_def field_def locate_string_field_of tl adv
    malloc_def h Let_def zero_filter_def store_def load_Addr load_filter_def cost
  show ?thesis
  proof (cases q)
    case True
    then show ?thesis using s(1) by (simp add: run h(2) [symmetric] add.commute diff_diff_eq [symmetric])
  next
    case False
    then show ?thesis using s(2) by (simp add: run h(2) [symmetric] add.commute)
  qed
qed

text \<open>The loop over a sequence of good entries.\<close>

lemma filter_parse_loop_entries:
  assumes "list_all (entry_ok q) es" and "length (concat (map (entry_bytes q) es)) \<le> unat n"
    and "cells h = (a, Filter g) # cs" and "a < fresh h" and "\<And>i. \<not> oom h i"
  shows "filter_parse_loop q (concat (map (entry_bytes q) es) @ tail) n (Addr a) h =
     filter_parse_loop q tail (n - of_nat (length (concat (map (entry_bytes q) es))))
       (Addr (if es = [] then a else fresh h + length es - 1)) (add_nodes q a g es tail h cs)"
  using assms
proof (induction es arbitrary: n h a g cs)
  case Nil
  have "add_nodes q a g [] tail h cs = h"
    unfolding add_nodes_def using Nil(3) by (cases h) simp
  then show ?case by simp
next
  case (Cons e es)
  let ?e = "entry_bytes q e" and ?es = "concat (map (entry_bytes q) es)"
  let ?f = "\<lparr>tf_topic = Some (fst e @ (if q then [snd e] else []) @ ?es @ tail),
              tf_len = of_nat (length (fst e)), tf_qos = snd e, tf_next = NULL\<rparr>"
  let ?h = "h\<lparr>cells := (fresh h, Filter ?f) # (a, Filter (g\<lparr>tf_next := Addr (fresh h)\<rparr>)) # cs,
              fresh := Suc (fresh h)\<rparr>"
  have e: "entry_ok q e" and es: "list_all (entry_ok q) es" using Cons.prems(1) by simp_all
  have le: "length ?e \<le> unat n" using Cons.prems(2) by simp
  have unat_e: "unat (of_nat (length ?e) :: u32) = length ?e"
    using le unat_u32_lt [of n] by (intro unat_u32_of_nat) linarith
  have minus: "unat (n - of_nat (length ?e)) = unat n - length ?e"
    using le by (simp add: unat_u32_sub unat_e)
  have "filter_parse_loop q (?es @ tail) (n - of_nat (length ?e)) (Addr (fresh h)) ?h =
      filter_parse_loop q tail (n - of_nat (length ?e) - of_nat (length ?es))
        (Addr (if es = [] then fresh h else fresh ?h + length es - 1))
        (add_nodes q (fresh h) ?f es tail ?h ((a, Filter (g\<lparr>tf_next := Addr (fresh h)\<rparr>)) # cs))"
    by (rule Cons.IH [OF es]) (use Cons.prems minus in auto)
  moreover have "add_nodes q (fresh h) ?f es tail ?h ((a, Filter (g\<lparr>tf_next := Addr (fresh h)\<rparr>)) # cs) =
      add_nodes q a g (e # es) tail h cs"
    by (cases es) (simp_all add: add_nodes_def)
  ultimately show ?case
    using filter_parse_loop_entry [OF e le Cons.prems(3), of "?es @ tail"] Cons.prems(4,5)
    by (cases es) (simp_all add: algebra_simps)
qed

text \<open>Releasing a list takes exactly its nodes out of the heap.\<close>

definition filter_link :: "block \<Rightarrow> link" where
  "filter_link b = (case b of Filter f \<Rightarrow> tf_next f | _ \<Rightarrow> NULL)"

lemma filter_link_Filter [simp]: "filter_link (Filter f) = tf_next f"
  by (simp add: filter_link_def)

definition is_filter :: "block \<Rightarrow> bool" where
  "is_filter b \<longleftrightarrow> (case b of Filter _ \<Rightarrow> True | _ \<Rightarrow> False)"

definition without :: "nat list \<Rightarrow> heap \<Rightarrow> heap" where
  "without as h = h\<lparr>cells := filter (\<lambda>c. fst c \<notin> set as) (cells h)\<rparr>"

lemma topic_filter_release_loop_chain:
  "chain filter_link h p as NULL \<Longrightarrow> distinct as \<Longrightarrow> list_all is_filter (contents h as) \<Longrightarrow>
   topic_filter_release_loop p h = Inr (without as h)"
proof (induction as arbitrary: p h)
  case Nil
  then show ?case by (simp add: topic_filter_release_loop.simps [of NULL] without_def)
next
  case (Cons a as)
  from Cons.prems obtain f where a: "map_of (cells h) a = Some (Filter f)"
    by (auto simp: is_filter_def split: block.splits)
  let ?h = "h\<lparr>cells := AList.delete a (cells h)\<rparr>"
  have other: "a \<notin> set as" using Cons.prems(2) by simp
  have "contents ?h as = contents h as"
    by (rule contents_cong) (use other in \<open>auto simp: AList.delete_conv'\<close>)
  then have "topic_filter_release_loop (tf_next f) ?h = Inr (without as ?h)"
    using Cons.prems a other by (intro Cons.IH) (auto simp: chain_delete_other)
  moreover have "filter (\<lambda>c. fst c \<notin> set as) (AList.delete a cs) = filter (\<lambda>c. fst c \<notin> set (a # as)) cs"
    for cs :: "(nat \<times> block) list"
    by (induction cs) auto
  then have "without as ?h = without (a # as) h" by (simp add: without_def)
  moreover have "p = Addr a" using Cons.prems(1) by simp
  ultimately show ?case
    using a by (simp add: topic_filter_release_loop.simps [of "Addr a"] load_filter_def load_Addr free_live)
qed

lemma chain_filter_nodes:
  assumes "\<And>i. i < length es \<Longrightarrow> map_of (cells h) (k + i) = Some (Filter (filter_nodes q k es tail ! i))"
  shows "chain filter_link h (if es = [] then NULL else Addr k) [k..<k + length es] NULL"
  using assms
proof (induction es arbitrary: k)
  case Nil
  then show ?case by simp
next
  case (Cons e es)
  have "chain filter_link h (if es = [] then NULL else Addr (Suc k)) [Suc k..<Suc k + length es] NULL"
  proof (rule Cons.IH)
    fix i assume "i < length es"
    then show "map_of (cells h) (Suc k + i) = Some (Filter (filter_nodes q (Suc k) es tail ! i))"
      using Cons.prems [of "Suc i"] by simp
  qed
  moreover have "[k..<k + length (e # es)] = k # [Suc k..<Suc k + length es]"
    by (simp add: upt_conv_Cons del: upt_Suc)
  ultimately show ?case
    using Cons.prems [of 0] by (simp del: upt_Suc)
qed

section \<open>The list a message is parsed to\<close>

text \<open>The heap while a message is parsed: the head node, which carries no filter, is still there.\<close>

definition parsing_heap :: "bool \<Rightarrow> subscription list \<Rightarrow> u8 list \<Rightarrow> heap \<Rightarrow> heap" where
  "parsing_heap q es tail h =
     h\<lparr>cells := node_cells (Suc (fresh h)) (filter_nodes q (Suc (fresh h)) es tail) @
        (fresh h, Filter (if es = [] then fresh_filter else fresh_filter\<lparr>tf_next := Addr (Suc (fresh h))\<rparr>)) # cells h,
       fresh := Suc (fresh h) + length es\<rparr>"

lemma parsing_heap_simps:
  "oom (parsing_heap q es tail h) = oom h" "fresh (parsing_heap q es tail h) = Suc (fresh h) + length es"
  by (simp_all add: parsing_heap_def)

lemma heap_ok_fresh_key: "heap_ok h \<Longrightarrow> fresh h \<le> a \<Longrightarrow> a \<notin> fst ` set (cells h)"
  by (auto simp: heap_ok_def live_def)

lemma parsing_heap_head:
  "map_of (cells (parsing_heap q es tail h)) (fresh h) =
     Some (Filter (if es = [] then fresh_filter else fresh_filter\<lparr>tf_next := Addr (Suc (fresh h))\<rparr>))"
  unfolding parsing_heap_def by (simp add: map_of_outside_node_cells del: map_of_append)

lemma parsing_heap_node:
  "i < length es \<Longrightarrow> map_of (cells (parsing_heap q es tail h)) (Suc (fresh h) + i) =
     Some (Filter (filter_nodes q (Suc (fresh h)) es tail ! i))"
  using map_of_node_cells [of i "filter_nodes q (Suc (fresh h)) es tail" "Suc (fresh h)"]
  unfolding parsing_heap_def by (simp del: map_of_append)

lemma parsing_heap_keys:
  "fst ` set (cells (parsing_heap q es tail h)) = {fresh h..<Suc (fresh h) + length es} \<union> fst ` set (cells h)"
  using keys_node_cells [of "Suc (fresh h)" "filter_nodes q (Suc (fresh h)) es tail"]
  by (auto simp: parsing_heap_def image_Un)

lemma parsing_heap_without:
  assumes "heap_ok h" and "set as = {fresh h..<Suc (fresh h) + length es}"
  shows "filter (\<lambda>c. fst c \<notin> set as) (cells (parsing_heap q es tail h)) = cells h"
proof -
  have "fst c \<in> set as" if "c \<in> set (node_cells (Suc (fresh h)) fs)" "length fs = length es" for c fs
  proof -
    have "fst c \<in> set (map fst (node_cells (Suc (fresh h)) fs))" using that(1) by simp
    then show ?thesis unfolding keys_node_cells assms(2) using that(2) by simp
  qed
  then have "filter (\<lambda>c. fst c \<notin> set as) (node_cells (Suc (fresh h)) fs) = []" if "length fs = length es" for fs
    using that by (simp add: filter_empty_conv)
  moreover have "fst c \<notin> set as" if "c \<in> set (cells h)" for c
    using heap_ok_fresh_key [OF assms(1), of "fst c"] that unfolding assms(2) by auto
  then have "filter (\<lambda>c. fst c \<notin> set as) (cells h) = cells h"
    by (simp add: filter_id_conv)
  ultimately show ?thesis by (simp add: parsing_heap_def assms(2))
qed

lemma parsing_heap_drop_head:
  assumes "heap_ok h"
  shows "AList.delete (fresh h) (cells (parsing_heap q es tail h)) =
     node_cells (Suc (fresh h)) (filter_nodes q (Suc (fresh h)) es tail) @ cells h"
proof -
  have "AList.delete (fresh h) (node_cells (Suc (fresh h)) fs) = node_cells (Suc (fresh h)) fs" for fs
    using keys_node_cells [of "Suc (fresh h)" fs] by (intro AList.delete_id) auto
  moreover have "AList.delete (fresh h) (cells h) = cells h"
    using heap_ok_fresh_key [OF assms, of "fresh h"] by (intro AList.delete_id) simp
  ultimately show ?thesis by (simp add: parsing_heap_def AList.delete_eq)
qed

lemma parsing_heap_release:
  assumes "heap_ok h" and "es \<noteq> []"
  shows "topic_filter_release_loop (Addr (fresh h)) (parsing_heap q es tail h\<lparr>fresh := m\<rparr>) = Inr (h\<lparr>fresh := m\<rparr>)"
proof -
  let ?h = "parsing_heap q es tail h\<lparr>fresh := m\<rparr>"
  let ?as = "fresh h # [Suc (fresh h)..<Suc (fresh h) + length es]"
  have cell: "map_of (cells ?h) (Suc (fresh h) + i) = Some (Filter (filter_nodes q (Suc (fresh h)) es tail ! i))"
    if "i < length es" for i using parsing_heap_node [OF that] by simp
  have "chain filter_link ?h (Addr (fresh h)) ?as NULL"
    using chain_filter_nodes [OF cell] assms(2) parsing_heap_head [of q es tail h] by simp
  moreover have "is_filter (the (map_of (cells ?h) a))" if "a \<in> set [Suc (fresh h)..<Suc (fresh h) + length es]" for a
  proof -
    have "a - Suc (fresh h) < length es" "Suc (fresh h) + (a - Suc (fresh h)) = a" using that by auto
    with cell [of "a - Suc (fresh h)"] show ?thesis by (simp add: is_filter_def)
  qed
  then have "list_all is_filter (contents ?h ?as)"
    using parsing_heap_head [of q es tail h] by (simp add: contents_def list_all_iff is_filter_def)
  ultimately have "topic_filter_release_loop (Addr (fresh h)) ?h = Inr (without ?as ?h)"
    by (intro topic_filter_release_loop_chain) auto
  moreover have "set ?as = {fresh h..<Suc (fresh h) + length es}" by auto
  then have "without ?as ?h = h\<lparr>fresh := m\<rparr>"
    using parsing_heap_without [OF assms(1), of ?as es q tail] unfolding without_def
    by (cases h) (simp add: parsing_heap_def)
  ultimately show ?thesis by simp
qed

text \<open>The loop on a sequence of good entries, started by the parser.\<close>

lemma filter_parse_start:
  assumes "list_all (entry_ok q) es" and "length (concat (map (entry_bytes q) es)) \<le> unat n" and "\<And>i. \<not> oom h i"
  shows "filter_parse_list q (concat (map (entry_bytes q) es) @ tail) n h =
     fbind (filter_parse_loop q tail (n - of_nat (length (concat (map (entry_bytes q) es))))
              (Addr (fresh h + length es)) (parsing_heap q es tail h)) (\<lambda>(exit, h').
        case exit of
          None \<Rightarrow> fbind (load_filter (Addr (fresh h)) h') (\<lambda>f. fbind (free (Addr (fresh h)) h') (\<lambda>h'. Inr (MQTT_SUCCESS, tf_next f, h')))
        | Some ret \<Rightarrow> fbind (topic_filter_release_loop (Addr (fresh h)) h') (\<lambda>h'. Inr (ret, Addr (fresh h), h')))"
proof -
  let ?h = "h\<lparr>cells := (fresh h, Filter fresh_filter) # cells h, fresh := Suc (fresh h)\<rparr>"
  have "add_nodes q (fresh h) fresh_filter es tail ?h (cells h) = parsing_heap q es tail h"
    by (simp add: add_nodes_def parsing_heap_def)
  then have "filter_parse_loop q (concat (map (entry_bytes q) es) @ tail) n (Addr (fresh h)) ?h =
      filter_parse_loop q tail (n - of_nat (length (concat (map (entry_bytes q) es))))
        (Addr (fresh h + length es)) (parsing_heap q es tail h)"
    using filter_parse_loop_entries [OF assms(1,2), of ?h "fresh h" fresh_filter "cells h" tail] assms(3)
    by (cases es) simp_all
  then show ?thesis unfolding filter_parse_list_def malloc_def using assms(3) by simp
qed

definition parsed_heap :: "bool \<Rightarrow> subscription list \<Rightarrow> u8 list \<Rightarrow> heap \<Rightarrow> heap" where
  "parsed_heap q es tail h =
     h\<lparr>cells := node_cells (Suc (fresh h)) (filter_nodes q (Suc (fresh h)) es tail) @ cells h,
       fresh := Suc (fresh h) + length es\<rparr>"

lemma filter_parse_list_entries:
  assumes es: "list_all (entry_ok q) es" "length (concat (map (entry_bytes q) es)) < 4294967296"
    and h: "heap_ok h" "\<And>i. \<not> oom h i"
  shows "filter_parse_list q (concat (map (entry_bytes q) es) @ tail) (of_nat (length (concat (map (entry_bytes q) es)))) h =
     Inr (MQTT_SUCCESS, if es = [] then Indeterminate else Addr (Suc (fresh h)), parsed_heap q es tail h)"
proof -
  let ?h = "parsing_heap q es tail h"
  have "unat (of_nat (length (concat (map (entry_bytes q) es))) :: u32) = length (concat (map (entry_bytes q) es))"
    by (rule unat_u32_of_nat [OF es(2)])
  moreover have "parsed_heap q es tail h = ?h\<lparr>cells := AList.delete (fresh h) (cells ?h)\<rparr>"
    unfolding parsing_heap_drop_head [OF h(1)] by (simp add: parsed_heap_def parsing_heap_def)
  ultimately show ?thesis
    using parsing_heap_head [of q es tail h] h(2)
    by (subst filter_parse_start [OF es(1)])
      (simp_all add: filter_parse_loop.simps [of _ _ 0] load_filter_def load_Addr free_live fresh_filter_def)
qed

text \<open>
  A filter with a quality of service above 2, behind a sequence of good ones. The nodes made so
  far are released, unless there is none: then the code follows the link of the head node,
  which it never assigned.
\<close>

lemma filter_parse_loop_bad_qos:
  assumes "n \<noteq> 0" and "length t < 65536" and "MQTT_QOS_2 < s"
    and "\<not> oom h (fresh h)" and "fresh h \<notin> fst ` set (cells h)"
  shows "filter_parse_loop True (entry_bytes True (t, s) @ tail) n p h =
     Inr (Some MQTT_SUBSCRIBE_MESSAGE_ERROR, h\<lparr>fresh := Suc (fresh h)\<rparr>)"
proof -
  have "unat (of_nat (length t) :: u16) = length t" using assms(2) by (rule unat_u16_of_nat)
  moreover have "AList.delete (fresh h) (cells h) = cells h" using assms(5) by (rule AList.delete_id)
  ultimately show ?thesis
    using assms(1,3,4)
    by (simp add: filter_parse_loop.simps [of _ _ n] entry_bytes_def field_def
        locate_string_field_of malloc_def Let_def adv_def free_def)
qed

lemma filter_parse_list_bad_qos:
  assumes es: "list_all (entry_ok True) es" and bad: "length t < 65536" "MQTT_QOS_2 < s"
    and len: "length (concat (map (entry_bytes True) es)) + length (entry_bytes True (t, s)) \<le> unat n"
    and h: "heap_ok h" "\<And>i. \<not> oom h i"
  shows "filter_parse_list True (concat (map (entry_bytes True) es) @ entry_bytes True (t, s) @ tail) n h =
     (if es = [] then Inl Uninitialised
      else Inr (MQTT_SUBSCRIBE_MESSAGE_ERROR, Addr (fresh h), h\<lparr>fresh := fresh h + 2 + length es\<rparr>))"
proof -
  let ?len = "length (concat (map (entry_bytes True) es))" and ?tail = "entry_bytes True (t, s) @ tail"
  let ?h = "parsing_heap True es ?tail h"
  have small: "?len < 4294967296" using len unat_u32_lt [of n] by linarith
  have "unat (n - of_nat ?len) = unat n - ?len"
    using len by (simp add: unat_u32_sub unat_u32_of_nat [OF small])
  moreover have "0 < length (entry_bytes True (t, s))" by (simp add: entry_bytes_def)
  ultimately have "unat (n - of_nat ?len) \<noteq> 0" using len by linarith
  then have "n - of_nat ?len \<noteq> 0" by auto
  moreover have "fresh ?h \<notin> fst ` set (cells ?h)"
    unfolding parsing_heap_keys using heap_ok_fresh_key [OF h(1), of "fresh ?h"] by (simp add: parsing_heap_simps)
  ultimately have stop: "filter_parse_loop True ?tail (n - of_nat ?len) p ?h =
      Inr (Some MQTT_SUBSCRIBE_MESSAGE_ERROR, ?h\<lparr>fresh := fresh h + 2 + length es\<rparr>)" for p
    using filter_parse_loop_bad_qos [of "n - of_nat ?len" t s ?h tail p] bad h(2) by (simp add: parsing_heap_simps)
  show ?thesis
  proof (cases "es = []")
    case True
    have "topic_filter_release_loop (Addr (fresh h)) (parsing_heap True [] ?tail h\<lparr>fresh := m\<rparr>) = Inl Uninitialised" for m
      using parsing_heap_head [of True "[]" ?tail h]
      by (simp add: topic_filter_release_loop.simps [of "Addr (fresh h)"] topic_filter_release_loop.simps [of Indeterminate]
          load_filter_def load_def free_live fresh_filter_def)
    with True stop show ?thesis
      using len h(2) by (subst filter_parse_start [OF es]) simp_all
  next
    case False
    then show ?thesis
      using stop parsing_heap_release [OF h(1) False, where q = True and tail = ?tail] len h(2)
      by (subst filter_parse_start [OF es]) simp_all
  qed
qed

section \<open>From builder to parser\<close>

text \<open>What a filter of the sender is at the receiver.\<close>

definition filter_sent :: "bool \<Rightarrow> topic_filter_t \<Rightarrow> subscription" where
  "filter_sent q f = (take (unat (tf_len f)) (the (tf_topic f)), if q then tf_qos f else 0)"

lemma filter_sent_True: "filter_sent True = filter_value"
  by (rule ext) (simp add: filter_sent_def filter_value_def)

lemma filter_entry_sent:
  assumes "filter_complete f" and "tf_qos f < MQTT_QOS_MAX"
  shows "filter_entry q f = entry_bytes q (filter_sent q f)" and "entry_ok q (filter_sent q f)"
proof -
  from assms(1) obtain t where t: "tf_topic f = Some t" "unat (tf_len f) \<le> length t"
    by (auto simp: filter_complete_def split: option.splits)
  have qos: "tf_qos f AND 3 = tf_qos f" "tf_qos f \<le> 2" using qos_cases [OF assms(2)] by auto
  from t(2) have "string_field (tf_len f) t = field (take (unat (tf_len f)) t)"
    using string_field_eq_field [of "tf_len f" "take (unat (tf_len f)) t"] by (simp add: string_field_def)
  then show "filter_entry q f = entry_bytes q (filter_sent q f)"
    using qos by (simp add: filter_entry_def entry_bytes_def filter_sent_def t(1))
  have "length (take (unat (tf_len f)) t) < 65536"
    using unat_u16_lt [of "tf_len f"] by (simp del: unat_u16_lt)
  then show "entry_ok q (filter_sent q f)" using qos by (simp add: entry_ok_def filter_sent_def t(1))
qed

lemma filter_message_parse_frame:
  assumes body: "length (be16 packet_id @ bytes) < 268435456"
    and len: "unat n = length (frame (message_type_encode t) (be16 packet_id @ bytes))"
  shows "filter_message_parse t q (Some (frame (message_type_encode t) (be16 packet_id @ bytes) @ tail)) n (Some i) (Some l) h =
     fbind (filter_parse_list q (bytes @ tail) (of_nat (length bytes)) h) (\<lambda>(ret, list, h).
       Inr (ret, Some packet_id, Some list, h))"
proof -
  define whole where "whole = be16 packet_id @ bytes"
  note header = frame_header [OF body len, folded whole_def]
  have raw: "rd_u16 (whole @ tail) = Inr (htons packet_id)" by (simp add: whole_def rd_u16_be16)
  have adv: "adv (whole @ tail) 2 = Inr (bytes @ tail)" by (simp add: whole_def adv_append)
  have count: "of_nat (length whole) - 2 = (of_nat (length bytes) :: u32)" by (simp add: whole_def)
  show ?thesis
    unfolding whole_def [symmetric] using header raw adv count
    by (simp add: filter_message_parse_def frame_def adv_Suc Let_def)
qed

lemma parsed_heap_linked:
  "linked load_filter tf_next (parsed_heap q es tail h) (if es = [] then NULL else Addr (Suc (fresh h)))
     (filter_nodes q (Suc (fresh h)) es tail)"
  by (rule linked_filter_nodes)
    (use map_of_node_cells [of _ _ "Suc (fresh h)"] in \<open>simp add: parsed_heap_def del: map_of_append\<close>)

text \<open>The parser adds one block for each filter to the heap and touches no other block.\<close>

definition extends :: "heap \<Rightarrow> nat \<Rightarrow> heap \<Rightarrow> bool" where
  "extends h n h' \<longleftrightarrow> (\<forall>a \<in> live h. map_of (cells h') a = map_of (cells h) a) \<and>
     live h \<subseteq> live h' \<and> card (live h' - live h) = n"

lemma parsed_heap_extends: "heap_ok h \<Longrightarrow> extends h (length es) (parsed_heap q es tail h)"
proof -
  assume ok: "heap_ok h"
  let ?h = "parsed_heap q es tail h"
  have live: "live ?h = {Suc (fresh h)..<Suc (fresh h) + length es} \<union> live h"
    using keys_node_cells [of "Suc (fresh h)" "filter_nodes q (Suc (fresh h)) es tail"]
    by (auto simp: live_def parsed_heap_def image_Un)
  have below: "a < fresh h" if "a \<in> live h" for a using ok that by (simp add: heap_ok_def)
  then have "live ?h - live h = {Suc (fresh h)..<Suc (fresh h) + length es}"
    unfolding live by force
  moreover have "map_of (cells ?h) a = map_of (cells h) a" if "a \<in> live h" for a
    using below [OF that] by (simp add: parsed_heap_def map_of_outside_node_cells del: map_of_append)
  ultimately show ?thesis unfolding extends_def live by simp
qed

lemma filter_message_roundtrip:
  assumes fs: "linked load_filter tf_next h p fs" "p \<noteq> NULL" "list_all filter_complete fs"
      "\<forall>f \<in> set fs. tf_qos f < MQTT_QOS_MAX"
    and short: "length (filter_body q packet_id fs) < 268435456"
    and room: "length (frame (message_type_encode t) (filter_body q packet_id fs)) \<le> unat n"
      "length (frame (message_type_encode t) (filter_body q packet_id fs)) \<le> length buf"
    and h: "heap_ok h2" "\<forall>i. \<not> oom h2 i"
  shows "\<exists>buf' n' list gs h3.
     filter_message_build t q packet_id p (Some buf) (Some n) h = Some (Inr (MQTT_SUCCESS, Some buf', Some n')) \<and>
     take (unat n') buf' = frame (message_type_encode t) (filter_body q packet_id fs) \<and>
     drop (unat n') buf' = drop (unat n') buf \<and>
     filter_message_parse t q (Some buf') n' (Some i) (Some l) h2 = Inr (MQTT_SUCCESS, Some packet_id, Some list, h3) \<and>
     linked load_filter tf_next h3 list gs \<and> map filter_value gs = map (filter_sent q) fs \<and> extends h2 (length fs) h3"
proof -
  let ?msg = "frame (message_type_encode t) (filter_body q packet_id fs)"
  let ?es = "map (filter_sent q) fs" and ?tail = "drop (length ?msg) buf"
  have "fs \<noteq> []" using fs(1,2) by auto
  have bytes: "concat (map (filter_entry q) fs) = concat (map (entry_bytes q) ?es)"
    using fs(3,4) by (intro arg_cong [of _ _ concat]) (simp add: list_all_iff filter_entry_sent)
  have ok: "list_all (entry_ok q) ?es" using fs(3,4) by (simp add: list_all_iff filter_entry_sent)
  have nat: "unat (of_nat (length ?msg) :: u32) = length ?msg"
    using room(1) unat_u32_lt [of n] by (intro unat_u32_of_nat) linarith
  have body: "filter_body q packet_id fs = be16 packet_id @ concat (map (entry_bytes q) ?es)"
    by (simp add: filter_body_def bytes)
  have "filter_message_parse t q (Some (?msg @ ?tail)) (of_nat (length ?msg)) (Some i) (Some l) h2 =
      Inr (MQTT_SUCCESS, Some packet_id, Some (Addr (Suc (fresh h2))), parsed_heap q ?es ?tail h2)"
    using short nat h \<open>fs \<noteq> []\<close> unfolding body
    by (subst filter_message_parse_frame) (simp_all add: filter_parse_list_entries [OF ok] del: map_map)
  moreover have "linked load_filter tf_next (parsed_heap q ?es ?tail h2) (Addr (Suc (fresh h2)))
      (filter_nodes q (Suc (fresh h2)) ?es ?tail)"
    using parsed_heap_linked [of q ?es ?tail h2] \<open>fs \<noteq> []\<close> by simp
  moreover have "map filter_value (filter_nodes q (Suc (fresh h2)) ?es ?tail) = ?es"
    by (rule filter_values_of_nodes [OF ok])
  moreover have "extends h2 (length fs) (parsed_heap q ?es ?tail h2)"
    using parsed_heap_extends [OF h(1), of ?es] by simp
  ultimately show ?thesis
    using filter_message_build_linked [OF fs(1-3) short room] nat by auto
qed

section \<open>Properties of SUBSCRIBE\<close>

text \<open>
  C15. SUBSCRIBE messages survive their round trip. From any list of complete filters with a
  legal quality of service that fits into a message, and any buffer that is large enough, the
  builder makes the message of the standard with the type byte 0x80, touches nothing behind it,
  and stores its length. The parser, on these bytes and any heap in which allocations succeed,
  returns the packet identifier and a list with the same topics and qualities of service in the
  same order; it adds one block for each filter and changes no block that was there.
\<close>

theorem subscribe_roundtrip:
  assumes "linked load_filter tf_next h p fs" and "p \<noteq> NULL" and "list_all filter_complete fs"
    and "\<forall>f \<in> set fs. tf_qos f < MQTT_QOS_MAX"
    and "length (filter_body True packet_id fs) < 268435456"
    and "length (frame 0x80 (filter_body True packet_id fs)) \<le> unat n"
    and "length (frame 0x80 (filter_body True packet_id fs)) \<le> length buf"
    and "heap_ok h2" and "\<forall>i. \<not> oom h2 i"
  shows "\<exists>buf' n' list gs h3.
     subscribe_message_build packet_id p (Some buf) (Some n) h = Some (Inr (MQTT_SUCCESS, Some buf', Some n')) \<and>
     take (unat n') buf' = frame 0x80 (filter_body True packet_id fs) \<and> drop (unat n') buf' = drop (unat n') buf \<and>
     subscribe_message_parse (Some buf') n' (Some i) (Some l) h2 = Inr (MQTT_SUCCESS, Some packet_id, Some list, h3) \<and>
     linked load_filter tf_next h3 list gs \<and> map filter_value gs = map filter_value fs \<and> extends h2 (length fs) h3"
proof -
  have type: "message_type_encode MQTT_MESSAGE_TYPE_SUBSCRIBE = 0x80" by (simp add: message_type_encode_table)
  show ?thesis
    using filter_message_roundtrip [OF assms(1-5), of MQTT_MESSAGE_TYPE_SUBSCRIBE n buf h2 i l] assms(6-9)
    unfolding type subscribe_message_build_def subscribe_message_parse_def filter_sent_True by blast
qed

theorem subscribe_roundtrip_witness:
  fixes f g :: topic_filter_t and h :: heap
  defines "f \<equiv> \<lparr>tf_topic = Some [97, 47, 98], tf_len = 3, tf_qos = 1, tf_next = Addr 1\<rparr>"
    and "g \<equiv> \<lparr>tf_topic = Some [99], tf_len = 1, tf_qos = 2, tf_next = NULL\<rparr>"
  defines "h \<equiv> \<lparr>cells = [(0, Filter f), (1, Filter g)], fresh = 2, oom = \<lambda>_. False, junk = \<lambda>_. 0\<rparr>"
  shows "\<exists>buf' n' list gs h3.
     subscribe_message_build 7 (Addr 0) (Some (replicate 20 0)) (Some 20) h = Some (Inr (MQTT_SUCCESS, Some buf', Some n')) \<and>
     take (unat n') buf' = frame 0x80 (filter_body True 7 [f, g]) \<and> drop (unat n') buf' = drop (unat n') (replicate 20 0) \<and>
     subscribe_message_parse (Some buf') n' (Some 0) (Some NULL) h = Inr (MQTT_SUCCESS, Some 7, Some list, h3) \<and>
     linked load_filter tf_next h3 list gs \<and> map filter_value gs = map filter_value [f, g] \<and> extends h (length [f, g]) h3"
  by (rule subscribe_roundtrip)
    (simp_all add: h_def f_def g_def load_filter_def load_def filter_complete_def filter_body_def filter_entry_def
      string_field_def frame_def varint_small heap_ok_def live_def)

text \<open>
  The size computed for a list of filters is enough for its message: a buffer of
  \<open>subscribe_message_len_calc\<close> bytes, as \<^verbatim>\<open>mqtt_client_subscribe\<close> allocates
  it, makes the builder succeed.
\<close>

theorem subscribe_len_calc_suffices:
  assumes "linked load_filter tf_next h p fs" and "p \<noteq> NULL" and "list_all filter_complete fs"
    and "length (filter_body True packet_id fs) < 268435456"
  shows "\<exists>n. subscribe_message_len_calc p (Some n0) h = Some (Inr (MQTT_SUCCESS, Some n)) \<and>
     length (frame 0x80 (filter_body True packet_id fs)) \<le> unat n \<and> unat n \<le> 5 + length (filter_body True packet_id fs) \<and>
     (\<forall>buf. length buf = unat n \<longrightarrow> (\<exists>buf' n'.
        subscribe_message_build packet_id p (Some buf) (Some n) h = Some (Inr (MQTT_SUCCESS, Some buf', Some n'))))"
proof -
  let ?body = "filter_body True packet_id fs" and ?n = "7 + sum_list (map (filter_cost True) fs) :: u32"
  have type: "message_type_encode MQTT_MESSAGE_TYPE_SUBSCRIBE = 0x80" by (simp add: message_type_encode_table)
  have len: "unat ?n = 5 + length ?body"
    using unat_sum_list_u32 [of 7 "filter_cost True" fs] assms(4) by (simp add: length_filter_body [OF assms(3)])
  have "length (varint (length ?body)) \<le> 4" using assms(4) by (simp add: length_varint_4)
  then have fits: "length (frame 0x80 ?body) \<le> unat ?n" using len by (simp add: frame_def)
  have "subscribe_message_len_calc p (Some n0) h = Some (Inr (MQTT_SUCCESS, Some ?n))"
    using assms(2) by (simp add: subscribe_message_len_calc_def filter_len_loop_linked [OF assms(1)])
  moreover have "\<exists>buf' n'. subscribe_message_build packet_id p (Some buf) (Some ?n) h =
      Some (Inr (MQTT_SUCCESS, Some buf', Some n'))" if "length buf = unat ?n" for buf
    using filter_message_build_linked [OF assms, of MQTT_MESSAGE_TYPE_SUBSCRIBE ?n buf] fits that
    by (simp add: subscribe_message_build_def type)
  moreover have "unat ?n \<le> 5 + length ?body" using len by simp
  ultimately show ?thesis using fits by (intro exI [of _ ?n]) simp
qed

theorem subscribe_len_calc_suffices_witness:
  fixes f :: topic_filter_t and h :: heap
  defines "f \<equiv> \<lparr>tf_topic = Some [97, 47, 98], tf_len = 3, tf_qos = 1, tf_next = NULL\<rparr>"
  defines "h \<equiv> \<lparr>cells = [(0, Filter f)], fresh = 1, oom = \<lambda>_. False, junk = \<lambda>_. 0\<rparr>"
  shows "\<exists>n. subscribe_message_len_calc (Addr 0) (Some 0) h = Some (Inr (MQTT_SUCCESS, Some n)) \<and>
     length (frame 0x80 (filter_body True 7 [f])) \<le> unat n \<and> unat n \<le> 5 + length (filter_body True 7 [f]) \<and>
     (\<forall>buf. length buf = unat n \<longrightarrow> (\<exists>buf' n'.
        subscribe_message_build 7 (Addr 0) (Some buf) (Some n) h = Some (Inr (MQTT_SUCCESS, Some buf', Some n'))))"
  by (rule subscribe_len_calc_suffices)
    (simp_all add: h_def f_def load_filter_def load_def filter_complete_def filter_body_def filter_entry_def string_field_def)

text \<open>
  Releasing a list of filters ends and releases every node once and nothing else: the
  blocks that remain are those of the other addresses, with their contents, in the same order.
\<close>

theorem topic_filter_release_exact:
  assumes "chain filter_link h p as NULL" and "distinct as" and "list_all is_filter (contents h as)"
  shows "topic_filter_release p h = Inr (MQTT_SUCCESS, h\<lparr>cells := filter (\<lambda>c. fst c \<notin> set as) (cells h)\<rparr>)"
  using topic_filter_release_loop_chain [OF assms] by (simp add: topic_filter_release_def without_def)

theorem topic_filter_release_exact_witness:
  fixes f g :: topic_filter_t and h :: heap
  defines "f \<equiv> \<lparr>tf_topic = None, tf_len = 0, tf_qos = 1, tf_next = Addr 4\<rparr>"
    and "g \<equiv> \<lparr>tf_topic = None, tf_len = 0, tf_qos = 2, tf_next = NULL\<rparr>"
  defines "h \<equiv> \<lparr>cells = [(4, Filter g), (3, Bytes [1]), (2, Filter f)], fresh = 5, oom = \<lambda>_. False, junk = \<lambda>_. 0\<rparr>"
  shows "topic_filter_release (Addr 2) h =
     Inr (MQTT_SUCCESS, h\<lparr>cells := filter (\<lambda>c. fst c \<notin> set [2, 4]) (cells h)\<rparr>)"
  by (rule topic_filter_release_exact) (simp_all add: h_def f_def g_def is_filter_def)

text \<open>
  A SUBSCRIBE message that asks for a quality of service above 2 in the filter behind the
  good ones \<open>es\<close> is turned down and every node allocated for it is released, so the heap
  has the blocks it had before. But if the bad filter is the first one, the release walks from
  the head node through a link that was never assigned: the behaviour is undefined.
\<close>

theorem subscribe_parse_bad_qos:
  fixes es :: "subscription list" and t tail bytes :: "u8 list"
  assumes "list_all (entry_ok True) es" and "length t < 65536" and "MQTT_QOS_2 < s"
    and "bytes = concat (map (entry_bytes True) es) @ entry_bytes True (t, s) @ others"
    and "2 + length bytes < 268435456"
    and "unat n = length (frame 0x80 (be16 packet_id @ bytes))" and "heap_ok h" and "\<forall>i. \<not> oom h i"
  shows "subscribe_message_parse (Some (frame 0x80 (be16 packet_id @ bytes) @ tail)) n (Some i) (Some l) h =
     (if es = [] then Inl Uninitialised
      else Inr (MQTT_SUBSCRIBE_MESSAGE_ERROR, Some packet_id, Some (Addr (fresh h)), h\<lparr>fresh := fresh h + 2 + length es\<rparr>))"
proof -
  have type: "message_type_encode MQTT_MESSAGE_TYPE_SUBSCRIBE = 0x80" by (simp add: message_type_encode_table)
  have nat: "unat (of_nat (length bytes) :: u32) = length bytes"
    by (rule unat_u32_of_nat) (use assms(5) in linarith)
  have "subscribe_message_parse (Some (frame 0x80 (be16 packet_id @ bytes) @ tail)) n (Some i) (Some l) h =
     fbind (filter_parse_list True (bytes @ tail) (of_nat (length bytes)) h) (\<lambda>(ret, list, h). Inr (ret, Some packet_id, Some list, h))"
    using filter_message_parse_frame [of packet_id bytes n MQTT_MESSAGE_TYPE_SUBSCRIBE True tail i l h] assms(5,6)
    by (simp add: type subscribe_message_parse_def)
  moreover have "filter_parse_list True (bytes @ tail) (of_nat (length bytes)) h =
     (if es = [] then Inl Uninitialised
      else Inr (MQTT_SUBSCRIBE_MESSAGE_ERROR, Addr (fresh h), h\<lparr>fresh := fresh h + 2 + length es\<rparr>))"
    using filter_parse_list_bad_qos [OF assms(1-3), of "of_nat (length bytes)" h "others @ tail"] nat assms(4,7,8)
    by simp
  ultimately show ?thesis by simp
qed

theorem subscribe_parse_bad_qos_witness:
  fixes h :: heap
  defines "h \<equiv> \<lparr>cells = [(2, Bytes [])], fresh = 3, oom = \<lambda>_. False, junk = \<lambda>_. 0\<rparr>"
  shows "subscribe_message_parse (Some (frame 0x80 (be16 7 @ [0, 1, 97, 1, 0, 1, 98, 3]) @ [])) 12 (Some 0) (Some NULL) h =
     (if [([97], 1)] = ([] :: subscription list) then Inl Uninitialised
      else Inr (MQTT_SUBSCRIBE_MESSAGE_ERROR, Some 7, Some (Addr (fresh h)), h\<lparr>fresh := fresh h + 2 + length [([97] :: u8 list, 1 :: u8)]\<rparr>))"
  by (rule subscribe_parse_bad_qos [where t = "[98]" and s = 3 and others = "[]"])
    (simp_all add: h_def entry_ok_def entry_bytes_def field_def be16_def frame_def varint_small heap_ok_def live_def)

text \<open>
  A SUBSCRIBE message without any filter is accepted, although the protocol forbids it, and
  the list handed to the caller is the link of the released head node, which was never assigned.
\<close>

theorem subscribe_parse_no_filter:
  assumes "heap_ok h" and "\<forall>i. \<not> oom h i"
  shows "subscribe_message_parse (Some (0x80 # 2 # be16 packet_id @ tail)) 4 (Some i) (Some l) h =
     Inr (MQTT_SUCCESS, Some packet_id, Some Indeterminate, h\<lparr>fresh := Suc (fresh h)\<rparr>)"
proof -
  have type: "message_type_encode MQTT_MESSAGE_TYPE_SUBSCRIBE = 0x80" by (simp add: message_type_encode_table)
  have "subscribe_message_parse (Some (0x80 # 2 # be16 packet_id @ tail)) 4 (Some i) (Some l) h =
     fbind (filter_parse_list True tail 0 h) (\<lambda>(ret, list, h). Inr (ret, Some packet_id, Some list, h))"
    using filter_message_parse_frame [of packet_id "[]" 4 MQTT_MESSAGE_TYPE_SUBSCRIBE True tail i l h]
    by (simp add: type subscribe_message_parse_def frame_def varint_small)
  then show ?thesis
    using filter_parse_list_entries [of True "[]" h tail] assms by (simp add: parsed_heap_def)
qed

theorem subscribe_parse_no_filter_witness:
  fixes h :: heap
  defines "h \<equiv> \<lparr>cells = [], fresh = 0, oom = \<lambda>_. False, junk = \<lambda>_. 0\<rparr>"
  shows "subscribe_message_parse (Some (0x80 # 2 # be16 9 @ [])) 4 (Some 0) (Some NULL) h =
     Inr (MQTT_SUCCESS, Some 9, Some Indeterminate, h\<lparr>fresh := Suc (fresh h)\<rparr>)"
  by (rule subscribe_parse_no_filter) (simp_all add: h_def heap_ok_def live_def)

end
