(* ===== verification/Msg_Unsubscribe.thy ===== *)
theory Msg_Unsubscribe
  imports Msg_Subscribe
begin

text \<open>
  message/msg_unsubscribe.c: the code of SUBSCRIBE with another type byte and without the
  quality of service, so both operations are instances of those of \<open>Msg_Subscribe\<close>.
\<close>

definition unsubscribe_message_build ::
  "u16 \<Rightarrow> link \<Rightarrow> u8 list option \<Rightarrow> u32 option \<Rightarrow> heap \<Rightarrow> (mqtt_ret \<times> u8 list option \<times> u32 option) outcome" where
  "unsubscribe_message_build = filter_message_build MQTT_MESSAGE_TYPE_UNSUBSCRIBE False"

definition unsubscribe_message_parse ::
  "u8 list option \<Rightarrow> u32 \<Rightarrow> u16 option \<Rightarrow> link option \<Rightarrow> heap \<Rightarrow>
   (mqtt_ret \<times> u16 option \<times> link option \<times> heap) res" where
  "unsubscribe_message_parse = filter_message_parse MQTT_MESSAGE_TYPE_UNSUBSCRIBE False"

text \<open>
  C33. UNSUBSCRIBE messages survive their round trip: as for SUBSCRIBE, with the type byte 0xA0
  and with quality of service 0 in the nodes of the receiver.
\<close>

theorem unsubscribe_roundtrip:
  assumes "linked load_filter tf_next h p fs" and "p \<noteq> NULL" and "list_all filter_complete fs"
    and "\<forall>f \<in> set fs. tf_qos f < MQTT_QOS_MAX"
    and "length (filter_body False packet_id fs) < 268435456"
    and "length (frame 0xA0 (filter_body False packet_id fs)) \<le> unat n"
    and "length (frame 0xA0 (filter_body False packet_id fs)) \<le> length buf"
    and "heap_ok h2" and "\<forall>i. \<not> oom h2 i"
  shows "\<exists>buf' n' list gs h3.
     unsubscribe_message_build packet_id p (Some buf) (Some n) h = Some (Inr (MQTT_SUCCESS, Some buf', Some n')) \<and>
     take (unat n') buf' = frame 0xA0 (filter_body False packet_id fs) \<and> drop (unat n') buf' = drop (unat n') buf \<and>
     unsubscribe_message_parse (Some buf') n' (Some i) (Some l) h2 = Inr (MQTT_SUCCESS, Some packet_id, Some list, h3) \<and>
     linked load_filter tf_next h3 list gs \<and> map filter_value gs = map (\<lambda>f. (fst (filter_value f), 0)) fs \<and>
     extends h2 (length fs) h3"
proof -
  have type: "message_type_encode MQTT_MESSAGE_TYPE_UNSUBSCRIBE = 0xA0" by (simp add: message_type_encode_table)
  have sent: "filter_sent False = (\<lambda>f. (fst (filter_value f), 0))"
    by (rule ext) (simp add: filter_sent_def filter_value_def)
  show ?thesis
    using filter_message_roundtrip [OF assms(1-5), of MQTT_MESSAGE_TYPE_UNSUBSCRIBE n buf h2 i l] assms(6-9)
    unfolding type unsubscribe_message_build_def unsubscribe_message_parse_def sent by blast
qed

theorem unsubscribe_roundtrip_witness:
  fixes f g :: topic_filter_t and h :: heap
  defines "f \<equiv> \<lparr>tf_topic = Some [97, 47, 98], tf_len = 3, tf_qos = 1, tf_next = Addr 1\<rparr>"
    and "g \<equiv> \<lparr>tf_topic = Some [99], tf_len = 1, tf_qos = 0, tf_next = NULL\<rparr>"
  defines "h \<equiv> \<lparr>cells = [(0, Filter f), (1, Filter g)], fresh = 2, oom = \<lambda>_. False, junk = \<lambda>_. 0\<rparr>"
  shows "\<exists>buf' n' list gs h3.
     unsubscribe_message_build 7 (Addr 0) (Some (replicate 20 0)) (Some 20) h = Some (Inr (MQTT_SUCCESS, Some buf', Some n')) \<and>
     take (unat n') buf' = frame 0xA0 (filter_body False 7 [f, g]) \<and> drop (unat n') buf' = drop (unat n') (replicate 20 0) \<and>
     unsubscribe_message_parse (Some buf') n' (Some 0) (Some NULL) h = Inr (MQTT_SUCCESS, Some 7, Some list, h3) \<and>
     linked load_filter tf_next h3 list gs \<and> map filter_value gs = map (\<lambda>f. (fst (filter_value f), 0)) [f, g] \<and>
     extends h (length [f, g]) h3"
  by (rule unsubscribe_roundtrip)
    (simp_all add: h_def f_def g_def load_filter_def load_def filter_complete_def filter_body_def filter_entry_def
      string_field_def frame_def varint_small heap_ok_def live_def)

end
