(* ===== verification/Msg_Suback.thy ===== *)
theory Msg_Suback
  imports Message Memory
begin

text \<open>
  message/msg_suback.c: the return codes of a subscription. They are kept in a growing array,
  \<^verbatim>\<open>suback_data_t\<close>, with 16-bit size and capacity; the array itself is a
  block of bytes in the heap.
\<close>

section \<open>The growing array\<close>

abbreviation (input) SUBACK_TOPIC_NUM_DEFAULT :: u16 where "SUBACK_TOPIC_NUM_DEFAULT \<equiv> 10"
abbreviation (input) SUBACK_TOPIC_NUM_THRESHOLD :: u16 where "SUBACK_TOPIC_NUM_THRESHOLD \<equiv> 40"

record suback_data_t =
  sd_qos :: link
  sd_size :: u16
  sd_capacity :: u16

text \<open>
  \<^verbatim>\<open>realloc\<close> as glibc documents it: a size of 0 releases the block and gives
  \<^verbatim>\<open>NULL\<close>; if the allocation fails the block stays; else the contents move to
  a new block.
\<close>

definition realloc :: "link \<Rightarrow> nat \<Rightarrow> heap \<Rightarrow> (link \<times> heap) res" where
  "realloc p n h =
     (if p = NULL then Inr (malloc (junk_bytes h n) h)
      else fbind (load_bytes p h) (\<lambda>bs.
        if n = 0 then fbind (free p h) (\<lambda>h. Inr (NULL, h))
        else let (q, h') = malloc (Bytes (take n bs @ map (junk h) [length bs..<n])) h
             in if q = NULL then Inr (NULL, h') else fbind (free p h') (\<lambda>h'. Inr (q, h'))))"

definition suback_data_init ::
  "suback_data_t option \<Rightarrow> u16 \<Rightarrow> heap \<Rightarrow> mqtt_ret \<times> suback_data_t option \<times> heap" where
  "suback_data_init data capacity h =
     (case data of
        None \<Rightarrow> (MQTT_INVALID_PARAM, data, h)
      | Some d \<Rightarrow>
          let d = d\<lparr>sd_capacity := (if capacity = 0 then SUBACK_TOPIC_NUM_DEFAULT else capacity)\<rparr>;
              (p, h') = malloc (junk_bytes h (unat (sd_capacity d))) h;
              d = d\<lparr>sd_qos := p\<rparr>
          in if p = NULL then (MQTT_MEMORY_NOBUFFER, Some d, h') else (MQTT_SUCCESS, Some (d\<lparr>sd_size := 0\<rparr>), h'))"

definition suback_data_append ::
  "suback_data_t option \<Rightarrow> u8 \<Rightarrow> heap \<Rightarrow> (mqtt_ret \<times> suback_data_t option \<times> heap) res" where
  "suback_data_append data qos h =
     (case data of
        None \<Rightarrow> Inr (MQTT_INVALID_PARAM, data, h)
      | Some d \<Rightarrow>
          fbind (if sd_capacity d \<le> sd_size d
                 then let new_capacity = (if sd_capacity d < SUBACK_TOPIC_NUM_THRESHOLD then sd_capacity d * 2
                                          else sd_capacity d + SUBACK_TOPIC_NUM_DEFAULT)
                      in fbind (realloc (sd_qos d) (unat new_capacity) h) (\<lambda>(new_qos, h).
                         if new_qos = NULL then Inr (MQTT_MEMORY_NOBUFFER, d, h)
                         else Inr (MQTT_SUCCESS, d\<lparr>sd_qos := new_qos, sd_capacity := new_capacity\<rparr>, h))
                 else Inr (MQTT_SUCCESS, d, h)) (\<lambda>(ret, d, h).
          if ret \<noteq> MQTT_SUCCESS then Inr (ret, Some d, h)
          else fbind (load_bytes (sd_qos d) h) (\<lambda>bs.
               fbind (wr bs (unat (sd_size d)) qos) (\<lambda>bs.
               fbind (store (sd_qos d) (Bytes bs) h) (\<lambda>h.
               Inr (MQTT_SUCCESS, Some (d\<lparr>sd_size := sd_size d + 1\<rparr>), h))))))"

text \<open>The test is inverted in the source: \<^verbatim>\<open>free\<close> is called on \<^verbatim>\<open>NULL\<close> only.\<close>

definition suback_data_release ::
  "suback_data_t option \<Rightarrow> heap \<Rightarrow> (mqtt_ret \<times> suback_data_t option \<times> heap) res" where
  "suback_data_release data h =
     (case data of
        None \<Rightarrow> Inr (MQTT_INVALID_PARAM, data, h)
      | Some d \<Rightarrow> fbind (if sd_qos d = NULL then free (sd_qos d) h else Inr h) (\<lambda>h.
                  Inr (MQTT_SUCCESS, Some (d\<lparr>sd_qos := NULL\<rparr>), h)))"

section \<open>The message\<close>

text \<open>The loop of the builder; \<open>pos\<close> is where \<^verbatim>\<open>message\<close> points.\<close>

function suback_write_loop ::
  "suback_data_t \<Rightarrow> heap \<Rightarrow> nat \<Rightarrow> u8 list \<Rightarrow> nat \<Rightarrow> u32 \<Rightarrow> (mqtt_ret \<times> u8 list \<times> u32) res" where
  "suback_write_loop d h i message pos message_len =
     (if i < unat (sd_size d) then
        fbind (load_bytes (sd_qos d) h) (\<lambda>bs. fbind (rd bs i) (\<lambda>b.
          if MQTT_QOS_MAX \<le> b \<and> b \<noteq> MQTT_QOS_REJECT then Inr (MQTT_SUBACK_QOS_ERROR, message, message_len)
          else fbind (wr_bytes message pos [b]) (\<lambda>message.
               suback_write_loop d h (i + 1) message (pos + 1) (message_len + 1))))
      else Inr (MQTT_SUCCESS, message, message_len))"
  by pat_completeness auto
termination
  by (relation "measure (\<lambda>(d, _, i, _). unat (sd_size d) - i)") auto

declare suback_write_loop.simps [simp del]

definition suback_write_message ::
  "suback_data_t \<Rightarrow> heap \<Rightarrow> u8 list \<Rightarrow> u32 \<Rightarrow> u16 \<Rightarrow> u8 list \<Rightarrow> (mqtt_ret \<times> u8 list \<times> u32) res" where
  "suback_write_message d h remain_len_encode encode_len packet_id message =
     fbind (wr_bytes message 0 [message_type_encode MQTT_MESSAGE_TYPE_SUBACK]) (\<lambda>message.
     fbind (rd_bytes remain_len_encode (unat encode_len)) (\<lambda>encoded.
     fbind (wr_bytes message 1 encoded) (\<lambda>message.
     fbind (wr_bytes message (1 + unat encode_len) (mem_of_u16 (htons packet_id))) (\<lambda>message.
     suback_write_loop d h 0 message (1 + unat encode_len + 2) (1 + encode_len + 2)))))"

definition suback_message_build ::
  "u16 \<Rightarrow> suback_data_t option \<Rightarrow> u8 list option \<Rightarrow> u32 option \<Rightarrow> heap \<Rightarrow>
   (mqtt_ret \<times> u8 list option \<times> u32 option) res" where
  "suback_message_build packet_id data message message_len h =
     (case (data, message, message_len) of
        (Some d, Some buf, Some len) \<Rightarrow>
          let remain_len = 0 + 2 + ucast (sd_size d)
          in fbind (remain_length_encode remain_len (replicate 4 0) 0) (\<lambda>(ret, remain_len_encode, encode_len).
             if ret \<noteq> MQTT_SUCCESS then Inr (ret, message, message_len)
             else if len < remain_len + encode_len + 1 then Inr (MQTT_INVALID_PARAM, message, message_len)
             else fbind (suback_write_message d h remain_len_encode encode_len packet_id buf) (\<lambda>(ret, buf, len).
                  Inr (ret, Some buf, Some len)))
      | _ \<Rightarrow> Inr (MQTT_INVALID_PARAM, message, message_len))"

function suback_parse_loop ::
  "u8 list \<Rightarrow> u32 \<Rightarrow> nat \<Rightarrow> suback_data_t option \<Rightarrow> heap \<Rightarrow> (mqtt_ret \<times> suback_data_t option \<times> heap) res" where
  "suback_parse_loop message message_len i data h =
     (if i < unat message_len then
        fbind (rd message i) (\<lambda>b.
          if MQTT_QOS_MAX \<le> b \<and> b \<noteq> MQTT_QOS_REJECT then Inr (MQTT_SUBACK_QOS_ERROR, data, h)
          else fbind (suback_data_append data b h) (\<lambda>(ret, data, h).
               if ret \<noteq> MQTT_SUCCESS
               then fbind (suback_data_release data h) (\<lambda>(_, data, h). Inr (ret, data, h))
               else suback_parse_loop message message_len (i + 1) data h))
      else Inr (MQTT_SUCCESS, data, h))"
  by pat_completeness auto
termination
  by (relation "measure (\<lambda>(_, n, i, _). unat n - i)") auto

declare suback_parse_loop.simps [simp del]

definition suback_message_parse ::
  "u8 list option \<Rightarrow> u32 \<Rightarrow> u16 option \<Rightarrow> suback_data_t option \<Rightarrow> heap \<Rightarrow>
   (mqtt_ret \<times> u16 option \<times> suback_data_t option \<times> heap) res" where
  "suback_message_parse message message_len packet_id data h =
     (case (message, packet_id, data) of
        (Some p, Some _, Some _) \<Rightarrow>
          if message_len = 0 then Inr (MQTT_INVALID_PARAM, packet_id, data, h)
          else fbind (rd p 0) (\<lambda>b.
          if b \<noteq> message_type_encode MQTT_MESSAGE_TYPE_SUBACK then Inr (MQTT_MESSAGE_TYPE_ERROR, packet_id, data, h)
          else fbind (adv p 1) (\<lambda>p. let message_len = message_len - 1
          in fbind (remain_length_decode p message_len) (\<lambda>(ret, field_len, remain_len).
          if ret \<noteq> MQTT_SUCCESS then Inr (ret, packet_id, data, h)
          else fbind (adv p (unat field_len)) (\<lambda>p. let message_len = message_len - field_len
          in if remain_len \<noteq> message_len then Inr (MQTT_SUBACK_MESSAGE_ERROR, packet_id, data, h)
          else fbind (rd_u16 p) (\<lambda>raw. let packet_id = Some (ntohs raw)
          in fbind (adv p 2) (\<lambda>p. let message_len = message_len - 2
          in case suback_data_init data (ucast message_len) h of (ret, data, h) \<Rightarrow>
             if ret \<noteq> MQTT_SUCCESS then Inr (ret, packet_id, data, h)
             else fbind (suback_parse_loop p message_len 0 data h) (\<lambda>(ret, data, h).
                  Inr (ret, packet_id, data, h))))))))
      | _ \<Rightarrow> Inr (MQTT_INVALID_PARAM, packet_id, data, h))"

section \<open>The array as a list\<close>

text \<open>
  The interface of a store of bytes that grows at its end, and what follows from it for a
  sequence of pushes. \<open>repr h d qs\<close>: in the heap \<open>h\<close> the object \<open>d\<close>
  holds the bytes \<open>qs\<close>; \<open>owns d\<close> is the block it uses.
\<close>

definition keeps :: "heap \<Rightarrow> link \<Rightarrow> heap \<Rightarrow> link \<Rightarrow> bool" where
  "keeps h p h' p' \<longleftrightarrow> oom h' = oom h \<and>
     (\<forall>a b. map_of (cells h) a = Some b \<and> Addr a \<noteq> p \<longrightarrow> map_of (cells h') a = Some b \<and> Addr a \<noteq> p')"

lemma keeps_refl: "keeps h p h p"
  by (simp add: keeps_def)

lemma keeps_trans: "keeps h p h' p' \<Longrightarrow> keeps h' p' h'' p'' \<Longrightarrow> keeps h p h'' p''"
  by (auto simp: keeps_def)

locale byte_store =
  fixes repr :: "heap \<Rightarrow> 'd \<Rightarrow> u8 list \<Rightarrow> bool"
    and owns :: "'d \<Rightarrow> link"
    and push :: "'d option \<Rightarrow> u8 \<Rightarrow> heap \<Rightarrow> (mqtt_ret \<times> 'd option \<times> heap) res"
    and limit :: nat
  assumes push: "repr h d qs \<Longrightarrow> length qs < limit \<Longrightarrow> (\<forall>i. \<not> oom h i) \<Longrightarrow>
    \<exists>d' h'. push (Some d) q h = Inr (MQTT_SUCCESS, Some d', h') \<and> repr h' d' (qs @ [q]) \<and> keeps h (owns d) h' (owns d')"
begin

text \<open>A loop that pushes the elements of a list one after the other.\<close>

primrec push_all :: "'d option \<Rightarrow> u8 list \<Rightarrow> heap \<Rightarrow> (mqtt_ret \<times> 'd option \<times> heap) res" where
  "push_all d [] h = Inr (MQTT_SUCCESS, d, h)"
| "push_all d (q # qs) h = fbind (push d q h) (\<lambda>(ret, d, h).
     if ret \<noteq> MQTT_SUCCESS then Inr (ret, d, h) else push_all d qs h)"

lemma push_all_repr:
  "repr h d qs \<Longrightarrow> length qs + length rs \<le> limit \<Longrightarrow> \<forall>i. \<not> oom h i \<Longrightarrow>
   \<exists>d' h'. push_all (Some d) rs h = Inr (MQTT_SUCCESS, Some d', h') \<and> repr h' d' (qs @ rs) \<and> keeps h (owns d) h' (owns d')"
proof (induction rs arbitrary: qs d h)
  case Nil
  then show ?case by (simp add: keeps_refl)
next
  case (Cons r rs)
  from push [OF Cons.prems(1) _ Cons.prems(3), of r] Cons.prems(2) obtain d1 h1
    where one: "push (Some d) r h = Inr (MQTT_SUCCESS, Some d1, h1)" "repr h1 d1 (qs @ [r])"
      "keeps h (owns d) h1 (owns d1)" by auto
  then have "\<forall>i. \<not> oom h1 i" using Cons.prems(3) by (simp add: keeps_def)
  from Cons.IH [OF one(2) _ this] Cons.prems(2) obtain d2 h2
    where "push_all (Some d1) rs h1 = Inr (MQTT_SUCCESS, Some d2, h2)" "repr h2 d2 (qs @ r # rs)"
      "keeps h1 (owns d1) h2 (owns d2)" by auto
  with one keeps_trans [OF one(3)] show ?case by auto
qed

end

definition suback_repr :: "heap \<Rightarrow> suback_data_t \<Rightarrow> u8 list \<Rightarrow> bool" where
  "suback_repr h d qs \<longleftrightarrow> heap_ok h \<and>
     (\<exists>a bs. sd_qos d = Addr a \<and> map_of (cells h) a = Some (Bytes bs) \<and> bs \<noteq> [] \<and>
        length bs = unat (sd_capacity d) \<and> length qs = unat (sd_size d) \<and>
        length qs \<le> length bs \<and> take (length qs) bs = qs)"

text \<open>A full array moves to a larger one, as long as the 16-bit capacity does not wrap.\<close>

definition grown :: "u16 \<Rightarrow> u16" where
  "grown c = (if c < SUBACK_TOPIC_NUM_THRESHOLD then c * 2 else c + SUBACK_TOPIC_NUM_DEFAULT)"

definition suback_store :: "suback_data_t \<Rightarrow> u8 \<Rightarrow> heap \<Rightarrow> (mqtt_ret \<times> suback_data_t option \<times> heap) res" where
  "suback_store d q h = fbind (load_bytes (sd_qos d) h) (\<lambda>bs. fbind (wr bs (unat (sd_size d)) q) (\<lambda>bs.
     fbind (store (sd_qos d) (Bytes bs) h) (\<lambda>h. Inr (MQTT_SUCCESS, Some (d\<lparr>sd_size := sd_size d + 1\<rparr>), h))))"

lemma suback_data_append_room:
  "sd_size d < sd_capacity d \<Longrightarrow> suback_data_append (Some d) q h = suback_store d q h"
  by (simp add: suback_data_append_def suback_store_def not_le [symmetric])

lemma suback_data_append_full:
  "sd_capacity d \<le> sd_size d \<Longrightarrow>
   suback_data_append (Some d) q h =
     fbind (realloc (sd_qos d) (unat (grown (sd_capacity d))) h) (\<lambda>(p, h).
       if p = NULL then Inr (MQTT_MEMORY_NOBUFFER, Some d, h)
       else suback_store (d\<lparr>sd_qos := p, sd_capacity := grown (sd_capacity d)\<rparr>) q h)"
  unfolding suback_data_append_def suback_store_def Let_def grown_def [symmetric]
  by (cases "realloc (sd_qos d) (unat (grown (sd_capacity d))) h") (simp_all split: prod.split)

lemma suback_push_room:
  assumes "suback_repr h d qs" and "sd_size d < sd_capacity d"
  shows "\<exists>h'. suback_data_append (Some d) q h = Inr (MQTT_SUCCESS, Some (d\<lparr>sd_size := sd_size d + 1\<rparr>), h') \<and>
     suback_repr h' (d\<lparr>sd_size := sd_size d + 1\<rparr>) (qs @ [q]) \<and> keeps h (sd_qos d) h' (sd_qos d)"
proof -
  from assms(1) obtain a bs where a: "sd_qos d = Addr a" "map_of (cells h) a = Some (Bytes bs)"
    and bs: "length bs = unat (sd_capacity d)" "length qs = unat (sd_size d)" "take (length qs) bs = qs"
    and ok: "heap_ok h" by (auto simp: suback_repr_def)
  have lt: "length qs < length bs" using assms(2) bs by (simp add: word_less_nat_alt)
  have live: "a \<in> live h" using a(2) by (simp add: live_iff)
  let ?h = "h\<lparr>cells := AList.update a (Bytes (bs[length qs := q])) (cells h)\<rparr>"
  have "unat (sd_size d + 1) = length qs + 1"
    using lt bs unat_u16_lt [of "sd_capacity d"] by (simp add: unat_word_ariths del: unat_u16_lt)
  moreover have "take (Suc (length qs)) (bs[length qs := q]) = qs @ [q]"
    using lt bs(3) by (simp add: take_Suc_conv_app_nth)
  moreover have "heap_ok ?h" by (rule heap_ok_update [OF ok live])
  ultimately have "suback_repr ?h (d\<lparr>sd_size := sd_size d + 1\<rparr>) (qs @ [q])"
    using a bs lt by (auto simp: suback_repr_def AList.update_conv')
  moreover have "suback_data_append (Some d) q h = Inr (MQTT_SUCCESS, Some (d\<lparr>sd_size := sd_size d + 1\<rparr>), ?h)"
    using assms(2) a bs lt
    by (simp add: suback_data_append_room suback_store_def load_bytes_def load_Addr wr_def store_live)
  moreover have "keeps h (sd_qos d) ?h (sd_qos d)"
    using a by (auto simp: keeps_def AList.update_conv')
  ultimately show ?thesis by blast
qed

lemma unat_grown:
  "unat c \<le> 65525 \<Longrightarrow> unat (grown c) = (if unat c < 40 then 2 * unat c else unat c + 10)"
  by (simp add: grown_def word_less_nat_alt unat_word_ariths)

lemma suback_push_full:
  assumes "suback_repr h d qs" and "sd_capacity d \<le> sd_size d" and "unat (sd_capacity d) \<le> 65525" and "\<forall>i. \<not> oom h i"
  shows "\<exists>d' h'. suback_data_append (Some d) q h = suback_data_append (Some d') q h' \<and>
     suback_repr h' d' qs \<and> sd_size d' < sd_capacity d' \<and> keeps h (sd_qos d) h' (sd_qos d')"
proof -
  from assms(1) obtain a bs where a: "sd_qos d = Addr a" "map_of (cells h) a = Some (Bytes bs)" "bs \<noteq> []"
    and bs: "length bs = unat (sd_capacity d)" "length qs = unat (sd_size d)" "length qs \<le> length bs" "take (length qs) bs = qs"
    and ok: "heap_ok h" by (auto simp: suback_repr_def)
  let ?c = "grown (sd_capacity d)" and ?k = "fresh h"
  let ?bs = "bs @ map (junk h) [length bs..<unat ?c]"
  let ?h1 = "h\<lparr>cells := (?k, Bytes ?bs) # cells h, fresh := Suc ?k\<rparr>"
  let ?h = "?h1\<lparr>cells := AList.delete a (cells ?h1)\<rparr>" and ?d = "d\<lparr>sd_qos := Addr ?k, sd_capacity := ?c\<rparr>"
  have c: "unat ?c = (if unat (sd_capacity d) < 40 then 2 * unat (sd_capacity d) else unat (sd_capacity d) + 10)"
    by (rule unat_grown [OF assms(3)])
  have "0 < unat (sd_capacity d)" using a(3) bs(1) by (metis length_greater_0_conv)
  then have more: "length bs < unat ?c" using c bs(1) by (simp split: if_splits)
  have a_less: "a < ?k" using ok a(2) live_iff [of a h] by (auto simp: heap_ok_def)
  have "realloc (Addr a) (unat ?c) h = Inr (Addr ?k, ?h)"
    using a more assms(4) a_less by (simp add: realloc_def load_bytes_def load_Addr malloc_def free_def)
  moreover have lt: "sd_size d < ?c" using more bs by (simp add: word_less_nat_alt)
  ultimately have "suback_data_append (Some d) q h = suback_data_append (Some ?d) q ?h"
    using assms(2) a by (simp add: suback_data_append_full suback_data_append_room)
  moreover have "heap_ok ?h1" using malloc_heap_ok [OF ok, of "Bytes ?bs"] assms(4) by (simp add: malloc_def)
  then have "heap_ok ?h" by (rule heap_ok_delete)
  then have "suback_repr ?h ?d qs"
    using bs more a_less a(3) by (auto simp: suback_repr_def AList.delete_conv')
  moreover have "keeps h (sd_qos d) ?h (sd_qos ?d)"
  proof -
    have "b \<noteq> ?k" if "map_of (cells h) b = Some x" for b x
      using ok that live_iff [of b h] by (auto simp: heap_ok_def)
    then show ?thesis using a by (auto simp: keeps_def AList.delete_conv')
  qed
  ultimately show ?thesis using lt by (intro exI [of _ ?d] exI [of _ ?h]) simp
qed

interpretation codes: byte_store suback_repr sd_qos suback_data_append 65526
proof unfold_locales
  fix h d qs q
  assume repr: "suback_repr h d qs" and len: "length qs < 65526" and oom: "\<forall>i. \<not> oom h i"
  show "\<exists>d' h'. suback_data_append (Some d) q h = Inr (MQTT_SUCCESS, Some d', h') \<and> suback_repr h' d' (qs @ [q]) \<and>
      keeps h (sd_qos d) h' (sd_qos d')"
  proof (cases "sd_size d < sd_capacity d")
    case True
    with suback_push_room [OF repr True, of q] show ?thesis by fastforce
  next
    case False
    then have full: "sd_capacity d \<le> sd_size d" by simp
    moreover have "unat (sd_capacity d) \<le> 65525"
      using repr full len by (auto simp: suback_repr_def word_le_nat_alt)
    ultimately obtain d1 h1 where one: "suback_data_append (Some d) q h = suback_data_append (Some d1) q h1"
      "suback_repr h1 d1 qs" "sd_size d1 < sd_capacity d1" "keeps h (sd_qos d) h1 (sd_qos d1)"
      using suback_push_full [OF repr _ _ oom] by blast
    from suback_push_room [OF one(2,3), of q] one(1) keeps_trans [OF one(4)] show ?thesis by fastforce
  qed
qed

section \<open>Building and parsing\<close>

definition legal_code :: "u8 \<Rightarrow> bool" where
  "legal_code b \<longleftrightarrow> b < MQTT_QOS_MAX \<or> b = MQTT_QOS_REJECT"

lemma suback_write_loop_eq:
  assumes "sd_qos d = Addr a" and "map_of (cells h) a = Some (Bytes bs)" and "take (unat (sd_size d)) bs = qs"
    and "unat (sd_size d) = length qs" and "list_all legal_code qs" and "i \<le> length qs"
    and "pos = length pre" and "pos + (length qs - i) \<le> length buf"
  shows "fbind (wr_bytes buf 0 pre) (\<lambda>b. suback_write_loop d h i b pos n) =
     fbind (wr_bytes buf 0 (pre @ drop i qs)) (\<lambda>b. Inr (MQTT_SUCCESS, b, n + of_nat (length qs - i)))"
  using assms
proof (induction "length qs - i" arbitrary: i pre pos n)
  case 0
  then show ?case by (simp add: suback_write_loop.simps [of d h i])
next
  case (Suc k)
  then have i: "i < length qs" by simp
  have "length qs \<le> length bs" using Suc.prems(3,4) by (metis length_take min.cobounded1)
  then have rd: "rd bs i = Inr (qs ! i)"
    using i Suc.prems(3,4) nth_take [of i "length qs" bs] by (simp add: rd_def)
  have "legal_code (qs ! i)" using Suc.prems(5) i by (simp add: list_all_length)
  then have legal: "(MQTT_QOS_MAX \<le> qs ! i \<and> qs ! i \<noteq> MQTT_QOS_REJECT) = False"
    by (auto simp: legal_code_def)
  have drop: "drop i qs = qs ! i # drop (Suc i) qs" using i by (simp add: Cons_nth_drop_Suc)
  have count: "n + 1 + of_nat (length qs - Suc i) = n + of_nat (length qs - i)"
    using i by (simp add: of_nat_diff)
  have "suback_write_loop d h i b pos n =
      fbind (wr_bytes b pos [qs ! i]) (\<lambda>b. suback_write_loop d h (i + 1) b (pos + 1) (n + 1))" for b
    using i Suc.prems(1,2,4) by (subst suback_write_loop.simps) (simp only: load_bytes_def load_Addr rd legal
        fbind.simps option.case block.case if_True if_False)
  then have "fbind (wr_bytes buf 0 pre) (\<lambda>b. suback_write_loop d h i b pos n) =
      fbind (wr_bytes buf 0 (pre @ [qs ! i])) (\<lambda>b. suback_write_loop d h (Suc i) b (Suc pos) (n + 1))"
    using Suc.prems(7) by (simp add: wr_bytes_seq)
  also have "\<dots> = fbind (wr_bytes buf 0 ((pre @ [qs ! i]) @ drop (Suc i) qs))
      (\<lambda>b. Inr (MQTT_SUCCESS, b, n + 1 + of_nat (length qs - Suc i)))"
    by (rule Suc.hyps(1)) (use Suc i in auto)
  finally show ?case unfolding count by (simp add: drop)
qed

lemma suback_write_message_eq:
  assumes "sd_qos d = Addr a" and "map_of (cells h) a = Some (Bytes bs)" and "take (unat (sd_size d)) bs = qs"
    and "unat (sd_size d) = length qs" and "list_all legal_code qs" and n: "unat n = length enc"
    and room: "3 + length enc + length qs \<le> length buf"
  shows "suback_write_message d h (enc @ tail) n packet_id buf =
     fbind (wr_bytes buf 0 (0x90 # enc @ be16 packet_id @ qs)) (\<lambda>b. Inr (MQTT_SUCCESS, b, 3 + n + of_nat (length qs)))"
proof -
  have "fbind (wr_bytes buf 0 (0x90 # enc @ be16 packet_id)) (\<lambda>b. suback_write_loop d h 0 b (1 + unat n + 2) (1 + n + 2)) =
    fbind (wr_bytes buf 0 ((0x90 # enc @ be16 packet_id) @ drop 0 qs))
      (\<lambda>b. Inr (MQTT_SUCCESS, b, 1 + n + 2 + of_nat (length qs - 0)))"
    by (rule suback_write_loop_eq [OF assms(1-5)]) (use n room in simp_all)
  then show ?thesis
    by (simp add: suback_write_message_def message_type_encode_table rd_bytes_append n mem_of_u16_htons wr_bytes_seq)
qed

lemma suback_message_build_ok:
  fixes qs :: "u8 list" and packet_id :: u16
  defines "msg \<equiv> frame 0x90 (be16 packet_id @ qs)"
  assumes repr: "suback_repr h d qs" and legal: "list_all legal_code qs"
    and room: "length msg \<le> unat n" "length msg \<le> length buf"
  shows "suback_message_build packet_id (Some d) (Some buf) (Some n) h =
     Inr (MQTT_SUCCESS, Some (msg @ drop (length msg) buf), Some (of_nat (length msg)))"
proof -
  from repr obtain a bs where a: "sd_qos d = Addr a" "map_of (cells h) a = Some (Bytes bs)"
    and qs: "unat (sd_size d) = length qs" "take (unat (sd_size d)) bs = qs" by (auto simp: suback_repr_def)
  let ?r = "0 + 2 + ucast (sd_size d) :: u32" and ?v = "length (varint (2 + length qs))"
  have short: "2 + length qs < 268435456" using unat_u16_lt [of "sd_size d"] qs(1) by linarith
  then have vlen: "?v \<le> 4" by (simp add: length_varint_4)
  have vnat: "unat (of_nat ?v :: u32) = ?v" by (rule unat_u32_of_nat) (use vlen in linarith)
  have r: "unat ?r = 2 + length qs" using short qs(1) by (simp add: unat_word_ariths unat_ucast_u16_u32)
  have enc: "remain_length_encode ?r (replicate 4 0) 0 =
      Inr (MQTT_SUCCESS, varint (2 + length qs) @ drop ?v (replicate 4 0), of_nat ?v)"
    using short vlen unfolding remain_length_encode_eq r by (simp add: wr_bytes_at_0)
  have "unat (?r + of_nat ?v + 1) = 2 + length qs + ?v + 1"
    using vlen short by (subst unat_u32_add; subst unat_u32_add) (simp_all only: r vnat, simp_all)
  then have fits: "\<not> n < ?r + of_nat ?v + 1"
    using room(1) by (simp add: word_less_nat_alt msg_def frame_def)
  have sum: "3 + of_nat ?v + of_nat (length qs) = (of_nat (length msg) :: u32)"
    by (simp add: msg_def frame_def algebra_simps)
  have "suback_write_message d h (varint (2 + length qs) @ drop ?v (replicate 4 0)) (of_nat ?v) packet_id buf =
      Inr (MQTT_SUCCESS, msg @ drop (length msg) buf, of_nat (length msg))"
    unfolding suback_write_message_eq [OF a qs(2,1) legal vnat, of buf, unfolded sum] sum [symmetric]
    using room(2)
    by (subst suback_write_message_eq [OF a qs(2,1) legal vnat]) (simp_all add: msg_def frame_def wr_bytes_at_0)
  then show ?thesis
    using enc fits by (simp add: suback_message_build_def Let_def del: drop_replicate)
qed

lemma suback_parse_loop_ok:
  "suback_repr h d qs \<Longrightarrow> drop i p = rs @ tail \<Longrightarrow> unat n = i + length rs \<Longrightarrow> list_all legal_code rs \<Longrightarrow>
   length qs + length rs \<le> 65526 \<Longrightarrow> \<forall>i. \<not> oom h i \<Longrightarrow>
   \<exists>d' h'. suback_parse_loop p n i (Some d) h = Inr (MQTT_SUCCESS, Some d', h') \<and> suback_repr h' d' (qs @ rs) \<and>
     keeps h (sd_qos d) h' (sd_qos d')"
proof (induction rs arbitrary: qs i d h)
  case Nil
  then show ?case by (simp add: suback_parse_loop.simps [of p n i] keeps_refl)
next
  case (Cons r rs)
  have i: "i < unat n" "rd p i = Inr r" "drop (Suc i) p = rs @ tail"
  proof -
    show "i < unat n" using Cons.prems(3) by simp
    have "i < length p" using Cons.prems(2) by (cases "i < length p") auto
    then have "p ! i # drop (Suc i) p = r # rs @ tail" using Cons.prems(2) by (simp add: Cons_nth_drop_Suc)
    with \<open>i < length p\<close> show "rd p i = Inr r" "drop (Suc i) p = rs @ tail" by (simp_all add: rd_def)
  qed
  have legal: "(MQTT_QOS_MAX \<le> r \<and> r \<noteq> MQTT_QOS_REJECT) = False"
    using Cons.prems(4) by (auto simp: legal_code_def)
  have "length qs < 65526" using Cons.prems(5) by simp
  from codes.push [OF Cons.prems(1) this Cons.prems(6), of r] obtain d1 h1
    where one: "suback_data_append (Some d) r h = Inr (MQTT_SUCCESS, Some d1, h1)" "suback_repr h1 d1 (qs @ [r])"
      "keeps h (sd_qos d) h1 (sd_qos d1)" by blast
  have "\<forall>i. \<not> oom h1 i" using one(3) Cons.prems(6) by (simp add: keeps_def)
  from Cons.IH [OF one(2) i(3) _ _ _ this] Cons.prems obtain d2 h2
    where two: "suback_parse_loop p n (Suc i) (Some d1) h1 = Inr (MQTT_SUCCESS, Some d2, h2)" "suback_repr h2 d2 (qs @ r # rs)"
      "keeps h1 (sd_qos d1) h2 (sd_qos d2)" by auto
  have "suback_parse_loop p n i (Some d) h = suback_parse_loop p n (Suc i) (Some d1) h1"
    using i(1,2) legal one(1) by (subst suback_parse_loop.simps) (simp only: fbind.simps if_True if_False prod.case simp_thms Suc_eq_plus1)
  with two keeps_trans [OF one(3) two(3)] show ?case by auto
qed

lemma suback_data_init_repr:
  assumes "heap_ok h" and "\<forall>i. \<not> oom h i"
  shows "\<exists>d' h'. suback_data_init (Some d) c h = (MQTT_SUCCESS, Some d', h') \<and> suback_repr h' d' [] \<and>
     oom h' = oom h \<and> (\<forall>a b. map_of (cells h) a = Some b \<longrightarrow> map_of (cells h') a = Some b \<and> Addr a \<noteq> sd_qos d')"
proof -
  let ?c = "if c = 0 then 10 else c" and ?k = "fresh h"
  let ?h = "h\<lparr>cells := (?k, junk_bytes h (unat ?c)) # cells h, fresh := Suc ?k\<rparr>"
  let ?d = "d\<lparr>sd_capacity := ?c, sd_qos := Addr ?k, sd_size := 0\<rparr>"
  have nonzero: "0 < unat ?c" by (auto simp: unat_gt_0)
  have "heap_ok ?h" using malloc_heap_ok [OF assms(1), of "junk_bytes h (unat ?c)"] assms(2) by (simp add: malloc_def)
  then have "suback_repr ?h ?d []"
    using nonzero unfolding suback_repr_def by (intro conjI exI [of _ ?k]) (auto simp: junk_bytes_def)
  moreover have "suback_data_init (Some d) c h = (MQTT_SUCCESS, Some ?d, ?h)"
    using assms(2) by (simp add: suback_data_init_def malloc_def Let_def)
  moreover have "a \<noteq> ?k" if "map_of (cells h) a = Some b" for a b
    using assms(1) that live_iff [of a h] by (auto simp: heap_ok_def)
  ultimately show ?thesis by (intro exI [of _ ?d] exI [of _ ?h]) auto
qed

text \<open>The parser on a message of the standard: what is left is the array.\<close>

lemma suback_message_parse_frame:
  assumes "length qs \<le> 65526" and n: "unat n = length (frame 0x90 (be16 packet_id @ qs))"
  shows "suback_message_parse (Some (frame 0x90 (be16 packet_id @ qs) @ tail)) n (Some i) (Some d) h =
     (case suback_data_init (Some d) (of_nat (length qs)) h of (ret, data, h) \<Rightarrow>
        if ret \<noteq> MQTT_SUCCESS then Inr (ret, Some packet_id, data, h)
        else fbind (suback_parse_loop (qs @ tail) (of_nat (length qs)) 0 data h) (\<lambda>(ret, data, h).
             Inr (ret, Some packet_id, data, h)))"
proof -
  define body where "body = be16 packet_id @ qs"
  have "length body < 268435456" using assms(1) by (simp add: body_def)
  note header = frame_header [OF this n [folded body_def]]
  have raw: "rd_u16 (body @ tail) = Inr (htons packet_id)" by (simp add: body_def rd_u16_be16)
  have adv: "adv (body @ tail) 2 = Inr (qs @ tail)" by (simp add: body_def adv_append)
  have count2: "of_nat (length body) - 2 = (of_nat (length qs) :: u32)" by (simp add: body_def)
  have count: "(ucast (of_nat (length qs) :: u32) :: u16) = of_nat (length qs)"
    using assms(1) by (simp add: unsigned_of_nat take_bit_nat_eq_self)
  show ?thesis
    unfolding body_def [symmetric] using header raw adv count2 count
    by (simp add: suback_message_parse_def message_type_encode_table frame_def adv_Suc Let_def split_beta)
qed

lemma suback_message_parse_ok:
  assumes legal: "list_all legal_code qs" "length qs \<le> 65526"
    and n: "unat n = length (frame 0x90 (be16 packet_id @ qs))" and h: "heap_ok h" "\<forall>i. \<not> oom h i"
  shows "\<exists>d' h'. suback_message_parse (Some (frame 0x90 (be16 packet_id @ qs) @ tail)) n (Some i) (Some d) h =
       Inr (MQTT_SUCCESS, Some packet_id, Some d', h') \<and> suback_repr h' d' qs \<and>
     (\<forall>a b. map_of (cells h) a = Some b \<longrightarrow> map_of (cells h') a = Some b \<and> Addr a \<noteq> sd_qos d')"
proof -
  obtain d1 h1 where init: "suback_data_init (Some d) (of_nat (length qs)) h = (MQTT_SUCCESS, Some d1, h1)"
    "suback_repr h1 d1 []" "oom h1 = oom h"
    "\<forall>a b. map_of (cells h) a = Some b \<longrightarrow> map_of (cells h1) a = Some b \<and> Addr a \<noteq> sd_qos d1"
    using suback_data_init_repr [OF h] by blast
  have count: "unat (of_nat (length qs) :: u32) = 0 + length qs"
    using legal(2) by (simp add: unat_u32_of_nat)
  have "\<forall>i. \<not> oom h1 i" using init(3) h(2) by simp
  from suback_parse_loop_ok [OF init(2) _ count legal(1) _ this, of "qs @ tail" tail] legal(2) obtain d2 h2
    where loop: "suback_parse_loop (qs @ tail) (of_nat (length qs)) 0 (Some d1) h1 = Inr (MQTT_SUCCESS, Some d2, h2)"
      "suback_repr h2 d2 qs" "keeps h1 (sd_qos d1) h2 (sd_qos d2)" by auto
  have "\<forall>a b. map_of (cells h) a = Some b \<longrightarrow> map_of (cells h2) a = Some b \<and> Addr a \<noteq> sd_qos d2"
    using init(4) loop(3) unfolding keeps_def by blast
  moreover have "suback_message_parse (Some (frame 0x90 (be16 packet_id @ qs) @ tail)) n (Some i) (Some d) h =
      Inr (MQTT_SUCCESS, Some packet_id, Some d2, h2)"
    by (simp add: suback_message_parse_frame [OF legal(2) n] init(1) loop(1))
  ultimately show ?thesis using loop(2) by blast
qed

section \<open>Properties\<close>

text \<open>
  C31. The growing array implements a list. While it holds fewer than 65526 codes and
  allocations succeed, appending a code succeeds and appends it to the list the array stands
  for, whether or not the array has to move to a larger block, and no block of anyone else
  changes.
\<close>

theorem suback_append_refines:
  assumes "suback_repr h d qs" and "length qs < 65526" and "\<forall>i. \<not> oom h i"
  shows "\<exists>d' h'. suback_data_append (Some d) q h = Inr (MQTT_SUCCESS, Some d', h') \<and>
     suback_repr h' d' (qs @ [q]) \<and>
     (\<forall>a b. map_of (cells h) a = Some b \<and> Addr a \<noteq> sd_qos d \<longrightarrow> map_of (cells h') a = Some b \<and> Addr a \<noteq> sd_qos d')"
  using codes.push [OF assms, of q] unfolding keeps_def by blast

theorem suback_append_refines_witness:
  fixes d :: suback_data_t and h :: heap
  defines "d \<equiv> \<lparr>sd_qos = Addr 0, sd_size = 2, sd_capacity = 2\<rparr>"
    and "h \<equiv> \<lparr>cells = [(0, Bytes [1, 2]), (1, Bytes [7])], fresh = 2, oom = \<lambda>_. False, junk = \<lambda>_. 5\<rparr>"
  shows "\<exists>d' h'. suback_data_append (Some d) 0 h = Inr (MQTT_SUCCESS, Some d', h') \<and> suback_repr h' d' ([1, 2] @ [0]) \<and>
     (\<forall>a b. map_of (cells h) a = Some b \<and> Addr a \<noteq> sd_qos d \<longrightarrow> map_of (cells h') a = Some b \<and> Addr a \<noteq> sd_qos d')"
  by (rule suback_append_refines) (auto simp: d_def h_def suback_repr_def heap_ok_def live_def)

text \<open>
  The bound is needed. When a full array has a capacity between 65527 and 65535, the
  new capacity wraps to a number below 10; the array is moved to a block of that size and the
  code is written beyond its end.
\<close>

theorem suback_append_wraps:
  assumes "suback_repr h d qs" and "length qs = unat (sd_capacity d)" and "65527 \<le> length qs" and "\<forall>i. \<not> oom h i"
  shows "suback_data_append (Some d) q h = Inl Out_Of_Bounds"
proof -
  from assms(1) obtain a bs where a: "sd_qos d = Addr a" "map_of (cells h) a = Some (Bytes bs)"
    and bs: "length bs = unat (sd_capacity d)" "length qs = unat (sd_size d)" and ok: "heap_ok h"
    by (auto simp: suback_repr_def)
  have "a < fresh h" using ok a(2) live_iff [of a h] by (auto simp: heap_ok_def)
  then have moved: "realloc (Addr a) n h = Inr (Addr (fresh h), h\<lparr>cells := (fresh h, Bytes (take n bs @ map (junk h) [length bs..<n]))
      # AList.delete a (cells h), fresh := Suc (fresh h)\<rparr>)" if "n \<noteq> 0" for n
    using a assms(4) that by (simp add: realloc_def load_bytes_def load_Addr malloc_def free_def)
  have beyond: "wr (take n bs @ map (junk h) [length bs..<n]) (unat (sd_size d)) q = Inl Out_Of_Bounds"
    if "n < unat (sd_size d)" for n using that by (auto simp: wr_def)
  have "sd_capacity d \<le> sd_size d" using assms(2) bs(2) by (simp add: word_le_nat_alt)
  moreover have "unat (sd_capacity d + 10) = unat (sd_capacity d) + 10 - 65536"
    using assms(2,3) unat_u16_lt [of "sd_capacity d"] by (simp add: unat_word_ariths mod_if del: unat_u16_lt)
  then have "unat (grown (sd_capacity d)) = unat (sd_capacity d) + 10 - 65536"
    using assms(2,3) by (simp add: grown_def word_less_nat_alt)
  moreover have "unat (sd_capacity d) + 10 - 65536 \<noteq> 0" "unat (sd_capacity d) + 10 - 65536 < unat (sd_size d)"
    using assms(2,3) bs(2) unat_u16_lt [of "sd_capacity d"] by linarith+
  ultimately show ?thesis
    using a(1) by (simp only: suback_data_append_full) (simp add: moved suback_store_def load_bytes_def load_Addr beyond
        del: diff_is_0_eq upt_conv_Nil take_all)
qed

theorem suback_append_wraps_witness:
  fixes d :: suback_data_t and h :: heap
  defines "d \<equiv> \<lparr>sd_qos = Addr 0, sd_size = 65530, sd_capacity = 65530\<rparr>"
    and "h \<equiv> \<lparr>cells = [(0, Bytes (replicate 65530 1))], fresh = 1, oom = \<lambda>_. False, junk = \<lambda>_. 5\<rparr>"
  shows "suback_data_append (Some d) 2 h = Inl Out_Of_Bounds"
proof (rule suback_append_wraps [where qs = "replicate 65530 1"])
  show "suback_repr h d (replicate 65530 1)"
    unfolding suback_repr_def
    by (intro conjI exI [of _ 0] exI [of _ "replicate 65530 1"]) (simp_all add: d_def h_def heap_ok_def live_def)
qed (simp_all add: d_def h_def)

text \<open>
  C32. SUBACK messages survive their round trip. For an array that holds any sequence of at most
  65526 legal return codes and any buffer that is large enough, the builder makes the message of
  the standard and touches nothing behind it; from these bytes the parser makes an array with the
  same codes, in a block of its own: every block of the receiver's heap is unchanged.
\<close>

theorem suback_roundtrip:
  assumes "suback_repr h d qs" and "list_all legal_code qs" and "length qs \<le> 65526"
    and "length (frame 0x90 (be16 packet_id @ qs)) \<le> unat n" and "length (frame 0x90 (be16 packet_id @ qs)) \<le> length buf"
    and "heap_ok h2" and "\<forall>i. \<not> oom h2 i"
  shows "\<exists>buf' n' d' h3.
     suback_message_build packet_id (Some d) (Some buf) (Some n) h = Inr (MQTT_SUCCESS, Some buf', Some n') \<and>
     take (unat n') buf' = frame 0x90 (be16 packet_id @ qs) \<and> drop (unat n') buf' = drop (unat n') buf \<and>
     suback_message_parse (Some buf') n' (Some i) (Some d2) h2 = Inr (MQTT_SUCCESS, Some packet_id, Some d', h3) \<and>
     suback_repr h3 d' qs \<and>
     (\<forall>a b. map_of (cells h2) a = Some b \<longrightarrow> map_of (cells h3) a = Some b \<and> Addr a \<noteq> sd_qos d')"
proof -
  let ?msg = "frame 0x90 (be16 packet_id @ qs)"
  have nat: "unat (of_nat (length ?msg) :: u32) = length ?msg"
    using assms(4) unat_u32_lt [of n] by (intro unat_u32_of_nat) linarith
  show ?thesis
    using suback_message_build_ok [OF assms(1,2,4,5)]
      suback_message_parse_ok [OF assms(2,3) nat assms(6,7), of "drop (length ?msg) buf" i d2] nat
    by fastforce
qed

theorem suback_roundtrip_witness:
  fixes d :: suback_data_t and h :: heap
  defines "d \<equiv> \<lparr>sd_qos = Addr 0, sd_size = 3, sd_capacity = 4\<rparr>"
    and "h \<equiv> \<lparr>cells = [(0, Bytes [1, 0x80, 2, 9])], fresh = 1, oom = \<lambda>_. False, junk = \<lambda>_. 5\<rparr>"
  shows "\<exists>buf' n' d' h3.
     suback_message_build 7 (Some d) (Some (replicate 9 0)) (Some 9) h = Inr (MQTT_SUCCESS, Some buf', Some n') \<and>
     take (unat n') buf' = frame 0x90 (be16 7 @ [1, 0x80, 2]) \<and> drop (unat n') buf' = drop (unat n') (replicate 9 0) \<and>
     suback_message_parse (Some buf') n' (Some 0) (Some d) h = Inr (MQTT_SUCCESS, Some 7, Some d', h3) \<and>
     suback_repr h3 d' [1, 0x80, 2] \<and>
     (\<forall>a b. map_of (cells h) a = Some b \<longrightarrow> map_of (cells h3) a = Some b \<and> Addr a \<noteq> sd_qos d')"
  by (rule suback_roundtrip)
    (auto simp: d_def h_def suback_repr_def heap_ok_def live_def legal_code_def frame_def varint_small)

end
