(* ===== verification/Message_Keep.thy ===== *)
theory Message_Keep
  imports Common Memory
begin

text \<open>
  client/message_keep.c: the list of messages that were sent and wait for an answer. A node and
  the copy of its message are blocks of the heap.
\<close>

section \<open>The operations\<close>

definition zero_message :: message_send_t where
  "zero_message = \<lparr>ms_packet_id = 0, ms_message = NULL, ms_len = 0, ms_qos = 0, ms_timestamp = 0, ms_next = NULL\<rparr>"

text \<open>The loop that looks for the end of the list; it does not end on a list with a cycle.\<close>

partial_function (option) last_node :: "link \<Rightarrow> heap \<Rightarrow> link outcome" where
  "last_node cur h =
     (case load_msg cur h of
        Inl e \<Rightarrow> Some (Inl e)
      | Inr n \<Rightarrow> if ms_next n \<noteq> NULL then last_node (ms_next n) h else Some (Inr cur))"

text \<open>\<open>list\<close> is the variable that holds the head; \<open>message\<close> points to the caller's bytes.\<close>

definition message_send_add ::
  "link option \<Rightarrow> u16 \<Rightarrow> u8 list option \<Rightarrow> u32 \<Rightarrow> u8 \<Rightarrow> heap \<Rightarrow> (mqtt_ret \<times> link option \<times> heap) outcome" where
  "message_send_add list packet_id message message_len qos h =
     (case list of
        None \<Rightarrow> Some (Inr (MQTT_INVALID_PARAM, list, h))
      | Some head \<Rightarrow>
          let (node, h) = malloc (Msg zero_message) h
          in if node = NULL then Some (Inr (MQTT_MEMORY_NOBUFFER, list, h))
          else let (copy, h) = malloc (junk_bytes h (unat message_len)) h
          in if copy = NULL then obind (Some (free node h)) (\<lambda>h. Some (Inr (MQTT_MEMORY_NOBUFFER, list, h)))
          else obind (Some (fbind (case message of None \<Rightarrow> (if message_len = 0 then Inr [] else Inl Null_Deref)
                                   | Some p \<Rightarrow> rd_bytes p (unat message_len)) (\<lambda>bytes.
                            fbind (store copy (Bytes bytes) h) (\<lambda>h.
                            store node (Msg (zero_message\<lparr>ms_packet_id := packet_id, ms_message := copy, ms_len := message_len,
                                               ms_qos := qos, ms_next := NULL\<rparr>)) h)))) (\<lambda>h.
               if head = NULL then Some (Inr (MQTT_SUCCESS, Some node, h))
               else obind (last_node head h) (\<lambda>cur.
                    obind (Some (fbind (load_msg cur h) (\<lambda>n. store cur (Msg (n\<lparr>ms_next := node\<rparr>)) h)))
                      (\<lambda>h. Some (Inr (MQTT_SUCCESS, list, h))))))"

text \<open>
  The parameter \<^verbatim>\<open>node\<close> is assigned in the code, but it is passed by value, so
  that the caller learns no more than whether there is such a message.
\<close>

partial_function (option) message_send_find :: "link \<Rightarrow> u16 \<Rightarrow> heap \<Rightarrow> mqtt_ret outcome" where
  "message_send_find cur packet_id h =
     (if cur = NULL then Some (Inr MQTT_UNKNOWN)
      else case load_msg cur h of
        Inl e \<Rightarrow> Some (Inl e)
      | Inr n \<Rightarrow> if ms_packet_id n = packet_id then Some (Inr MQTT_SUCCESS)
                 else message_send_find (ms_next n) packet_id h)"

partial_function (option) message_remove_loop :: "link \<Rightarrow> u16 \<Rightarrow> heap \<Rightarrow> (mqtt_ret \<times> heap) outcome" where
  "message_remove_loop cur packet_id h =
     (case load_msg cur h of
        Inl e \<Rightarrow> Some (Inl e)
      | Inr n \<Rightarrow>
          if ms_next n = NULL then Some (Inr (MQTT_UNKNOWN, h))
          else (case load_msg (ms_next n) h of
              Inl e \<Rightarrow> Some (Inl e)
            | Inr m \<Rightarrow>
                if ms_packet_id m = packet_id
                then Some (fbind (store cur (Msg (n\<lparr>ms_next := ms_next m\<rparr>)) h) (\<lambda>h.
                           fbind (free (ms_next n) h) (\<lambda>h. Inr (MQTT_SUCCESS, h))))
                else message_remove_loop (ms_next n) packet_id h))"

definition message_send_remove :: "link option \<Rightarrow> u16 \<Rightarrow> heap \<Rightarrow> (mqtt_ret \<times> link option \<times> heap) outcome" where
  "message_send_remove list packet_id h =
     (case list of
        None \<Rightarrow> Some (Inr (MQTT_INVALID_PARAM, list, h))
      | Some head \<Rightarrow>
          obind (Some (load_msg head h)) (\<lambda>n.
          if ms_packet_id n = packet_id
          then obind (Some (free head h)) (\<lambda>h. Some (Inr (MQTT_SUCCESS, Some (ms_next n), h)))
          else obind (message_remove_loop head packet_id h) (\<lambda>(ret, h). Some (Inr (ret, list, h)))))"

section \<open>The list as a queue of packets\<close>

text \<open>A packet: its identifier, the bytes of the message and its quality of service.\<close>

type_synonym packet = "u16 \<times> u8 list \<times> u8"

definition msg_link :: "block \<Rightarrow> link" where
  "msg_link b = (case b of Msg n \<Rightarrow> ms_next n | _ \<Rightarrow> NULL)"

lemma msg_link_Msg [simp]: "msg_link (Msg n) = ms_next n"
  by (simp add: msg_link_def)

definition holds :: "heap \<Rightarrow> nat \<Rightarrow> packet \<Rightarrow> bool" where
  "holds h a q \<longleftrightarrow> (\<exists>n. map_of (cells h) a = Some (Msg n) \<and> ms_packet_id n = fst q \<and>
     load_bytes (ms_message n) h = Inr (fst (snd q)) \<and> unat (ms_len n) = length (fst (snd q)) \<and> ms_qos n = snd (snd q) \<and> ms_timestamp n = 0)"

definition send_list :: "heap \<Rightarrow> link \<Rightarrow> nat list \<Rightarrow> packet list \<Rightarrow> bool" where
  "send_list h p as qs \<longleftrightarrow> chain msg_link h p as NULL \<and> distinct as \<and> list_all2 (holds h) as qs"

primrec remove_packet :: "u16 \<Rightarrow> packet list \<Rightarrow> packet list" where
  "remove_packet i [] = []"
| "remove_packet i (q # qs) = (if fst q = i then qs else q # remove_packet i qs)"

lemma send_list_Nil [simp]: "send_list h p [] qs \<longleftrightarrow> p = NULL \<and> qs = []"
  by (auto simp: send_list_def)

lemma send_list_Cons_Nil [simp]: "\<not> send_list h p (a # as) []"
  by (simp add: send_list_def)

lemma send_list_Cons:
  "send_list h p (a # as) (q # qs) \<longleftrightarrow> p = Addr a \<and> a \<notin> set as \<and> holds h a q \<and>
     (\<exists>n. map_of (cells h) a = Some (Msg n) \<and> send_list h (ms_next n) as qs)"
  by (fastforce simp: send_list_def holds_def)

lemma send_list_NULL [simp]: "send_list h NULL as qs \<longleftrightarrow> as = [] \<and> qs = []"
  by (cases as) (auto simp: send_list_def)

lemma send_list_Addr:
  assumes "send_list h p as qs" and "p \<noteq> NULL"
  obtains a bs q rs where "as = a # bs" and "qs = q # rs" and "p = Addr a"
  using assms by (cases as; cases qs) (auto simp: send_list_def)

text \<open>A heap that agrees on the nodes and keeps all byte blocks represents the same queue.\<close>

definition keeps_bytes :: "heap \<Rightarrow> heap \<Rightarrow> bool" where
  "keeps_bytes h h' \<longleftrightarrow> (\<forall>a bs. map_of (cells h) a = Some (Bytes bs) \<longrightarrow> map_of (cells h') a = Some (Bytes bs))"

lemma keeps_bytes_load: "keeps_bytes h h' \<Longrightarrow> load_bytes p h = Inr bs \<Longrightarrow> load_bytes p h' = Inr bs"
  by (auto simp: load_bytes_eq_Inr keeps_bytes_def)

lemma keeps_bytes_trans: "keeps_bytes h h' \<Longrightarrow> keeps_bytes h' h'' \<Longrightarrow> keeps_bytes h h''"
  by (simp add: keeps_bytes_def)

lemma keeps_bytes_update:
  "map_of (cells h) a = Some (Msg m) \<Longrightarrow> keeps_bytes h (h\<lparr>cells := AList.update a b (cells h)\<rparr>)"
  by (auto simp: keeps_bytes_def AList.update_conv')

lemma keeps_bytes_delete:
  "map_of (cells h) a = Some (Msg m) \<Longrightarrow> keeps_bytes h (h\<lparr>cells := AList.delete a (cells h)\<rparr>)"
  by (auto simp: keeps_bytes_def AList.delete_conv')

lemma holds_cong: "holds h a q \<Longrightarrow> map_of (cells h') a = map_of (cells h) a \<Longrightarrow> keeps_bytes h h' \<Longrightarrow> holds h' a q"
  by (auto simp: holds_def keeps_bytes_load)

lemma send_list_cong:
  assumes "send_list h p as qs" and "\<And>a. a \<in> set as \<Longrightarrow> map_of (cells h') a = map_of (cells h) a" and "keeps_bytes h h'"
  shows "send_list h' p as qs"
proof -
  have "list_all2 (holds h') as qs"
    using assms unfolding send_list_def by (auto elim!: list.rel_mono_strong intro: holds_cong)
  then show ?thesis using assms chain_cong [of as h' h] by (simp add: send_list_def)
qed

lemma send_list_holds: "send_list h p as qs \<Longrightarrow> a \<in> set as \<Longrightarrow> \<exists>q \<in> set qs. holds h a q"
  by (fastforce simp: send_list_def list_all2_conv_all_nth in_set_conv_nth)

lemma send_list_length: "send_list h p as qs \<Longrightarrow> length as = length qs"
  by (auto simp: send_list_def list_all2_lengthD)

lemma send_list_live: "send_list h p as qs \<Longrightarrow> a \<in> set as \<Longrightarrow> \<exists>n. map_of (cells h) a = Some (Msg n)"
  using send_list_holds by (fastforce simp: holds_def)

section \<open>Finding\<close>

lemma message_send_find_eq:
  "send_list h p as qs \<Longrightarrow>
   message_send_find p i h = Some (Inr (if i \<in> fst ` set qs then MQTT_SUCCESS else MQTT_UNKNOWN))"
proof (induction as arbitrary: p qs)
  case Nil
  then show ?case by (simp add: message_send_find.simps [of NULL])
next
  case (Cons a as)
  then obtain q rs where qs: "qs = q # rs" by (cases qs) (auto simp: send_list_def)
  with Cons.prems obtain n where n: "p = Addr a" "map_of (cells h) a = Some (Msg n)" "ms_packet_id n = fst q"
    "send_list h (ms_next n) as rs"
    by (auto simp: send_list_Cons holds_def)
  from Cons.IH [OF n(4)] show ?case
    using n by (subst message_send_find.simps) (simp add: load_msg_def load_Addr qs)
qed

section \<open>Adding\<close>

lemma last_node_eq:
  "send_list h p as qs \<Longrightarrow> p \<noteq> NULL \<Longrightarrow> last_node p h = Some (Inr (Addr (last as)))"
proof (induction as arbitrary: p qs)
  case Nil
  then show ?case by simp
next
  case (Cons a as)
  then obtain q rs where qs: "qs = q # rs" by (cases qs) (auto simp: send_list_def)
  with Cons.prems obtain n where n: "p = Addr a" "map_of (cells h) a = Some (Msg n)" "send_list h (ms_next n) as rs"
    by (auto simp: send_list_Cons)
  show ?case
  proof (cases "ms_next n = NULL")
    case True
    with n show ?thesis by (subst last_node.simps) (simp add: load_msg_def load_Addr)
  next
    case False
    with Cons.IH [OF n(3)] n show ?thesis by (subst last_node.simps) (auto simp: load_msg_def load_Addr)
  qed
qed

text \<open>Linking a node that holds a packet behind the last one.\<close>

lemma send_list_link:
  assumes "send_list h p as qs" and "p \<noteq> NULL" and "holds h k q" and "map_of (cells h) k = Some (Msg m)" and "ms_next m = NULL"
    and "k \<notin> set as" and "map_of (cells h) (last as) = Some (Msg n)"
  shows "send_list (h\<lparr>cells := AList.update (last as) (Msg (n\<lparr>ms_next := Addr k\<rparr>)) (cells h)\<rparr>) p (as @ [k]) (qs @ [q])"
  using assms(1,2,6,7)
proof (induction as arbitrary: p qs)
  case Nil
  then show ?case by simp
next
  case (Cons a as)
  then obtain r rs where qs: "qs = r # rs" by (cases qs) (auto simp: send_list_def)
  with Cons.prems obtain n1 where n1: "p = Addr a" "map_of (cells h) a = Some (Msg n1)" "send_list h (ms_next n1) as rs"
    "holds h a r" "a \<notin> set as" by (auto simp: send_list_Cons)
  let ?h = "\<lambda>b. h\<lparr>cells := AList.update b (Msg (n\<lparr>ms_next := Addr k\<rparr>)) (cells h)\<rparr>"
  have kept: "keeps_bytes h (?h b)" if "map_of (cells h) b = Some (Msg n)" for b
    using that by (auto simp: keeps_bytes_def AList.update_conv')
  show ?case
  proof (cases "as = []")
    case True
    then have n: "n1 = n" using n1(2) Cons.prems(4) by simp
    have "holds (?h a) a r"
      using n1(2,4) keeps_bytes_load [OF kept [OF n1(2) [unfolded n]]] n by (auto simp: holds_def AList.update_conv')
    moreover have "holds (?h a) k q"
      using Cons.prems(3) kept [OF n1(2) [unfolded n]] by (intro holds_cong [OF assms(3)]) (auto simp: AList.update_conv')
    ultimately show ?thesis
      using True n1(1,2,3) Cons.prems(3) assms(4,5) qs by (simp add: send_list_Cons AList.update_conv')
  next
    case False
    then have last: "last (a # as) = last as" "last as \<noteq> a" using n1(5) last_in_set by auto
    have b: "map_of (cells h) (last as) = Some (Msg n)" using Cons.prems(4) last(1) by simp
    have "ms_next n1 \<noteq> NULL" using n1(3) False by auto
    then have "send_list (?h (last as)) (ms_next n1) (as @ [k]) (rs @ [q])"
      using Cons.IH [OF n1(3)] Cons.prems(3) b by simp
    moreover have "holds (?h (last as)) a r"
      using n1(4) kept [OF b] last(2) by (intro holds_cong [OF n1(4)]) (auto simp: AList.update_conv')
    ultimately show ?thesis
      using n1 last Cons.prems(3) qs by (simp add: send_list_Cons AList.update_conv')
  qed
qed

text \<open>
  The blocks with the copies of the messages. A block that is neither a node nor a copy can be
  released without harm to the list.
\<close>

definition copies :: "heap \<Rightarrow> nat list \<Rightarrow> nat set" where
  "copies h as = {c. \<exists>a \<in> set as. \<exists>n. map_of (cells h) a = Some (Msg n) \<and> ms_message n = Addr c}"

lemma send_list_delete_other:
  assumes "send_list h p as qs" and "b \<notin> set as" and "b \<notin> copies h as"
  shows "send_list (h\<lparr>cells := AList.delete b (cells h)\<rparr>) p as qs"
proof -
  let ?h = "h\<lparr>cells := AList.delete b (cells h)\<rparr>"
  have "holds ?h a q" if "a \<in> set as" "holds h a q" for a q
    using that assms(2,3) unfolding holds_def load_bytes_eq_Inr copies_def by (fastforce simp: AList.delete_conv')
  then have "list_all2 (holds ?h) as qs"
    using assms(1) unfolding send_list_def by (auto elim!: list.rel_mono_strong)
  then show ?thesis using assms(1) chain_delete_other [OF assms(2)] by (simp add: send_list_def)
qed

lemma copies_delete: "copies (h\<lparr>cells := AList.delete b (cells h)\<rparr>) as \<subseteq> copies h as"
  by (auto simp: copies_def AList.delete_conv' split: if_splits)

lemma copies_cong:
  "(\<And>a. a \<in> set as \<Longrightarrow> map_of (cells h') a = map_of (cells h) a) \<Longrightarrow> copies h' as = copies h as"
  by (auto simp: copies_def)

lemma copies_relink:
  assumes "map_of (cells h) b = Some (Msg m)"
  shows "copies (h\<lparr>cells := AList.update b (Msg (m\<lparr>ms_next := x\<rparr>)) (cells h)\<rparr>) as \<subseteq> copies h as"
proof
  fix c
  assume "c \<in> copies (h\<lparr>cells := AList.update b (Msg (m\<lparr>ms_next := x\<rparr>)) (cells h)\<rparr>) as"
  then obtain a n where n: "a \<in> set as" "ms_message n = Addr c"
    "(if a = b then Some (Msg (m\<lparr>ms_next := x\<rparr>)) else map_of (cells h) a) = Some (Msg n)"
    by (auto simp: copies_def AList.update_conv')
  then have "\<exists>n. map_of (cells h) a = Some (Msg n) \<and> ms_message n = Addr c"
    using assms by (cases "a = b") auto
  with n(1) show "c \<in> copies h as" unfolding copies_def by blast
qed

text \<open>The heap in which the new node and the copy of its message have been filled, before the node is linked.\<close>

definition new_node :: "u16 \<Rightarrow> u32 \<Rightarrow> u8 \<Rightarrow> heap \<Rightarrow> message_send_t" where
  "new_node i n q h = zero_message\<lparr>ms_packet_id := i, ms_message := Addr (Suc (fresh h)), ms_len := n, ms_qos := q, ms_next := NULL\<rparr>"

definition filled :: "u16 \<Rightarrow> u8 list \<Rightarrow> u32 \<Rightarrow> u8 \<Rightarrow> heap \<Rightarrow> heap" where
  "filled i bytes n q h = h\<lparr>cells := (Suc (fresh h), Bytes bytes) # (fresh h, Msg (new_node i n q h)) # cells h,
     fresh := Suc (Suc (fresh h))\<rparr>"

lemma send_list_fresh: "send_list h p as qs \<Longrightarrow> heap_ok h \<Longrightarrow> fresh h \<notin> set as"
  using send_list_live [of h p as qs "fresh h"] heap_ok_fresh [of h] by fastforce

lemma filled_ok:
  assumes as: "send_list h p as qs" and ok: "heap_ok h" and message: "unat n = length bytes"
  shows "heap_ok (filled i bytes n q h)" and "keeps_bytes h (filled i bytes n q h)" and "send_list (filled i bytes n q h) p as qs"
    and "holds (filled i bytes n q h) (fresh h) (i, bytes, q)"
    and "copies (filled i bytes n q h) (as @ [fresh h]) \<subseteq> insert (Suc (fresh h)) (copies h as)"
proof -
  let ?h = "filled i bytes n q h"
  have below: "a < fresh h" if "map_of (cells h) a = Some b" for a b
    using ok that live_iff [of a h] by (auto simp: heap_ok_def)
  show "heap_ok ?h" using ok by (auto simp: heap_ok_def live_def less_Suc_eq filled_def)
  show kept: "keeps_bytes h ?h" using below by (fastforce simp: keeps_bytes_def filled_def)
  have same: "map_of (cells ?h) a = map_of (cells h) a" if "a \<in> set as" for a
    using send_list_live [OF as that] below by (fastforce simp: filled_def)
  show "send_list ?h p as qs" by (rule send_list_cong [OF as same kept])
  show "holds ?h (fresh h) (i, bytes, q)"
    using message by (simp add: holds_def load_bytes_def load_Addr zero_message_def filled_def new_node_def)
  show "copies ?h (as @ [fresh h]) \<subseteq> insert (Suc (fresh h)) (copies h as)"
    using copies_cong [of as ?h h, OF same] by (auto simp: copies_def zero_message_def filled_def new_node_def)
qed

text \<open>What is left of the call then.\<close>

lemma message_send_add_filled:
  assumes "unat n = length bytes" and "\<not> oom h (fresh h)" and "\<not> oom h (Suc (fresh h))"
  shows "message_send_add (Some p) i (Some (bytes @ rest)) n q h =
      (if p = NULL then Some (Inr (MQTT_SUCCESS, Some (Addr (fresh h)), filled i bytes n q h))
       else obind (last_node p (filled i bytes n q h)) (\<lambda>cur.
              obind (Some (fbind (load_msg cur (filled i bytes n q h)) (\<lambda>m.
                store cur (Msg (m\<lparr>ms_next := Addr (fresh h)\<rparr>)) (filled i bytes n q h))))
              (\<lambda>h. Some (Inr (MQTT_SUCCESS, Some p, h)))))"
  using assms
  by (simp add: message_send_add_def malloc_def Let_def rd_bytes_append store_def load_Addr junk_bytes_def filled_def new_node_def)

lemma message_send_add_at:
  assumes as: "send_list h p as qs" and ok: "heap_ok h" and message: "unat n = length bytes"
    and oom: "\<not> oom h (fresh h)" "\<not> oom h (Suc (fresh h))"
  shows "\<exists>p' h'. message_send_add (Some p) i (Some (bytes @ rest)) n q h = Some (Inr (MQTT_SUCCESS, Some p', h')) \<and>
     send_list h' p' (as @ [fresh h]) (qs @ [(i, bytes, q)]) \<and> heap_ok h' \<and> keeps_bytes h h' \<and> oom h' = oom h \<and>
     copies h' (as @ [fresh h]) \<subseteq> insert (Suc (fresh h)) (copies h as) \<and>
     (\<forall>a. a \<notin> set as \<longrightarrow> a < fresh h \<longrightarrow> map_of (cells h') a = map_of (cells h) a)"
proof -
  let ?h = "filled i bytes n q h"
  note f = filled_ok [OF as ok message, of i q] and start = message_send_add_filled [OF message oom, of p i rest q]
  have node: "map_of (cells ?h) (fresh h) = Some (Msg (new_node i n q h))" "ms_next (new_node i n q h) = NULL" "oom ?h = oom h"
    "\<forall>a. a < fresh h \<longrightarrow> map_of (cells ?h) a = map_of (cells h) a"
    by (simp_all add: filled_def new_node_def)
  show ?thesis
  proof (cases "p = NULL")
    case True
    with as have "as = []" "qs = []" by auto
    with True f(4) node have "send_list ?h (Addr (fresh h)) (as @ [fresh h]) (qs @ [(i, bytes, q)])" by (simp add: send_list_Cons)
    then show ?thesis using start True f node by (intro exI [of _ "Addr (fresh h)"] exI [of _ ?h]) simp
  next
    case False
    then have nonempty: "as \<noteq> []" using as by auto
    then obtain m where m: "map_of (cells ?h) (last as) = Some (Msg m)"
      using send_list_live [OF f(3), of "last as"] by auto
    let ?h' = "?h\<lparr>cells := AList.update (last as) (Msg (m\<lparr>ms_next := Addr (fresh h)\<rparr>)) (cells ?h)\<rparr>"
    have "send_list ?h' p (as @ [fresh h]) (qs @ [(i, bytes, q)])"
      by (rule send_list_link [OF f(3) False f(4) node(1,2) send_list_fresh [OF as ok] m])
    moreover have "heap_ok ?h'" using m by (intro heap_ok_update [OF f(1)]) (simp add: live_iff)
    moreover have "keeps_bytes h ?h'" by (rule keeps_bytes_trans [OF f(2) keeps_bytes_update [OF m]])
    moreover have "message_send_add (Some p) i (Some (bytes @ rest)) n q h = Some (Inr (MQTT_SUCCESS, Some p, ?h'))"
      using start False last_node_eq [OF f(3) False] m store_live [OF m]
      by (simp add: load_msg_def load_Addr del: fun_upd_apply)
    moreover have "copies ?h' (as @ [fresh h]) \<subseteq> copies ?h (as @ [fresh h])" by (rule copies_relink [OF m])
    moreover have "\<forall>a. a \<notin> set as \<longrightarrow> a < fresh h \<longrightarrow> map_of (cells ?h') a = map_of (cells h) a"
      using nonempty node(4) by (auto simp: AList.update_conv')
    moreover have "oom ?h' = oom h" by (simp add: node(3))
    ultimately show ?thesis using f(5) by (intro exI [of _ p] exI [of _ ?h']) auto
  qed
qed

text \<open>
  \<open>queue h p qs\<close>: the list at \<open>p\<close> is a queue of the packets \<open>qs\<close> in a well-formed heap.
\<close>

definition queue :: "heap \<Rightarrow> link \<Rightarrow> packet list \<Rightarrow> bool" where
  "queue h p qs \<longleftrightarrow> heap_ok h \<and> (\<exists>as. send_list h p as qs)"

lemma message_send_add_ok:
  assumes "queue h p qs" and "unat n = length bytes" and "\<forall>i. \<not> oom h i"
  shows "\<exists>p' h'. message_send_add (Some p) i (Some (bytes @ rest)) n q h = Some (Inr (MQTT_SUCCESS, Some p', h')) \<and>
     queue h' p' (qs @ [(i, bytes, q)]) \<and> keeps_bytes h h' \<and> oom h' = oom h"
  using assms message_send_add_at [of h p _ qs n bytes i rest q] unfolding queue_def by blast

text \<open>Whatever memory does: the queue has grown by the packet, or it is as it was.\<close>

lemma message_send_add_any:
  assumes as: "send_list h p as qs" and ok: "heap_ok h"
    and add: "message_send_add (Some p) i (Some buf) n q h = Some (Inr (ret, list', h'))"
  shows "\<exists>p' as'. list' = Some p' \<and> heap_ok h' \<and> keeps_bytes h h' \<and> set as' \<union> copies h' as' \<subseteq> {fresh h, Suc (fresh h)} \<union> set as \<union> copies h as \<and>
     send_list h' p' as' (if ret = MQTT_SUCCESS then qs @ [(i, take (unat n) buf, q)] else qs)"
proof -
  let ?k = "fresh h"
  have below: "a < ?k" if "map_of (cells h) a = Some b" for a b
    using ok that live_iff [of a h] by (auto simp: heap_ok_def)
  consider (node) "oom h ?k" | (copy) "\<not> oom h ?k" "oom h (Suc ?k)" | (ok) "\<not> oom h ?k" "\<not> oom h (Suc ?k)" by blast
  then show ?thesis
  proof cases
    case node
    then have "ret = MQTT_MEMORY_NOBUFFER" "list' = Some p" "h' = h\<lparr>fresh := Suc ?k\<rparr>"
      using add by (simp_all add: message_send_add_def malloc_def)
    moreover have "send_list (h\<lparr>fresh := Suc ?k\<rparr>) p as qs" by (rule send_list_cong [OF as]) (simp_all add: keeps_bytes_def)
    moreover have "heap_ok (h\<lparr>fresh := Suc ?k\<rparr>)" using ok by (auto simp: heap_ok_def live_def)
    moreover have "copies (h\<lparr>fresh := Suc ?k\<rparr>) as = copies h as" by (rule copies_cong) simp
    ultimately show ?thesis by (intro exI [of _ p] exI [of _ as]) (auto simp: keeps_bytes_def)
  next
    case copy
    have "AList.delete ?k (cells h) = cells h"
      using heap_ok_fresh [OF ok] by (simp add: AList.delete_id map_of_eq_None_iff)
    then have "ret = MQTT_MEMORY_NOBUFFER" "list' = Some p" "h' = h\<lparr>fresh := Suc (Suc ?k)\<rparr>"
      using add copy by (simp_all add: message_send_add_def malloc_def free_live)
    moreover have "send_list (h\<lparr>fresh := Suc (Suc ?k)\<rparr>) p as qs" by (rule send_list_cong [OF as]) (simp_all add: keeps_bytes_def)
    moreover have "heap_ok (h\<lparr>fresh := Suc (Suc ?k)\<rparr>)" using ok by (auto simp: heap_ok_def live_def)
    moreover have "copies (h\<lparr>fresh := Suc (Suc ?k)\<rparr>) as = copies h as" by (rule copies_cong) simp
    ultimately show ?thesis by (intro exI [of _ p] exI [of _ as]) (auto simp: keeps_bytes_def)
  next
    case ok2: ok
    have long: "unat n \<le> length buf"
    proof (rule ccontr)
      assume "\<not> unat n \<le> length buf"
      with add ok2 show False by (simp add: message_send_add_def malloc_def rd_bytes_def Let_def)
    qed
    define bytes where "bytes = take (unat n) buf"
    have bytes: "unat n = length bytes" "buf = bytes @ drop (unat n) buf" using long by (simp_all add: bytes_def)
    from message_send_add_at [OF as ok bytes(1) ok2, of i "drop (unat n) buf" q] add
    show ?thesis unfolding bytes(2) [symmetric] bytes_def by (auto intro!: exI [of _ "as @ [?k]"])
  qed
qed

section \<open>Removing\<close>

text \<open>
  The packet with the identifier \<open>i\<close> that is taken out is the one at the place \<open>k\<close>, and
  what is left of the nodes.
\<close>

definition taken_at :: "u16 \<Rightarrow> nat \<Rightarrow> packet list \<Rightarrow> bool" where
  "taken_at i k qs \<longleftrightarrow> k < length qs \<and> fst (qs ! k) = i \<and> i \<notin> fst ` set (take k qs)"

fun without :: "u16 \<Rightarrow> packet list \<Rightarrow> nat list \<Rightarrow> nat list" where
  "without i (q # qs) (a # as) = (if fst q = i then as else a # without i qs as)"
| "without i qs as = as"

lemma taken_at_simps [simp]:
  "\<not> taken_at i k []" "taken_at i 0 (q # qs) \<longleftrightarrow> fst q = i"
  "taken_at i (Suc k) (q # qs) \<longleftrightarrow> fst q \<noteq> i \<and> taken_at i k qs"
  by (auto simp: taken_at_def)

lemma without_keeps:
  "length as = length qs \<Longrightarrow> k < length qs \<Longrightarrow> \<not> taken_at i k qs \<Longrightarrow> as ! k \<in> set (without i qs as)"
proof (induction as qs arbitrary: k rule: list_induct2)
  case (Cons a as q qs)
  then show ?case by (cases k) auto
qed simp

lemma without_last:
  "length as = length qs \<Longrightarrow> qs \<noteq> [] \<Longrightarrow> \<not> taken_at i (length qs - 1) qs \<Longrightarrow>
   without i qs as \<noteq> [] \<and> last (without i qs as) = last as"
proof (induction as qs rule: list_induct2)
  case (Cons a as q qs)
  then show ?case by (cases qs; cases as) auto
qed simp

lemma set_without: "set (without i qs as) \<subseteq> set as"
  by (induction i qs as rule: without.induct) auto

text \<open>A node that stays is the last one then if all behind it was the node that went.\<close>

lemma without_new_last:
  "length as = length qs \<Longrightarrow> distinct as \<Longrightarrow> Suc k < length qs \<Longrightarrow> \<not> taken_at i k qs \<Longrightarrow>
   as ! k = last (without i qs as) \<longleftrightarrow> taken_at i (Suc k) qs \<and> Suc (Suc k) = length qs"
proof (induction i qs as arbitrary: k rule: without.induct)
  case (1 i q qs a as)
  show ?case
  proof (cases "fst q = i")
    case True
    with 1(5) obtain j where k: "k = Suc j" by (cases k) auto
    have "as ! j = last as \<longleftrightarrow> j = length as - 1"
      using 1(2-4) k by (subst last_conv_nth) (auto simp: nth_eq_iff_index_eq)
    with True k 1(2,4) show ?thesis by simp
  next
    case False
    let ?w = "without i qs as"
    have w: "set ?w \<subseteq> set as" by (rule set_without)
    show ?thesis
    proof (cases k)
      case 0
      obtain r rs b bs where c: "qs = r # rs" "as = b # bs" using 1(2,4) 0 by (cases qs; cases as) auto
      have "a = last (a # ?w) \<longleftrightarrow> ?w = []" using 1(3) w by (cases "?w = []") (auto dest: last_in_set)
      also have "\<dots> \<longleftrightarrow> fst r = i \<and> rs = []" using 1(2) by (auto simp: c)
      finally show ?thesis using False 0 c by simp
    next
      case (Suc j)
      then have j: "Suc j < length qs" "\<not> taken_at i j qs" "length as = length qs" "distinct as" using 1(2-5) False by simp_all
      then have "as ! j \<in> set ?w" by (intro without_keeps) simp_all
      then have "?w \<noteq> []" by auto
      then show ?thesis using 1(1) [OF False j(3,4,1,2)] False Suc by simp
    qed
  qed
qed simp_all

text \<open>The node behind \<open>a\<close> is taken out of the list and released.\<close>

definition unlinked :: "nat \<Rightarrow> message_send_t \<Rightarrow> nat \<Rightarrow> message_send_t \<Rightarrow> heap \<Rightarrow> heap" where
  "unlinked a n b m h =
     (let cs = AList.update a (Msg (n\<lparr>ms_next := ms_next m\<rparr>)) (cells h) in h\<lparr>cells := AList.delete b cs\<rparr>)"

lemma unlinked_ok:
  assumes as: "send_list h (Addr a) (a # b # bs) (q # r # rs)" and ok: "heap_ok h"
    and n: "map_of (cells h) a = Some (Msg n)" and m: "map_of (cells h) b = Some (Msg m)"
  shows "fbind (store (Addr a) (Msg (n\<lparr>ms_next := ms_next m\<rparr>)) h) (free (Addr b)) = Inr (unlinked a n b m h)"
    and "send_list (unlinked a n b m h) (Addr a) (a # bs) (q # rs)"
    and "heap_ok (unlinked a n b m h)" and "oom (unlinked a n b m h) = oom h" and "keeps_bytes h (unlinked a n b m h)"
    and "b \<notin> live (unlinked a n b m h)"
    and "c \<noteq> a \<Longrightarrow> c \<noteq> b \<Longrightarrow> map_of (cells (unlinked a n b m h)) c = map_of (cells h) c"
proof -
  let ?h1 = "h\<lparr>cells := AList.update a (Msg (n\<lparr>ms_next := ms_next m\<rparr>)) (cells h)\<rparr>" and ?h2 = "unlinked a n b m h"
  from as n m have list: "holds h a q" "a \<noteq> b" "a \<notin> set bs" "b \<notin> set bs" "send_list h (ms_next m) bs rs"
    by (auto simp: send_list_Cons)
  have h2: "?h2 = ?h1\<lparr>cells := AList.delete b (cells ?h1)\<rparr>" by (simp add: unlinked_def Let_def)
  have at_b: "map_of (cells ?h1) b = Some (Msg m)" using m list(2) by (simp add: AList.update_conv')
  show "fbind (store (Addr a) (Msg (n\<lparr>ms_next := ms_next m\<rparr>)) h) (free (Addr b)) = Inr ?h2"
    using store_live [OF n] free_live [OF at_b] by (simp add: unlinked_def Let_def)
  show kept: "keeps_bytes h ?h2"
    unfolding h2 by (rule keeps_bytes_trans [OF keeps_bytes_update [OF n] keeps_bytes_delete [OF at_b]])
  show other: "map_of (cells ?h2) c = map_of (cells h) c" if "c \<noteq> a" "c \<noteq> b" for c
    using that by (simp add: h2 AList.update_conv' AList.delete_conv')
  then have "send_list ?h2 (ms_next m) bs rs"
    using list(3,4) by (intro send_list_cong [OF list(5) _ kept] other) auto
  moreover have at_a: "map_of (cells ?h2) a = Some (Msg (n\<lparr>ms_next := ms_next m\<rparr>))"
    using list(2) by (simp add: h2 AList.update_conv' AList.delete_conv')
  moreover have "holds ?h2 a q"
    using n list(1) at_a keeps_bytes_load [OF kept] by (auto simp: holds_def)
  ultimately show "send_list ?h2 (Addr a) (a # bs) (q # rs)"
    using list(3) by (simp add: send_list_Cons)
  have "a \<in> live h" using n by (simp add: live_iff)
  then show "heap_ok ?h2" using ok unfolding h2 by (intro heap_ok_delete heap_ok_update)
  show "oom ?h2 = oom h" "b \<notin> live ?h2" by (simp_all add: h2 live_iff AList.delete_conv')
qed

lemma message_remove_loop_ok:
  assumes "send_list h (Addr a) (a # as) (q # qs)" and "heap_ok h"
  shows "\<exists>h' as'. message_remove_loop (Addr a) i h =
       Some (Inr (if i \<in> fst ` set qs then MQTT_SUCCESS else MQTT_UNKNOWN, h')) \<and>
     send_list h' (Addr a) (a # as') (q # remove_packet i qs) \<and> set as' \<subseteq> set as \<and> heap_ok h' \<and> oom h' = oom h \<and>
     keeps_bytes h h' \<and> (\<forall>b. b \<notin> set (a # as) \<longrightarrow> map_of (cells h') b = map_of (cells h) b) \<and>
     as' = without i qs as \<and> (\<forall>k. taken_at i k qs \<longrightarrow> as ! k \<notin> live h')"
  using assms
proof (induction as arbitrary: a q qs)
  case Nil
  then obtain n where n: "map_of (cells h) a = Some (Msg n)" "ms_next n = NULL" "qs = []"
    by (auto simp: send_list_Cons)
  then have "message_remove_loop (Addr a) i h = Some (Inr (MQTT_UNKNOWN, h))"
    by (subst message_remove_loop.simps) (simp add: load_msg_def load_Addr)
  with Nil n(3) show ?case by (intro exI [of _ h] exI [of _ "[]"]) (auto simp: keeps_bytes_def)
next
  case (Cons b bs)
  then obtain r rs where qs: "qs = r # rs" by (cases qs) (auto simp: send_list_Cons)
  from Cons.prems obtain n where n: "map_of (cells h) a = Some (Msg n)" "holds h a q" "a \<noteq> b" "a \<notin> set bs"
    and next_b: "send_list h (ms_next n) (b # bs) (r # rs)" by (auto simp: send_list_Cons qs)
  then have b: "ms_next n = Addr b" by (simp add: send_list_Cons)
  from next_b obtain m where m: "map_of (cells h) b = Some (Msg m)" "holds h b r" "b \<notin> set bs"
    and tail: "send_list h (ms_next m) bs rs" by (auto simp: send_list_Cons)
  have id: "ms_packet_id m = fst r" using m(1,2) by (auto simp: holds_def)
  show ?case
  proof (cases "fst r = i")
    case True
    note u = unlinked_ok [OF Cons.prems(1) [unfolded qs] Cons.prems(2) n(1) m(1)]
    let ?h = "unlinked a n b m h"
    have "message_remove_loop (Addr a) i h = Some (Inr (MQTT_SUCCESS, ?h))"
      using n(1) m(1) b id True u(1)
      by (subst message_remove_loop.simps) (auto simp: load_msg_def load_Addr fbind_eq_Inr)
    moreover have "\<forall>k. taken_at i k qs \<longrightarrow> (b # bs) ! k \<notin> live ?h"
      using True u(6) by (auto simp: qs nth_Cons split: nat.splits)
    ultimately show ?thesis
      using True u(2-5,7) by (intro exI [of _ ?h] exI [of _ bs]) (auto simp: qs)
  next
    case False
    have "message_remove_loop (Addr a) i h = message_remove_loop (Addr b) i h"
      using n(1) m(1) b id False by (subst message_remove_loop.simps) (simp add: load_msg_def load_Addr)
    moreover obtain h' bs' where h': "message_remove_loop (Addr b) i h =
         Some (Inr (if i \<in> fst ` set rs then MQTT_SUCCESS else MQTT_UNKNOWN, h'))"
      "send_list h' (Addr b) (b # bs') (r # remove_packet i rs)" "set bs' \<subseteq> set bs" "heap_ok h'" "oom h' = oom h"
      "keeps_bytes h h'" "\<forall>c. c \<notin> set (b # bs) \<longrightarrow> map_of (cells h') c = map_of (cells h) c"
      "bs' = without i rs bs" "\<forall>k. taken_at i k rs \<longrightarrow> bs ! k \<notin> live h'"
      using Cons.IH [OF next_b [unfolded b] Cons.prems(2)] by blast
    moreover have same: "map_of (cells h') a = map_of (cells h) a" using h'(7) n(3,4) by simp
    moreover have "holds h' a q" by (rule holds_cong [OF n(2) same h'(6)])
    moreover have "\<forall>k. taken_at i k qs \<longrightarrow> (b # bs) ! k \<notin> live h'"
      using False h'(9) by (auto simp: qs nth_Cons split: nat.splits)
    ultimately show ?thesis
      using False n b by (intro exI [of _ h'] exI [of _ "b # bs'"]) (auto simp: qs send_list_Cons)
  qed
qed

text \<open>
  The list afterwards uses nodes of the list before and no other; the node of the last packet is
  gone if that packet was taken out, and otherwise it is still the last one.
\<close>

lemma message_send_remove_at:
  assumes as: "send_list h p as qs" "heap_ok h" and nonempty: "qs \<noteq> []"
  shows "\<exists>p' h' as'. message_send_remove (Some p) i h =
       Some (Inr (if i \<in> fst ` set qs then MQTT_SUCCESS else MQTT_UNKNOWN, Some p', h')) \<and>
     send_list h' p' as' (remove_packet i qs) \<and> heap_ok h' \<and> keeps_bytes h h' \<and> oom h' = oom h \<and> set as' \<subseteq> set as \<and>
     (\<forall>b. b \<notin> set as \<longrightarrow> map_of (cells h') b = map_of (cells h) b) \<and>
     as' = without i qs as \<and> (\<forall>k. taken_at i k qs \<longrightarrow> as ! k \<notin> live h')"
proof -
  from as nonempty obtain a bs q rs where c: "as = a # bs" "qs = q # rs" "p = Addr a"
    by (cases as; cases qs) (auto simp: send_list_def)
  with as(1) obtain n where n: "map_of (cells h) a = Some (Msg n)" "holds h a q" "a \<notin> set bs" "send_list h (ms_next n) bs rs"
    by (auto simp: send_list_Cons)
  have id: "ms_packet_id n = fst q" using n(1,2) by (auto simp: holds_def)
  have len: "bs = [] \<longleftrightarrow> rs = []" using send_list_length [OF n(4)] by auto
  show ?thesis
  proof (cases "fst q = i")
    case True
    let ?h = "h\<lparr>cells := AList.delete a (cells h)\<rparr>"
    have "send_list ?h (ms_next n) bs rs"
      by (rule send_list_cong [OF n(4)]) (use n(1,3) keeps_bytes_delete in \<open>auto simp: AList.delete_conv'\<close>)
    moreover have "message_send_remove (Some p) i h = Some (Inr (MQTT_SUCCESS, Some (ms_next n), ?h))"
      using n(1) id True by (simp add: message_send_remove_def c load_msg_def load_Addr free_live)
    moreover have "a \<notin> live ?h" by simp
    then have "\<forall>k. taken_at i k qs \<longrightarrow> as ! k \<notin> live ?h" using True by (auto simp: c nth_Cons split: nat.splits)
    moreover have "map_of (cells ?h) b = map_of (cells h) b" if "b \<noteq> a" for b using that by (simp add: AList.delete_conv')
    ultimately show ?thesis
      using True len heap_ok_delete [OF as(2), of a] keeps_bytes_delete [OF n(1)]
      by (intro exI [of _ "ms_next n"] exI [of _ ?h] exI [of _ bs]) (simp add: c subset_insertI)
  next
    case False
    from message_remove_loop_ok [OF as(1) [unfolded c] as(2), of i] obtain h' as'
      where h': "message_remove_loop (Addr a) i h = Some (Inr (if i \<in> fst ` set rs then MQTT_SUCCESS else MQTT_UNKNOWN, h'))"
        "send_list h' (Addr a) (a # as') (q # remove_packet i rs)" "set as' \<subseteq> set bs" "heap_ok h'" "oom h' = oom h"
        "keeps_bytes h h'" "\<forall>b. b \<notin> set (a # bs) \<longrightarrow> map_of (cells h') b = map_of (cells h) b"
        "as' = without i rs bs" "\<forall>k. taken_at i k rs \<longrightarrow> bs ! k \<notin> live h'" by blast
    have "message_send_remove (Some p) i h =
        Some (Inr (if i \<in> fst ` set rs then MQTT_SUCCESS else MQTT_UNKNOWN, Some p, h'))"
      using n(1) id False h'(1) by (simp add: message_send_remove_def c load_msg_def load_Addr)
    moreover have "\<forall>k. taken_at i k qs \<longrightarrow> as ! k \<notin> live h'"
      using h'(9) False by (auto simp: c nth_Cons split: nat.splits)
    ultimately show ?thesis
      using False h'(2-8) by (intro exI [of _ p] exI [of _ h'] exI [of _ "a # as'"]) (auto simp: c)
  qed
qed

lemma message_send_remove_ok:
  assumes "queue h p qs" and "qs \<noteq> []"
  shows "\<exists>p' h'. message_send_remove (Some p) i h =
       Some (Inr (if i \<in> fst ` set qs then MQTT_SUCCESS else MQTT_UNKNOWN, Some p', h')) \<and>
     queue h' p' (remove_packet i qs) \<and> keeps_bytes h h' \<and> oom h' = oom h"
proof -
  from assms(1) obtain as where "send_list h p as qs" "heap_ok h" by (auto simp: queue_def)
  from message_send_remove_at [OF this assms(2), of i] show ?thesis unfolding queue_def by blast
qed

section \<open>The interface of the queue\<close>

text \<open>What the client needs of the list of sent messages, and what follows from it.\<close>

lemma remove_packet_append_new:
  "i \<notin> fst ` set qs \<Longrightarrow> remove_packet i (qs @ [(i, b, q)]) = qs"
  by (induction qs) auto

lemma remove_packet_absent: "i \<notin> fst ` set qs \<Longrightarrow> remove_packet i qs = qs"
  by (induction qs) auto

locale packet_queue =
  fixes repr :: "heap \<Rightarrow> link \<Rightarrow> packet list \<Rightarrow> bool"
    and add :: "link option \<Rightarrow> u16 \<Rightarrow> u8 list option \<Rightarrow> u32 \<Rightarrow> u8 \<Rightarrow> heap \<Rightarrow> (mqtt_ret \<times> link option \<times> heap) outcome"
    and remove :: "link option \<Rightarrow> u16 \<Rightarrow> heap \<Rightarrow> (mqtt_ret \<times> link option \<times> heap) outcome"
    and find :: "link \<Rightarrow> u16 \<Rightarrow> heap \<Rightarrow> mqtt_ret outcome"
  assumes add: "repr h p qs \<Longrightarrow> unat n = length bytes \<Longrightarrow> \<forall>k. \<not> oom h k \<Longrightarrow>
      \<exists>p' h'. add (Some p) i (Some (bytes @ rest)) n q h = Some (Inr (MQTT_SUCCESS, Some p', h')) \<and>
        repr h' p' (qs @ [(i, bytes, q)]) \<and> oom h' = oom h"
    and remove: "repr h p qs \<Longrightarrow> qs \<noteq> [] \<Longrightarrow>
      \<exists>p' h'. remove (Some p) i h = Some (Inr (if i \<in> fst ` set qs then MQTT_SUCCESS else MQTT_UNKNOWN, Some p', h')) \<and>
        repr h' p' (remove_packet i qs) \<and> oom h' = oom h"
    and find: "repr h p qs \<Longrightarrow> find p i h = Some (Inr (if i \<in> fst ` set qs then MQTT_SUCCESS else MQTT_UNKNOWN))"
begin

lemma add_find:
  assumes "repr h p qs" and "unat n = length bytes" and "\<forall>k. \<not> oom h k"
  shows "\<exists>p' h'. add (Some p) i (Some (bytes @ rest)) n q h = Some (Inr (MQTT_SUCCESS, Some p', h')) \<and>
     find p' i h' = Some (Inr MQTT_SUCCESS)"
proof -
  from add [OF assms, of i rest q] obtain p' h'
    where "add (Some p) i (Some (bytes @ rest)) n q h = Some (Inr (MQTT_SUCCESS, Some p', h'))"
      "repr h' p' (qs @ [(i, bytes, q)])" by blast
  with find [of h' p' "qs @ [(i, bytes, q)]" i] show ?thesis by auto
qed

text \<open>A packet with a new identifier can be taken out again, which leaves the queue as it was.\<close>

lemma add_remove:
  assumes "repr h p qs" and "unat n = length bytes" and "\<forall>k. \<not> oom h k" and "i \<notin> fst ` set qs"
  shows "\<exists>p' h' p'' h''. add (Some p) i (Some (bytes @ rest)) n q h = Some (Inr (MQTT_SUCCESS, Some p', h')) \<and>
     remove (Some p') i h' = Some (Inr (MQTT_SUCCESS, Some p'', h'')) \<and> repr h'' p'' qs \<and>
     find p'' i h'' = Some (Inr MQTT_UNKNOWN)"
proof -
  from add [OF assms(1-3), of i rest q] obtain p' h'
    where 1: "add (Some p) i (Some (bytes @ rest)) n q h = Some (Inr (MQTT_SUCCESS, Some p', h'))"
      "repr h' p' (qs @ [(i, bytes, q)])" by blast
  from remove [OF 1(2), of i] obtain p'' h''
    where 2: "remove (Some p') i h' = Some (Inr (MQTT_SUCCESS, Some p'', h''))" "repr h'' p'' qs"
    using remove_packet_append_new [OF assms(4)] by auto
  from 1 2 find [OF 2(2), of i] assms(4) show ?thesis by auto
qed

end

interpretation sent: packet_queue queue message_send_add message_send_remove message_send_find
proof unfold_locales
  fix h p qs i
  assume "queue h p qs"
  then show "message_send_find p i h = Some (Inr (if i \<in> fst ` set qs then MQTT_SUCCESS else MQTT_UNKNOWN))"
    unfolding queue_def using message_send_find_eq by blast
qed (use message_send_add_ok message_send_remove_ok in blast)+

section \<open>Properties\<close>

text \<open>
  C29. Adding a message appends it. If the list is a queue of packets, the message has the bytes
  its length says and allocations succeed, \<open>message_send_add\<close> returns, with success; the list
  then is the queue with the packet (its identifier, a copy of exactly these bytes, its quality
  of service) at the end, and all byte blocks of the heap are unchanged. A message that was added
  is found.
\<close>

theorem message_send_add_appends:
  assumes "queue h p qs" and "unat n = length bytes" and "\<forall>k. \<not> oom h k"
  shows "\<exists>p' h'. message_send_add (Some p) i (Some (bytes @ rest)) n q h = Some (Inr (MQTT_SUCCESS, Some p', h')) \<and>
     queue h' p' (qs @ [(i, bytes, q)]) \<and> keeps_bytes h h' \<and> message_send_find p' i h' = Some (Inr MQTT_SUCCESS)"
proof -
  from message_send_add_ok [OF assms] obtain p' h'
    where 1: "message_send_add (Some p) i (Some (bytes @ rest)) n q h = Some (Inr (MQTT_SUCCESS, Some p', h'))"
      "queue h' p' (qs @ [(i, bytes, q)])" "keeps_bytes h h'" by blast
  with sent.find [OF 1(2), of i] show ?thesis by auto
qed

theorem message_send_add_appends_witness:
  fixes h :: heap
  defines "h \<equiv> \<lparr>cells = [(0, Msg \<lparr>ms_packet_id = 3, ms_message = Addr 1, ms_len = 1, ms_qos = 1, ms_timestamp = 0, ms_next = NULL\<rparr>),
      (1, Bytes [9])], fresh = 2, oom = \<lambda>_. False, junk = \<lambda>_. 0\<rparr>"
  shows "\<exists>p' h'. message_send_add (Some (Addr 0)) 4 (Some ([7, 8] @ [])) 2 1 h = Some (Inr (MQTT_SUCCESS, Some p', h')) \<and>
     queue h' p' ([(3, [9], 1)] @ [(4, [7, 8], 1)]) \<and> keeps_bytes h h' \<and> message_send_find p' 4 h' = Some (Inr MQTT_SUCCESS)"
proof (rule message_send_add_appends)
  have "send_list h (Addr 0) [0] [(3, [9], 1)]"
    by (simp add: send_list_Cons holds_def h_def load_bytes_def load_Addr)
  then show "queue h (Addr 0) [(3, [9], 1)]" by (auto simp: queue_def h_def heap_ok_def live_def)
qed (simp_all add: h_def)

text \<open>
  C16. Removing a message takes out the first packet with its identifier and no other, wherever
  it is in the list; without such a packet it answers \<^verbatim>\<open>MQTT_UNKNOWN\<close>. The list
  must not be empty: on an empty list the code reads through \<^verbatim>\<open>NULL\<close>.
\<close>

theorem message_send_remove_takes_first:
  assumes "queue h p qs"
  shows "if qs = [] then message_send_remove (Some p) i h = Some (Inl Null_Deref)
     else \<exists>p' h'. message_send_remove (Some p) i h =
         Some (Inr (if i \<in> fst ` set qs then MQTT_SUCCESS else MQTT_UNKNOWN, Some p', h')) \<and>
       queue h' p' (remove_packet i qs) \<and> keeps_bytes h h'"
proof (cases "qs = []")
  case True
  with assms have "p = NULL" by (auto simp: queue_def send_list_def)
  with True show ?thesis by (simp add: message_send_remove_def load_NULL)
next
  case False
  show ?thesis unfolding if_not_P [OF False] using message_send_remove_ok [OF assms False, of i] by blast
qed

theorem message_send_remove_takes_first_witness:
  fixes h :: heap
  defines "h \<equiv> \<lparr>cells = [(0, Msg \<lparr>ms_packet_id = 3, ms_message = Addr 1, ms_len = 1, ms_qos = 1, ms_timestamp = 0, ms_next = Addr 2\<rparr>),
      (1, Bytes [9]), (2, Msg \<lparr>ms_packet_id = 4, ms_message = Addr 1, ms_len = 1, ms_qos = 0, ms_timestamp = 0, ms_next = NULL\<rparr>)],
      fresh = 3, oom = \<lambda>_. False, junk = \<lambda>_. 0\<rparr>"
  shows "if [(3, [9], 1), (4, [9], 0)] = ([] :: packet list) then message_send_remove (Some (Addr 0)) 4 h = Some (Inl Null_Deref)
     else \<exists>p' h'. message_send_remove (Some (Addr 0)) 4 h =
         Some (Inr (if 4 \<in> fst ` set [(3, [9], 1), (4 :: u16, [9 :: u8], 0 :: u8)] then MQTT_SUCCESS else MQTT_UNKNOWN, Some p', h')) \<and>
       queue h' p' (remove_packet 4 [(3, [9], 1), (4, [9], 0)]) \<and> keeps_bytes h h'"
proof (rule message_send_remove_takes_first)
  have "send_list h (Addr 0) [0, 2] [(3, [9], 1), (4, [9], 0)]"
    by (simp add: send_list_Cons holds_def h_def load_bytes_def load_Addr)
  then show "queue h (Addr 0) [(3, [9], 1), (4, [9], 0)]" by (auto simp: queue_def h_def heap_ok_def live_def)
qed

text \<open>
  An acknowledged message leaves no trace in the queue: a packet with an identifier that is
  not in use, added and then removed, is found no more and the queue is the one before, whatever
  it held.
\<close>

theorem message_send_add_remove:
  assumes "queue h p qs" and "unat n = length bytes" and "\<forall>k. \<not> oom h k" and "i \<notin> fst ` set qs"
  shows "\<exists>p' h' p'' h''. message_send_add (Some p) i (Some (bytes @ rest)) n q h = Some (Inr (MQTT_SUCCESS, Some p', h')) \<and>
     message_send_remove (Some p') i h' = Some (Inr (MQTT_SUCCESS, Some p'', h'')) \<and> queue h'' p'' qs \<and>
     message_send_find p'' i h'' = Some (Inr MQTT_UNKNOWN)"
  by (rule sent.add_remove [OF assms])

theorem message_send_add_remove_witness:
  fixes h :: heap
  defines "h \<equiv> \<lparr>cells = [(0, Msg \<lparr>ms_packet_id = 3, ms_message = Addr 1, ms_len = 1, ms_qos = 1, ms_timestamp = 0, ms_next = NULL\<rparr>),
      (1, Bytes [9])], fresh = 2, oom = \<lambda>_. False, junk = \<lambda>_. 0\<rparr>"
  shows "\<exists>p' h' p'' h''. message_send_add (Some (Addr 0)) 4 (Some ([7, 8] @ [])) 2 1 h = Some (Inr (MQTT_SUCCESS, Some p', h')) \<and>
     message_send_remove (Some p') 4 h' = Some (Inr (MQTT_SUCCESS, Some p'', h'')) \<and> queue h'' p'' [(3, [9], 1)] \<and>
     message_send_find p'' 4 h'' = Some (Inr MQTT_UNKNOWN)"
proof (rule message_send_add_remove)
  have "send_list h (Addr 0) [0] [(3, [9], 1)]"
    by (simp add: send_list_Cons holds_def h_def load_bytes_def load_Addr)
  then show "queue h (Addr 0) [(3, [9], 1)]" by (auto simp: queue_def h_def heap_ok_def live_def)
qed (simp_all add: h_def)

end
