(* ===== verification/Network.thy ===== *)
theory Network
  imports Common
begin

text \<open>
  network/network.c on top of the operating system. The system is not part of the repository:
  what it answers is a parameter of the model. An answer may depend on everything that was
  asked before, so each reply function takes the list of the system calls made so far, the
  current one first; a theorem that holds for all reply functions holds for every behaviour of
  the network, the peer and the clock.
\<close>

datatype syscall =
    Socket | Inet_pton "u8 list" | Connect int "u8 list" u16 | Close int
  | Send int "u8 list" | Recv int nat | Set_Timeout int int | Get_Flags int | Set_Flags int int
  | Time | Timer_Create | Timer_Set int int | Timer_Read int
  | Epoll_Create | Epoll_Add int int | Epoll_Wait int | Lock | Unlock | Lock_Init | Thread_Create | Thread_Join int

text \<open>An answer is an error number or a value: a number, the bytes received, or the ready descriptors.\<close>

record os =
  trace :: "syscall list"
  errno :: int
  int_reply :: "syscall list \<Rightarrow> int + int"
  recv_reply :: "syscall list \<Rightarrow> int + u8 list"
  wait_reply :: "syscall list \<Rightarrow> int + int list"

definition call_int :: "syscall \<Rightarrow> os \<Rightarrow> int \<times> os" where
  "call_int c w =
     (let t = c # trace w
      in case int_reply w t of Inl e \<Rightarrow> (-1, w\<lparr>trace := t, errno := e\<rparr>) | Inr v \<Rightarrow> (v, w\<lparr>trace := t\<rparr>))"

abbreviation (input) EAGAIN :: int where "EAGAIN \<equiv> 11"
abbreviation (input) EWOULDBLOCK :: int where "EWOULDBLOCK \<equiv> 11"
abbreviation (input) EINTR :: int where "EINTR \<equiv> 4"
abbreviation (input) O_NONBLOCK :: int where "O_NONBLOCK \<equiv> 2048"

text \<open>The kernel never delivers more bytes than were asked for.\<close>

definition os_ok :: "os \<Rightarrow> bool" where
  "os_ok w \<longleftrightarrow> (\<forall>fd n t bs. recv_reply w (Recv fd n # t) = Inr bs \<longrightarrow> length bs \<le> n)"

section \<open>The operations\<close>

record network_connection_t =
  socket_fd :: int

definition network_connect :: "u8 list \<Rightarrow> u16 \<Rightarrow> network_connection_t \<Rightarrow> os \<Rightarrow> mqtt_ret \<times> network_connection_t \<times> os" where
  "network_connect hostname port conn w =
     (let (fd, w) = call_int Socket w; conn = conn\<lparr>socket_fd := fd\<rparr>
      in if fd < 0 then (MQTT_BROKER_CONNECT_ERROR, conn, w)
         else let (r, w) = call_int (Inet_pton hostname) w
         in if r \<le> 0 then (MQTT_BROKER_HOSTNAME_ERROR, conn, w)
            else let (r, w) = call_int (Connect (socket_fd conn) hostname (htons port)) w
            in if r < 0 then (MQTT_BROKER_CONNECT_ERROR, conn, w) else (MQTT_SUCCESS, conn, w))"

definition network_close :: "network_connection_t \<Rightarrow> os \<Rightarrow> int \<times> os" where
  "network_close conn w = call_int (Close (socket_fd conn)) w"

definition network_send :: "network_connection_t \<Rightarrow> u8 list \<Rightarrow> nat \<Rightarrow> os \<Rightarrow> (int \<times> os) res" where
  "network_send conn buffer len w = fbind (rd_bytes buffer len) (\<lambda>bs. Inr (call_int (Send (socket_fd conn) bs) w))"

text \<open>The bytes received are written to the buffer at \<open>off\<close>.\<close>

definition network_recv :: "network_connection_t \<Rightarrow> u8 list \<Rightarrow> nat \<Rightarrow> nat \<Rightarrow> os \<Rightarrow> (int \<times> u8 list \<times> os) res" where
  "network_recv conn buffer off len w =
     (let t = Recv (socket_fd conn) len # trace w
      in case recv_reply w t of
           Inl e \<Rightarrow> Inr (-1, buffer, w\<lparr>trace := t, errno := e\<rparr>)
         | Inr bs \<Rightarrow> fbind (wr_bytes buffer off bs) (\<lambda>buffer. Inr (int (length bs), buffer, w\<lparr>trace := t\<rparr>)))"

definition network_set_timeout :: "network_connection_t option \<Rightarrow> int \<Rightarrow> os \<Rightarrow> mqtt_ret \<times> os" where
  "network_set_timeout conn seconds w =
     (case conn of
        None \<Rightarrow> (MQTT_INVALID_PARAM, w)
      | Some c \<Rightarrow> (MQTT_SUCCESS, snd (call_int (Set_Timeout (socket_fd c) seconds) w)))"

definition network_clean_timeout :: "network_connection_t option \<Rightarrow> os \<Rightarrow> mqtt_ret \<times> os" where
  "network_clean_timeout conn w = network_set_timeout conn 0 w"

definition network_unblock :: "network_connection_t \<Rightarrow> os \<Rightarrow> int \<times> os" where
  "network_unblock conn w =
     (let (flags, w) = call_int (Get_Flags (socket_fd conn)) w
      in call_int (Set_Flags (socket_fd conn) (flags OR O_NONBLOCK)) w)"

definition network_block :: "network_connection_t \<Rightarrow> os \<Rightarrow> int \<times> os" where
  "network_block conn w =
     (let (flags, w) = call_int (Get_Flags (socket_fd conn)) w
      in call_int (Set_Flags (socket_fd conn) (flags AND NOT O_NONBLOCK)) w)"

section \<open>What the calls change\<close>

lemma call_int_trace [simp]: "trace (snd (call_int c w)) = c # trace w"
  by (simp add: call_int_def Let_def split: sum.split)

lemma call_int_replies [simp]:
  "int_reply (snd (call_int c w)) = int_reply w" "recv_reply (snd (call_int c w)) = recv_reply w"
  "wait_reply (snd (call_int c w)) = wait_reply w"
  by (simp_all add: call_int_def Let_def split: sum.split)

lemma call_int_result: "fst (call_int c w) = (case int_reply w (c # trace w) of Inl e \<Rightarrow> -1 | Inr v \<Rightarrow> v)"
  by (simp add: call_int_def Let_def split: sum.split)

lemma call_int_Inr: "int_reply w (c # trace w) = Inr v \<Longrightarrow> call_int c w = (v, w\<lparr>trace := c # trace w\<rparr>)"
  by (simp add: call_int_def)

lemma network_set_timeout_trace:
  "trace (snd (network_set_timeout (Some c) s w)) = Set_Timeout (socket_fd c) s # trace w"
  "recv_reply (snd (network_set_timeout (Some c) s w)) = recv_reply w"
  "int_reply (snd (network_set_timeout (Some c) s w)) = int_reply w"
  by (simp_all add: network_set_timeout_def)

lemma network_recv_Inr:
  "recv_reply w (Recv (socket_fd c) n # trace w) = Inr bs \<Longrightarrow>
   network_recv c buf off n w =
     fbind (wr_bytes buf off bs) (\<lambda>buf. Inr (int (length bs), buf, w\<lparr>trace := Recv (socket_fd c) n # trace w\<rparr>))"
  by (simp add: network_recv_def)

lemma network_recv_Inl:
  "recv_reply w (Recv (socket_fd c) n # trace w) = Inl e \<Longrightarrow>
   network_recv c buf off n w = Inr (-1, buf, w\<lparr>trace := Recv (socket_fd c) n # trace w, errno := e\<rparr>)"
  by (simp add: network_recv_def)

text \<open>
  A connection is opened by socket, address conversion and connect in this order, each only
  when the one before succeeded, and success means that all three did. When one of them fails
  the socket stays open: no path of \<open>network_connect\<close> closes it.
\<close>

theorem network_connect_calls:
  assumes "network_connect host port conn w = (ret, conn', w')"
  shows "\<exists>fd. fd = socket_fd conn' \<and> fd = fst (call_int Socket w) \<and>
     (trace w' = [Socket] @ trace w \<and> fd < 0 \<and> ret = MQTT_BROKER_CONNECT_ERROR \<or>
      trace w' = [Inet_pton host, Socket] @ trace w \<and> 0 \<le> fd \<and> ret = MQTT_BROKER_HOSTNAME_ERROR \<or>
      trace w' = [Connect fd host (htons port), Inet_pton host, Socket] @ trace w \<and> 0 \<le> fd \<and>
        (ret = MQTT_SUCCESS \<or> ret = MQTT_BROKER_CONNECT_ERROR))"
proof -
  obtain fd w1 where 1: "call_int Socket w = (fd, w1)" by fastforce
  obtain r2 w2 where 2: "call_int (Inet_pton host) w1 = (r2, w2)" by fastforce
  obtain r3 w3 where 3: "call_int (Connect fd host (htons port)) w2 = (r3, w3)" by fastforce
  have traces: "trace w1 = Socket # trace w" "trace w2 = Inet_pton host # trace w1"
    "trace w3 = Connect fd host (htons port) # trace w2"
    using call_int_trace [of Socket w] call_int_trace [of "Inet_pton host" w1]
      call_int_trace [of "Connect fd host (htons port)" w2] 1 2 3 by simp_all
  show ?thesis
    using assms 1 2 3 traces by (auto simp: network_connect_def Let_def split: if_splits)
qed

theorem network_connect_calls_witness:
  fixes w :: os
  defines "w \<equiv> \<lparr>trace = [], errno = 0, int_reply = \<lambda>t. Inr 3, recv_reply = \<lambda>_. Inr [], wait_reply = \<lambda>_. Inr []\<rparr>"
  shows "\<exists>fd. fd = socket_fd \<lparr>socket_fd = 3\<rparr> \<and> fd = fst (call_int Socket w) \<and>
     (trace (w\<lparr>trace := [Connect 3 [49] (htons 1883), Inet_pton [49], Socket]\<rparr>) = [Socket] @ trace w \<and> fd < 0 \<and>
        MQTT_SUCCESS = MQTT_BROKER_CONNECT_ERROR \<or>
      trace (w\<lparr>trace := [Connect 3 [49] (htons 1883), Inet_pton [49], Socket]\<rparr>) = [Inet_pton [49], Socket] @ trace w \<and> 0 \<le> fd \<and>
        MQTT_SUCCESS = MQTT_BROKER_HOSTNAME_ERROR \<or>
      trace (w\<lparr>trace := [Connect 3 [49] (htons 1883), Inet_pton [49], Socket]\<rparr>) =
        [Connect fd [49] (htons 1883), Inet_pton [49], Socket] @ trace w \<and> 0 \<le> fd \<and>
        (MQTT_SUCCESS = MQTT_SUCCESS \<or> MQTT_SUCCESS = MQTT_BROKER_CONNECT_ERROR))"
  by (rule network_connect_calls [where conn = "\<lparr>socket_fd = 0\<rparr>"]) (simp add: network_connect_def w_def call_int_def)

end
