(* ===== verification/Client.thy ===== *)
theory Client
  imports Network Message_Keep Msg_Connect Msg_Connack Msg_Subscribe
begin

text \<open>
  client/client.c: opening a session, subscribing, closing. The global variables of the client
  program (the list of sent messages, the time of the last sign of life, the receive buffer of
  client_deamon.c) are fields of \<open>sys\<close>, with the heap and the operating system.
\<close>

datatype mqtt_client_state = MQTT_CLIENT_STATE_DISCONNECTED | MQTT_CLIENT_STATE_CONNECTED

record mqtt_client_t =
  mc_state :: mqtt_client_state
  mc_conn :: network_connection_t
  mc_keep_alive :: u16
  mc_timeout_sec :: u16
  mc_client_id :: link
  mc_client_id_len :: u16
  mc_sp :: u8
  mc_packet_id_next :: u16

record mqtt_client_config_t =
  cf_hostname :: "u8 list"
  cf_port :: u16
  cf_keep_alive :: u16
  cf_clean_session :: u8
  cf_will_retain :: u8
  cf_will_qos :: u8
  cf_client_id :: "u8 list option"
  cf_client_id_len :: u16
  cf_username :: "u8 list option"
  cf_username_len :: u16
  cf_password :: "u8 list option"
  cf_password_len :: u16
  cf_will_topic :: "u8 list option"
  cf_will_topic_len :: u16
  cf_will_msg :: "u8 list option"
  cf_will_msg_len :: u16

record sys =
  sy_heap :: heap
  sy_os :: os
  sy_keep_alive_timestamp :: int
  sy_send_list :: link
  sy_buffer :: "u8 list"

abbreviation (input) MQTT_CLIENT_CONNECT_RETRY_MAX :: nat where "MQTT_CLIENT_CONNECT_RETRY_MAX \<equiv> 3"
abbreviation (input) MQTT_CLIENT_NETWORK_TIMEOUT :: int where "MQTT_CLIENT_NETWORK_TIMEOUT \<equiv> 5"
abbreviation (input) CONNACK_MESSAGE_LEN :: nat where "CONNACK_MESSAGE_LEN \<equiv> 5"

section \<open>Sending and waiting for the answer\<close>

text \<open>
  One result of the loop: the return code, the answer buffer, \<open>*ack_len\<close> and the system.
  A receive of 0 bytes counts as no attempt, so the loop need not end.
\<close>

type_synonym wait_result = "mqtt_ret \<times> u8 list \<times> u32 \<times> os"

partial_function (option) send_and_wait_loop ::
  "network_connection_t \<Rightarrow> u8 list \<Rightarrow> nat \<Rightarrow> nat \<Rightarrow> u8 list \<Rightarrow> u32 \<Rightarrow> os \<Rightarrow> wait_result outcome" where
  "send_and_wait_loop conn message message_len retry ack_buffer ack_len w =
     (if retry < MQTT_CLIENT_CONNECT_RETRY_MAX then
        (case network_send conn message message_len w of
           Inl e \<Rightarrow> Some (Inl e)
         | Inr (ret, w) \<Rightarrow>
             if ret = -1 then Some (Inr (MQTT_MESSAGE_SEND_ERROR, ack_buffer, ack_len, w))
             else (case network_recv conn ack_buffer 0 (unat ack_len) w of
                 Inl e \<Rightarrow> Some (Inl e)
               | Inr (ret, ack_buffer, w) \<Rightarrow>
                   if 0 < ret then Some (Inr (MQTT_SUCCESS, ack_buffer, of_int ret, w))
                   else if ret < 0
                   then (if errno w = EAGAIN \<or> errno w = EWOULDBLOCK
                         then send_and_wait_loop conn message message_len (retry + 1) ack_buffer ack_len w
                         else Some (Inr (MQTT_CLIENT_CONNECT_ERROR, ack_buffer, ack_len, w)))
                   else send_and_wait_loop conn message message_len retry ack_buffer ack_len w))
      else Some (Inr (MQTT_CLIENT_CONNECT_ERROR, ack_buffer, ack_len, w)))"

definition message_send_and_wait_ack ::
  "network_connection_t \<Rightarrow> u8 list \<Rightarrow> u32 \<Rightarrow> u8 list \<Rightarrow> u32 \<Rightarrow> os \<Rightarrow> wait_result outcome" where
  "message_send_and_wait_ack conn message message_len ack_buffer ack_len w =
     (let (_, w) = network_set_timeout (Some conn) MQTT_CLIENT_NETWORK_TIMEOUT w
      in obind (send_and_wait_loop conn message (unat message_len) 0 ack_buffer ack_len w) (\<lambda>(ret, ack_buffer, ack_len, w).
         Some (Inr (ret, ack_buffer, ack_len, snd (network_clean_timeout (Some conn) w)))))"

section \<open>Opening a session\<close>

definition conn_payload_of :: "mqtt_client_config_t \<Rightarrow> u8 list option connect_payload_t" where
  "conn_payload_of c =
     \<lparr>cp_client_id_len = cf_client_id_len c, cp_client_id = cf_client_id c,
      cp_will_topic_len = cf_will_topic_len c, cp_will_topic = cf_will_topic c,
      cp_will_msg_len = cf_will_msg_len c, cp_will_msg = cf_will_msg c,
      cp_username_len = cf_username_len c, cp_username = cf_username c,
      cp_password_len = cf_password_len c, cp_password = cf_password c\<rparr>"

text \<open>The steps after an accepting answer, up to the state change.\<close>

definition connect_established ::
  "mqtt_client_t \<Rightarrow> mqtt_client_config_t \<Rightarrow> sys \<Rightarrow> (mqtt_client_t \<times> sys) res" where
  "connect_established client config s =
     (let client = client\<lparr>mc_keep_alive := cf_keep_alive config\<rparr>;
          (now, w) = call_int Time (sy_os s);
          s = s\<lparr>sy_os := w, sy_keep_alive_timestamp := now\<rparr>;
          (p, h) = malloc (junk_bytes (sy_heap s) (unat (cf_client_id_len config))) (sy_heap s);
          client = client\<lparr>mc_client_id := p\<rparr>
      in fbind (rd_ptr (cf_client_id config) (unat (cf_client_id_len config))) (\<lambda>bytes.
         fbind (store p (Bytes bytes) h) (\<lambda>h.
         Inr (client\<lparr>mc_client_id_len := cf_client_id_len config, mc_packet_id_next := 1,
                     mc_state := MQTT_CLIENT_STATE_CONNECTED\<rparr>, s\<lparr>sy_heap := h\<rparr>))))"

text \<open>
  What happens between the allocation of the message, of \<open>n\<close> bytes at \<open>msg\<close>, and its
  release. \<open>junk_len\<close> is the unassigned local of \<^verbatim>\<open>connack_message_parse\<close>.
\<close>

definition connect_exchange ::
  "u32 \<Rightarrow> link \<Rightarrow> u32 \<Rightarrow> mqtt_client_t \<Rightarrow> mqtt_client_config_t \<Rightarrow> sys \<Rightarrow> (mqtt_ret \<times> mqtt_client_t \<times> sys) outcome" where
  "connect_exchange junk_len msg n client config s =
     obind (Some (fbind (load_bytes msg (sy_heap s)) (\<lambda>buf.
                  fbind (connect_message_build (conn_payload_of config) (cf_keep_alive config) (cf_clean_session config)
                           (cf_will_retain config) (cf_will_qos config) buf n (sy_heap s)) (\<lambda>(ret, buf, n, h).
                  fbind (store msg (Bytes buf) h) (\<lambda>h. Inr (ret, buf, n, s\<lparr>sy_heap := h\<rparr>)))))) (\<lambda>(ret, buf, n, s).
     if ret \<noteq> MQTT_SUCCESS then Some (Inr (ret, client, s))
     else obind (message_send_and_wait_ack (mc_conn client) buf n (replicate CONNACK_MESSAGE_LEN 0)
                   (of_nat CONNACK_MESSAGE_LEN) (sy_os s)) (\<lambda>(ret, connack_message, ack_len, w).
     let s = s\<lparr>sy_os := w\<rparr>
     in if ret \<noteq> MQTT_SUCCESS then Some (Inr (ret, client, s))
        else obind (Some (connack_message_parse junk_len (Some connack_message) ack_len (Some 0) (Some (mc_sp client))))
               (\<lambda>(ret, connack_code, sp).
             let client = client\<lparr>mc_sp := the sp\<rparr>
             in if ret \<noteq> MQTT_SUCCESS then Some (Inr (ret, client, s))
                else if connack_code \<noteq> Some (connack_value MQTT_CONNACK_ACCEPTED) then Some (Inr (MQTT_CLIENT_CONNECT_ERROR, client, s))
                else obind (Some (connect_established client config s)) (\<lambda>(client, s).
                     Some (Inr (MQTT_SUCCESS, client, s))))))"

definition connect_message_send ::
  "u32 \<Rightarrow> mqtt_client_t \<Rightarrow> mqtt_client_config_t \<Rightarrow> sys \<Rightarrow>
   (mqtt_ret \<times> mqtt_client_t \<times> mqtt_client_config_t \<times> sys) outcome" where
  "connect_message_send junk_len client config s =
     (let config = (if cf_keep_alive config = 0 then config\<lparr>cf_keep_alive := 60\<rparr> else config);
          (_, n) = connect_message_len_calc (conn_payload_of config) (cf_keep_alive config) (cf_clean_session config)
                     (cf_will_retain config) (cf_will_qos config);
          (msg, h) = malloc (junk_bytes (sy_heap s) (unat n)) (sy_heap s);
          s = s\<lparr>sy_heap := h\<rparr>
      in if msg = NULL then Some (Inr (MQTT_MEMORY_NOBUFFER, client, config, s))
         else obind (connect_exchange junk_len msg n client config s) (\<lambda>(ret, client, s).
              obind (Some (free msg (sy_heap s))) (\<lambda>h.
              Some (Inr (ret, client, config, s\<lparr>sy_heap := h\<rparr>)))))"

text \<open>There is no return before the label \<^verbatim>\<open>disconnect\<close>: a success runs into it too.\<close>

definition mqtt_client_create ::
  "u32 \<Rightarrow> mqtt_client_t option \<Rightarrow> mqtt_client_config_t option \<Rightarrow> sys \<Rightarrow>
   (mqtt_ret \<times> mqtt_client_t option \<times> mqtt_client_config_t option \<times> sys) outcome" where
  "mqtt_client_create junk_len client config s =
     (case (client, config) of
        (Some cl, Some cf) \<Rightarrow>
          let (ret, conn, w) = network_connect (cf_hostname cf) (cf_port cf) (mc_conn cl) (sy_os s);
              cl = cl\<lparr>mc_conn := conn\<rparr>; s = s\<lparr>sy_os := w\<rparr>
          in if ret \<noteq> MQTT_SUCCESS then Some (Inr (ret, Some cl, config, s))
             else obind (connect_message_send junk_len cl cf s) (\<lambda>(ret, cl, cf, s).
                  let (_, w) = network_close (mc_conn cl) (sy_os s)
                  in Some (Inr (ret, Some (cl\<lparr>mc_conn := \<lparr>socket_fd = 0\<rparr>\<rparr>), Some cf, s\<lparr>sy_os := w\<rparr>)))
      | _ \<Rightarrow> Some (Inr (MQTT_INVALID_PARAM, client, config, s)))"

section \<open>Subscribing, publishing and closing\<close>

text \<open>
  The filter is a local variable: a block that is always available and vanishes at the return.
  The message is released at the end on every path, after its copy was put in the list.
\<close>

definition local_filter :: "topic_filter_t \<Rightarrow> heap \<Rightarrow> link \<times> heap" where
  "local_filter f h = (Addr (fresh h), h\<lparr>cells := (fresh h, Filter f) # cells h, fresh := Suc (fresh h)\<rparr>)"

definition subscribe_exchange ::
  "link \<Rightarrow> link \<Rightarrow> u32 \<Rightarrow> u8 \<Rightarrow> mqtt_client_t \<Rightarrow> sys \<Rightarrow> (mqtt_ret \<times> mqtt_client_t \<times> sys) outcome" where
  "subscribe_exchange flt msg n qos client s =
     obind (Some (load_bytes msg (sy_heap s))) (\<lambda>buf.
     obind (subscribe_message_build (mc_packet_id_next client) flt (Some buf) (Some n) (sy_heap s)) (\<lambda>(ret, buf, n).
     obind (Some (fbind (deref buf) (\<lambda>buf. fbind (deref n) (\<lambda>n.
                  fbind (store msg (Bytes buf) (sy_heap s)) (\<lambda>h. Inr (buf, n, s\<lparr>sy_heap := h\<rparr>)))))) (\<lambda>(buf, n, s).
     if ret \<noteq> MQTT_SUCCESS then Some (Inr (ret, client, s))
     else obind (Some (network_send (mc_conn client) buf (unat n) (sy_os s))) (\<lambda>(r, w).
          let s = s\<lparr>sy_os := w\<rparr>
          in if r < 0 then Some (Inr (MQTT_MESSAGE_SEND_ERROR, client, s))
             else obind (message_send_add (Some (sy_send_list s)) (mc_packet_id_next client) (Some buf) n qos (sy_heap s))
                    (\<lambda>(ret, list, h).
                  let s = s\<lparr>sy_heap := h, sy_send_list := the list\<rparr>
                  in if ret \<noteq> MQTT_SUCCESS then Some (Inr (MQTT_MEMORY_NOBUFFER, client, s))
                     else let next_id = mc_packet_id_next client + 1
                          in Some (Inr (MQTT_SUCCESS,
                               client\<lparr>mc_packet_id_next := (if next_id = 0 then 1 else next_id)\<rparr>, s)))))))"

definition mqtt_client_subscribe ::
  "mqtt_client_t option \<Rightarrow> u8 list option \<Rightarrow> u16 \<Rightarrow> u8 \<Rightarrow> sys \<Rightarrow> (mqtt_ret \<times> mqtt_client_t option \<times> sys) outcome" where
  "mqtt_client_subscribe client topic topic_len qos s =
     (case client of
        None \<Rightarrow> Some (Inr (MQTT_INVALID_PARAM, client, s))
      | Some cl \<Rightarrow>
          if topic = None \<or> topic_len = 0 then Some (Inr (MQTT_INVALID_PARAM, client, s))
          else let f = \<lparr>tf_topic = topic, tf_len = topic_len, tf_qos = qos, tf_next = NULL\<rparr>;
                   (flt, h) = local_filter f (sy_heap s)
          in obind (subscribe_message_len_calc flt (Some 0) h) (\<lambda>(_, n). let n = the n
          in case malloc (junk_bytes h (unat n)) h of (msg, h) \<Rightarrow>
             if msg = NULL
             then obind (Some (free flt h)) (\<lambda>h. Some (Inr (MQTT_MEMORY_NOBUFFER, client, s\<lparr>sy_heap := h\<rparr>)))
             else obind (subscribe_exchange flt msg n qos cl (s\<lparr>sy_heap := h\<rparr>)) (\<lambda>(ret, cl, s).
                  obind (Some (fbind (free msg (sy_heap s)) (free flt))) (\<lambda>h.
                  Some (Inr (ret, Some cl, s\<lparr>sy_heap := h\<rparr>))))))"

text \<open>Publishing is not written yet in the source: after its checks it reports success.\<close>

definition mqtt_client_publish ::
  "mqtt_client_t option \<Rightarrow> u8 list option \<Rightarrow> u16 \<Rightarrow> u8 list option \<Rightarrow> u32 \<Rightarrow> u8 \<Rightarrow> sys \<Rightarrow> mqtt_ret \<times> sys" where
  "mqtt_client_publish client topic topic_len payload payload_len qos s =
     (if client = None \<or> topic = None \<or> topic_len = 0 \<or> payload = None \<or> payload_len = 0 then (MQTT_INVALID_PARAM, s)
      else if qos \<noteq> 0 then (MQTT_PUBLISH_QOS_ERROR, s)
      else (MQTT_SUCCESS, s))"

definition mqtt_client_destroy :: "mqtt_client_t \<Rightarrow> sys \<Rightarrow> (int \<times> mqtt_client_t \<times> sys) res" where
  "mqtt_client_destroy client s =
     fbind (if 0 < mc_client_id_len client \<and> mc_client_id client \<noteq> NULL
            then fbind (free (mc_client_id client) (sy_heap s)) (\<lambda>h. Inr (client\<lparr>mc_client_id := NULL\<rparr>, s\<lparr>sy_heap := h\<rparr>))
            else Inr (client, s)) (\<lambda>(client, s).
     let (r, w) = network_close (mc_conn client) (sy_os s)
     in Inr (r, client, s\<lparr>sy_os := w\<rparr>))"

section \<open>Lemmas: waiting for the answer\<close>

lemma network_send_eq: "n \<le> length m \<Longrightarrow> network_send c m n w = Inr (call_int (Send (socket_fd c) (take n m)) w)"
  by (simp add: network_send_def rd_bytes_def)

lemma send_and_wait_loop_answered:
  assumes "n \<le> length m" and "retry < 3" and "length bs \<le> length ack" and "bs \<noteq> []" and "v \<noteq> -1"
    and "int_reply w (Send (socket_fd c) (take n m) # trace w) = Inr v"
    and "recv_reply w (Recv (socket_fd c) (unat k) # Send (socket_fd c) (take n m) # trace w) = Inr bs"
  shows "send_and_wait_loop c m n retry ack k w =
     Some (Inr (MQTT_SUCCESS, bs @ drop (length bs) ack, of_nat (length bs),
       w\<lparr>trace := Recv (socket_fd c) (unat k) # Send (socket_fd c) (take n m) # trace w\<rparr>))"
proof -
  let ?w = "w\<lparr>trace := Send (socket_fd c) (take n m) # trace w\<rparr>"
  have send: "network_send c m n w = Inr (v, ?w)"
    using assms(1,6) by (simp add: network_send_eq call_int_Inr)
  have "network_recv c ack 0 (unat k) ?w = Inr (int (length bs), bs @ drop (length bs) ack,
      w\<lparr>trace := Recv (socket_fd c) (unat k) # Send (socket_fd c) (take n m) # trace w\<rparr>)"
    using assms(3,7) by (simp add: network_recv_def wr_bytes_at_0)
  with send assms(2,4,5) show ?thesis by (subst send_and_wait_loop.simps) simp
qed

lemma message_send_and_wait_ack_answered:
  fixes c :: network_connection_t and w :: os and m ack bs :: "u8 list" and n k :: u32
  defines "fd \<equiv> socket_fd c"
  defines "t \<equiv> Recv fd (unat k) # Send fd (take (unat n) m) # Set_Timeout fd 5 # trace w"
  assumes "unat n \<le> length m" and "length bs \<le> length ack" and "bs \<noteq> []" and "v \<noteq> -1"
    and "int_reply w (Send fd (take (unat n) m) # Set_Timeout fd 5 # trace w) = Inr v" and "recv_reply w t = Inr bs"
  shows "\<exists>w'. message_send_and_wait_ack c m n ack k w =
       Some (Inr (MQTT_SUCCESS, bs @ drop (length bs) ack, of_nat (length bs), w')) \<and>
     trace w' = Set_Timeout fd 0 # t \<and> int_reply w' = int_reply w \<and> recv_reply w' = recv_reply w"
proof -
  let ?w = "snd (network_set_timeout (Some c) 5 w)"
  have "send_and_wait_loop c m (unat n) 0 ack k ?w = Some (Inr (MQTT_SUCCESS, bs @ drop (length bs) ack, of_nat (length bs),
      ?w\<lparr>trace := t\<rparr>))"
    using send_and_wait_loop_answered [of "unat n" m 0 bs ack v ?w c k] assms
    by (simp add: network_set_timeout_trace)
  then show ?thesis
    by (simp add: message_send_and_wait_ack_def network_clean_timeout_def network_set_timeout_trace
        split_beta fd_def)
qed

text \<open>How often a message was sent.\<close>

fun sends :: "syscall list \<Rightarrow> (int \<times> u8 list) list" where
  "sends [] = []"
| "sends (Send fd bs # t) = (fd, bs) # sends t"
| "sends (_ # t) = sends t"

lemma sends_call_int:
  "sends (trace (snd (call_int c w))) = (case c of Send fd bs \<Rightarrow> (fd, bs) # sends (trace w) | _ \<Rightarrow> sends (trace w))"
  by (cases c) (simp_all)

lemma network_recv_result:
  assumes "os_ok w" and "n \<le> length buf"
  shows "\<exists>r buf' w'. network_recv c buf 0 n w = Inr (r, buf', w') \<and> length buf' = length buf \<and> r \<le> int n \<and>
     trace w' = Recv (socket_fd c) n # trace w \<and> int_reply w' = int_reply w \<and> recv_reply w' = recv_reply w \<and>
     (recv_reply w (trace w') = Inr [] \<longleftrightarrow> r = 0)"
proof (cases "recv_reply w (Recv (socket_fd c) n # trace w)")
  case (Inl e)
  then show ?thesis by (simp add: network_recv_Inl)
next
  case (Inr bs)
  then have "length bs \<le> n" using assms(1) by (simp add: os_ok_def)
  then show ?thesis
    using assms(2) by (simp add: network_recv_Inr [OF Inr] wr_bytes_at_0 Inr)
qed

text \<open>The first of the two: one turn of the loop, as a case distinction on the answers.\<close>

lemma send_and_wait_loop_turn:
  assumes "os_ok w" and "n \<le> length m" and "unat k \<le> length ack" and "retry < 3"
  shows "\<exists>r ack' w'. length ack' = length ack \<and> int_reply w' = int_reply w \<and> recv_reply w' = recv_reply w \<and>
     sends (trace w') = (socket_fd c, take n m) # sends (trace w) \<and>
     (send_and_wait_loop c m n retry ack k w = Some (Inr (MQTT_MESSAGE_SEND_ERROR, ack', k, w')) \<or>
      send_and_wait_loop c m n retry ack k w = Some (Inr (MQTT_CLIENT_CONNECT_ERROR, ack', k, w')) \<or>
      0 < r \<and> r \<le> int (unat k) \<and> send_and_wait_loop c m n retry ack k w = Some (Inr (MQTT_SUCCESS, ack', of_int r, w')) \<or>
      send_and_wait_loop c m n retry ack k w = send_and_wait_loop c m n (retry + 1) ack' k w' \<or>
      (\<exists>t. recv_reply w t = Inr []) \<and>
        send_and_wait_loop c m n retry ack k w = send_and_wait_loop c m n retry ack' k w')"
proof -
  obtain v w1 where send: "call_int (Send (socket_fd c) (take n m)) w = (v, w1)" by fastforce
  then have w1: "w1 = snd (call_int (Send (socket_fd c) (take n m)) w)" by simp
  then have w1': "int_reply w1 = int_reply w" "recv_reply w1 = recv_reply w"
    "sends (trace w1) = (socket_fd c, take n m) # sends (trace w)" by (simp_all add: sends_call_int)
  have net: "network_send c m n w = Inr (v, w1)" using send assms(2) by (simp add: network_send_eq)
  show ?thesis
  proof (cases "v = -1")
    case True
    then have "send_and_wait_loop c m n retry ack k w = Some (Inr (MQTT_MESSAGE_SEND_ERROR, ack, k, w1))"
      using net assms(4) by (subst send_and_wait_loop.simps) simp
    with w1' show ?thesis by blast
  next
    case False
    have "os_ok w1" using assms(1) w1'(2) by (simp add: os_ok_def)
    from network_recv_result [OF this assms(3), of c] obtain r ack' w'
      where recv: "network_recv c ack 0 (unat k) w1 = Inr (r, ack', w')" and len: "length ack' = length ack"
        and r: "r \<le> int (unat k)" and w': "trace w' = Recv (socket_fd c) (unat k) # trace w1"
          "int_reply w' = int_reply w1" "recv_reply w' = recv_reply w1" "recv_reply w1 (trace w') = Inr [] \<longleftrightarrow> r = 0"
      by blast
    have "send_and_wait_loop c m n retry ack k w =
       (if 0 < r then Some (Inr (MQTT_SUCCESS, ack', of_int r, w'))
        else if r < 0
        then (if errno w' = EAGAIN \<or> errno w' = EWOULDBLOCK then send_and_wait_loop c m n (retry + 1) ack' k w'
              else Some (Inr (MQTT_CLIENT_CONNECT_ERROR, ack', k, w')))
        else send_and_wait_loop c m n retry ack' k w')"
      using net recv False assms(4) by (subst send_and_wait_loop.simps) simp
    moreover have "r = 0 \<Longrightarrow> \<exists>t. recv_reply w t = Inr []" using w'(4) w1'(2) by auto
    moreover have "sends (trace w') = (socket_fd c, take n m) # sends (trace w)" using w' w1' by simp
    moreover have "int_reply w' = int_reply w" "recv_reply w' = recv_reply w" using w' w1' by simp_all
    ultimately show ?thesis using len r
      by (intro exI [of _ r] exI [of _ ack'] exI [of _ w']) (auto split: if_splits)
  qed
qed

text \<open>What holds of a call that returned: at most \<open>limit\<close> sends, one of three results, a buffer of the old size.\<close>

definition settled ::
  "network_connection_t \<Rightarrow> u8 list \<Rightarrow> nat \<Rightarrow> u32 \<Rightarrow> os \<Rightarrow> nat \<Rightarrow> mqtt_ret \<Rightarrow> u8 list \<Rightarrow> u32 \<Rightarrow> os \<Rightarrow> bool" where
  "settled c bs len k w limit ret ack' k' w' \<longleftrightarrow>
     (\<exists>j \<le> limit. sends (trace w') = replicate j (socket_fd c, bs) @ sends (trace w)) \<and>
     length ack' = len \<and> unat k' \<le> unat k \<and>
     (ret = MQTT_SUCCESS \<and> 0 < unat k' \<or> ret = MQTT_MESSAGE_SEND_ERROR \<or> ret = MQTT_CLIENT_CONNECT_ERROR)"

lemma settled_none:
  "length ack = len \<Longrightarrow> settled c bs len k w limit MQTT_CLIENT_CONNECT_ERROR ack k w"
  unfolding settled_def by (auto intro: exI [of _ 0])

lemma settled_one:
  assumes "sends (trace w') = (socket_fd c, bs) # sends (trace w)" and "1 \<le> limit" and "length ack' = len" and "unat k' \<le> unat k"
    and "ret = MQTT_SUCCESS \<and> 0 < unat k' \<or> ret = MQTT_MESSAGE_SEND_ERROR \<or> ret = MQTT_CLIENT_CONNECT_ERROR"
  shows "settled c bs len k w limit ret ack' k' w'"
  using assms unfolding settled_def by (auto intro!: exI [of _ 1])

lemma settled_more:
  assumes "settled c bs len k w' limit ret ack' k' w''" and "sends (trace w') = (socket_fd c, bs) # sends (trace w)"
  shows "settled c bs len k w (Suc limit) ret ack' k' w''"
proof -
  from assms(1) obtain j where "j \<le> limit" "sends (trace w'') = replicate j (socket_fd c, bs) @ sends (trace w')"
    unfolding settled_def by blast
  with assms(2) have "Suc j \<le> Suc limit \<and> sends (trace w'') = replicate (Suc j) (socket_fd c, bs) @ sends (trace w)"
    by (simp add: replicate_app_Cons_same)
  with assms(1) show ?thesis unfolding settled_def by blast
qed

lemma unat_of_int_u32: "0 < r \<Longrightarrow> r \<le> int (unat (k :: u32)) \<Longrightarrow> unat (of_int r :: u32) = nat r"
proof -
  assume "0 < r" "r \<le> int (unat k)"
  then have "nat r \<le> unat k" by (simp only: nat_le_iff)
  then have "unat (of_nat (nat r) :: u32) = nat r"
    using unat_u32_lt [of k] by (intro unat_u32_of_nat) linarith
  with \<open>0 < r\<close> show ?thesis by (simp add: of_nat_nat)
qed

lemma send_and_wait_loop_bounded:
  assumes "os_ok w" and "\<forall>t. recv_reply w t \<noteq> Inr []" and "n \<le> length m" and "unat k \<le> length ack" and "retry \<le> 3"
  shows "\<exists>ret ack' k' w'. send_and_wait_loop c m n retry ack k w = Some (Inr (ret, ack', k', w')) \<and>
     settled c (take n m) (length ack) k w (3 - retry) ret ack' k' w'"
  using assms
proof (induction "3 - retry" arbitrary: retry ack w)
  case 0
  then have "send_and_wait_loop c m n retry ack k w = Some (Inr (MQTT_CLIENT_CONNECT_ERROR, ack, k, w))"
    by (subst send_and_wait_loop.simps) simp
  with settled_none show ?case by blast
next
  case (Suc d)
  then have lt: "retry < 3" and d: "d = 3 - (retry + 1)" "3 - retry = Suc (3 - (retry + 1))" by simp_all
  from send_and_wait_loop_turn [OF Suc.prems(1,3,4) lt, of c] Suc.prems(2) obtain r ack' w'
    where w': "length ack' = length ack" "recv_reply w' = recv_reply w"
      "sends (trace w') = (socket_fd c, take n m) # sends (trace w)"
    and turn: "send_and_wait_loop c m n retry ack k w = Some (Inr (MQTT_MESSAGE_SEND_ERROR, ack', k, w')) \<or>
      send_and_wait_loop c m n retry ack k w = Some (Inr (MQTT_CLIENT_CONNECT_ERROR, ack', k, w')) \<or>
      0 < r \<and> r \<le> int (unat k) \<and> send_and_wait_loop c m n retry ack k w = Some (Inr (MQTT_SUCCESS, ack', of_int r, w')) \<or>
      send_and_wait_loop c m n retry ack k w = send_and_wait_loop c m n (retry + 1) ack' k w'" by blast
  have one: "settled c (take n m) (length ack) k w (3 - retry) ret ack' k' w'"
    if "unat k' \<le> unat k" "ret = MQTT_SUCCESS \<and> 0 < unat k' \<or> ret = MQTT_MESSAGE_SEND_ERROR \<or> ret = MQTT_CLIENT_CONNECT_ERROR"
    for ret k' using lt that by (intro settled_one w') simp_all
  from turn show ?case
  proof (elim disjE conjE)
    assume r: "0 < r" "r \<le> int (unat k)"
      and loop: "send_and_wait_loop c m n retry ack k w = Some (Inr (MQTT_SUCCESS, ack', of_int r, w'))"
    from r have "nat r \<le> unat k" by (simp only: nat_le_iff)
    with r have "settled c (take n m) (length ack) k w (3 - retry) MQTT_SUCCESS ack' (of_int r) w'"
      by (intro one) (simp_all only: unat_of_int_u32 [OF r] zero_less_nat_eq simp_thms)
    with loop show ?case by blast
  next
    assume loop: "send_and_wait_loop c m n retry ack k w = send_and_wait_loop c m n (retry + 1) ack' k w'"
    have "os_ok w'" "\<forall>t. recv_reply w' t \<noteq> Inr []" "unat k \<le> length ack'" "retry + 1 \<le> 3"
      using Suc.prems w' lt by (simp_all add: os_ok_def)
    from Suc.hyps(1) [OF d(1) this(1,2) Suc.prems(3) this(3,4)] settled_more [OF _ w'(3)] show ?case
      unfolding loop d(2) w'(1) by blast
  qed (use one [of k] in blast)+
qed

text \<open>A peer that has closed its side: every send is accepted, every receive gives no bytes.\<close>

definition silent :: "network_connection_t \<Rightarrow> u8 list \<Rightarrow> os \<Rightarrow> bool" where
  "silent c bs w \<longleftrightarrow> (\<forall>t. recv_reply w t = Inr [] \<and> (\<exists>v. v \<noteq> -1 \<and> int_reply w (Send (socket_fd c) bs # t) = Inr v))"

lemma send_and_wait_loop_silent:
  assumes "n \<le> length m" and "retry < 3" and "silent c (take n m) w"
  shows "send_and_wait_loop c m n retry ack k w = None"
proof (rule ccontr)
  let ?P = "\<lambda>c m n retry ack k w (y :: wait_result res). n \<le> length m \<longrightarrow> retry < 3 \<longrightarrow> \<not> silent c (take n m) w"
  assume "send_and_wait_loop c m n retry ack k w \<noteq> None"
  then obtain y where y: "send_and_wait_loop c m n retry ack k w = Some y" by auto
  have "?P c m n retry ack k w y"
  proof (rule send_and_wait_loop.raw_induct [of ?P c m n retry ack k w y])
    fix loop c m n retry ack k w and y :: "wait_result res"
    assume ih: "\<And>c m n retry ack k w y. loop c m n retry ack k w = Some y \<Longrightarrow>
        n \<le> length m \<longrightarrow> retry < 3 \<longrightarrow> \<not> silent c (take n m) w"
      and body: "(if retry < MQTT_CLIENT_CONNECT_RETRY_MAX then
        (case network_send c m n w of
           Inl e \<Rightarrow> Some (Inl e)
         | Inr (ret, w) \<Rightarrow>
             if ret = -1 then Some (Inr (MQTT_MESSAGE_SEND_ERROR, ack, k, w))
             else (case network_recv c ack 0 (unat k) w of
                 Inl e \<Rightarrow> Some (Inl e)
               | Inr (ret, ack, w) \<Rightarrow>
                   if 0 < ret then Some (Inr (MQTT_SUCCESS, ack, of_int ret, w))
                   else if ret < 0
                   then (if errno w = EAGAIN \<or> errno w = EWOULDBLOCK
                         then loop c m n (retry + 1) ack k w
                         else Some (Inr (MQTT_CLIENT_CONNECT_ERROR, ack, k, w)))
                   else loop c m n retry ack k w))
      else Some (Inr (MQTT_CLIENT_CONNECT_ERROR, ack, k, w))) = Some y"
    show "n \<le> length m \<longrightarrow> retry < 3 \<longrightarrow> \<not> silent c (take n m) w"
    proof (intro impI notI)
      assume n: "n \<le> length m" and lt: "retry < 3" and quiet: "silent c (take n m) w"
      then obtain v where v: "v \<noteq> -1" "int_reply w (Send (socket_fd c) (take n m) # trace w) = Inr v"
        by (auto simp: silent_def)
      let ?w = "w\<lparr>trace := Recv (socket_fd c) (unat k) # Send (socket_fd c) (take n m) # trace w\<rparr>"
      have "network_recv c ack 0 (unat k) (w\<lparr>trace := Send (socket_fd c) (take n m) # trace w\<rparr>) = Inr (0, ack, ?w)"
        using quiet by (simp add: network_recv_def silent_def wr_bytes_def)
      with body n v lt have "loop c m n retry ack k ?w = Some y"
        by (simp add: network_send_eq call_int_Inr)
      with ih n lt have "\<not> silent c (take n m) ?w" by blast
      with quiet show False by (simp add: silent_def)
    qed
  qed (rule y)
  with assms show False by simp
qed

section \<open>Lemmas: opening a session\<close>

lemma network_connect_ok:
  assumes "int_reply w (Socket # trace w) = Inr fd" and "0 \<le> fd"
    and "int_reply w (Inet_pton host # Socket # trace w) = Inr 1"
    and "int_reply w (Connect fd host (htons port) # Inet_pton host # Socket # trace w) = Inr 0"
  shows "network_connect host port c w =
     (MQTT_SUCCESS, \<lparr>socket_fd = fd\<rparr>, w\<lparr>trace := Connect fd host (htons port) # Inet_pton host # Socket # trace w\<rparr>)"
  using assms by (cases c) (simp add: network_connect_def call_int_Inr Let_def)

lemma rd_ptr_field_complete: "field_complete n p \<Longrightarrow> rd_ptr p (unat n) = Inr (field_value n p)"
  by (cases p) (simp_all add: rd_ptr_def field_complete_def field_value_def rd_bytes_def)

text \<open>What is left of the call when an accepting answer has come.\<close>

lemma connect_established_ok:
  assumes "field_complete (cf_client_id_len cf) (cf_client_id cf)" and "heap_ok (sy_heap s)" and "\<not> oom (sy_heap s) (fresh (sy_heap s))"
  shows "\<exists>cl' s'. connect_established cl cf s = Inr (cl', s') \<and> mc_state cl' = MQTT_CLIENT_STATE_CONNECTED \<and>
     mc_conn cl' = mc_conn cl \<and> mc_sp cl' = mc_sp cl \<and> mc_keep_alive cl' = cf_keep_alive cf \<and> mc_packet_id_next cl' = 1 \<and>
     mc_client_id_len cl' = cf_client_id_len cf \<and> mc_client_id cl' = Addr (fresh (sy_heap s)) \<and>
     load_bytes (mc_client_id cl') (sy_heap s') = Inr (field_value (cf_client_id_len cf) (cf_client_id cf)) \<and>
     (\<forall>a. a \<noteq> fresh (sy_heap s) \<longrightarrow> map_of (cells (sy_heap s')) a = map_of (cells (sy_heap s)) a) \<and>
     trace (sy_os s') = Time # trace (sy_os s) \<and> sy_send_list s' = sy_send_list s \<and> heap_ok (sy_heap s') \<and>
     oom (sy_heap s') = oom (sy_heap s) \<and> int_reply (sy_os s') = int_reply (sy_os s)"
proof -
  obtain now w where now: "call_int Time (sy_os s) = (now, w)" by fastforce
  then have w: "trace w = Time # trace (sy_os s)" "int_reply w = int_reply (sy_os s)"
    using call_int_trace [of Time "sy_os s"] call_int_replies [of Time "sy_os s"] by simp_all
  have "heap_ok ((sy_heap s)\<lparr>cells := (fresh (sy_heap s), b) # cells (sy_heap s), fresh := Suc (fresh (sy_heap s))\<rparr>)" for b
    using malloc_heap_ok [OF assms(2), of b] assms(3) by (simp add: malloc_def)
  note new = this
  show ?thesis
    using assms(3) rd_ptr_field_complete [OF assms(1)] w new
    by (simp add: connect_established_def now Let_def malloc_def junk_bytes_def store_def load_bytes_def load_Addr)
qed

text \<open>The exchange up to the answer, a CONNACK with any return code.\<close>

lemma connect_exchange_answered:
  fixes cl :: mqtt_client_t and cf :: mqtt_client_config_t and s :: sys
  defines "m \<equiv> connect_frame (conn_payload_of cf) (cf_keep_alive cf) (cf_clean_session cf) (cf_will_retain cf) (cf_will_qos cf)"
    and "fd \<equiv> socket_fd (mc_conn cl)" and "h \<equiv> sy_heap s" and "w \<equiv> sy_os s"
  assumes complete: "payload_complete (conn_payload_of cf)" "unat (cf_client_id_len cf) \<le> 23"
    and heap: "heap_ok h" "\<forall>k. \<not> oom h k"
    and msg: "map_of (cells h) a = Some (Bytes buf)" "length m \<le> length buf" "length buf < 4294967296"
    and sent: "int_reply w (Send fd m # Set_Timeout fd 5 # trace w) = Inr v" "v \<noteq> -1"
    and answer: "recv_reply w (Recv fd 5 # Send fd m # Set_Timeout fd 5 # trace w) = Inr (connack_bytes present code)"
  shows "\<exists>s1. connect_exchange junk_len (Addr a) n cl cf s =
       (if junk_len \<noteq> 0 \<and> code = 0
        then obind (Some (connect_established (cl\<lparr>mc_sp := (if present then 1 else 0)\<rparr>) cf s1)) (\<lambda>(cl, s). Some (Inr (MQTT_SUCCESS, cl, s)))
        else Some (Inr (MQTT_CONNACK_MESSAGE_ERROR,
          if junk_len = 0 then cl else cl\<lparr>mc_sp := (if present then 1 else 0)\<rparr>, s1))) \<and>
     trace (sy_os s1) = Set_Timeout fd 0 # Recv fd 5 # Send fd m # Set_Timeout fd 5 # trace w \<and>
     int_reply (sy_os s1) = int_reply w \<and> sy_send_list s1 = sy_send_list s \<and> heap_ok (sy_heap s1) \<and>
     fresh (sy_heap s1) = Suc (fresh h) \<and> oom (sy_heap s1) = oom h \<and> live (sy_heap s1) = live h"
proof -
  let ?n = "of_nat (length m) :: u32" and ?buf = "m @ drop (length m) buf" and ?ack = "connack_bytes present code"
  let ?h1 = "h\<lparr>fresh := Suc (fresh h)\<rparr>"
  let ?h = "?h1\<lparr>cells := AList.update a (Bytes ?buf) (cells h)\<rparr>"
  have cid: "cp_client_id_len (conn_payload_of cf) = cf_client_id_len cf" by (simp add: conn_payload_of_def)
  have build: "connect_message_build (conn_payload_of cf) (cf_keep_alive cf) (cf_clean_session cf)
      (cf_will_retain cf) (cf_will_qos cf) buf n h = Inr (MQTT_SUCCESS, ?buf, ?n, ?h1)"
    using connect_message_build_ok [OF complete(1) _ _ heap(1), of "cf_keep_alive cf" "cf_clean_session cf"
        "cf_will_retain cf" "cf_will_qos cf" buf n] complete(2) heap(2) msg(2) cid unfolding m_def by simp
  have len: "unat ?n = length m" by (rule unat_u32_of_nat) (use msg(2,3) in linarith)
  then have take_m: "take (unat ?n) ?buf = m" "unat ?n \<le> length ?buf" by simp_all
  have "\<exists>w'. message_send_and_wait_ack (mc_conn cl) ?buf ?n (replicate 5 0) (of_nat 5) w =
      Some (Inr (MQTT_SUCCESS, ?ack @ drop (length ?ack) (replicate 5 0), of_nat (length ?ack), w')) \<and>
      trace w' = Set_Timeout fd 0 # Recv fd 5 # Send fd m # Set_Timeout fd 5 # trace w \<and>
      int_reply w' = int_reply w \<and> recv_reply w' = recv_reply w"
    using message_send_and_wait_ack_answered [of ?n ?buf ?ack "replicate 5 0" v w "mc_conn cl" "of_nat 5"]
      take_m sent answer unfolding fd_def [symmetric] by (simp add: connack_bytes_simp)
  then obtain w' where wait: "message_send_and_wait_ack (mc_conn cl) ?buf ?n (replicate 5 0) (of_nat 5) w =
      Some (Inr (MQTT_SUCCESS, ?ack @ [0], 4, w'))"
    and w': "trace w' = Set_Timeout fd 0 # Recv fd 5 # Send fd m # Set_Timeout fd 5 # trace w" "int_reply w' = int_reply w"
    by (auto simp: connack_bytes_simp)
  let ?s = "s\<lparr>sy_heap := ?h, sy_os := w'\<rparr>"
  have a: "a \<in> live h" using msg(1) by (simp add: live_iff)
  have fresh1: "heap_ok ?h1" using heap(1) by (auto simp: heap_ok_def live_def)
  have ok: "heap_ok ?h" using heap_ok_update [OF fresh1, of a] a by (simp add: live_def)
  have stored: "store (Addr a) (Bytes ?buf) ?h1 = Inr ?h" using store_live [of ?h1 a] msg(1) by simp
  have "live ?h = live h" using live_update [of a ?h1] a by (simp add: live_def)
  moreover have "connect_exchange junk_len (Addr a) n cl cf s =
      (if junk_len \<noteq> 0 \<and> code = 0
       then obind (Some (connect_established (cl\<lparr>mc_sp := (if present then 1 else 0)\<rparr>) cf ?s)) (\<lambda>(cl, s). Some (Inr (MQTT_SUCCESS, cl, s)))
       else Some (Inr (MQTT_CONNACK_MESSAGE_ERROR,
         if junk_len = 0 then cl else cl\<lparr>mc_sp := (if present then 1 else 0)\<rparr>, ?s)))"
    using build stored wait msg(1) connack_message_parse_built [of junk_len present code "[0]" 0 "mc_sp cl"]
    unfolding connect_exchange_def h_def w_def by (simp add: load_bytes_def load_Addr Let_def)
  ultimately show ?thesis using w' ok by (intro exI [of _ ?s]) simp
qed

lemma connect_exchange_ok:
  fixes cl :: mqtt_client_t and cf :: mqtt_client_config_t and s :: sys
  defines "m \<equiv> connect_frame (conn_payload_of cf) (cf_keep_alive cf) (cf_clean_session cf) (cf_will_retain cf) (cf_will_qos cf)"
    and "fd \<equiv> socket_fd (mc_conn cl)" and "h \<equiv> sy_heap s" and "w \<equiv> sy_os s"
  assumes complete: "payload_complete (conn_payload_of cf)" "unat (cf_client_id_len cf) \<le> 23"
    and heap: "heap_ok h" "\<forall>k. \<not> oom h k"
    and msg: "map_of (cells h) a = Some (Bytes buf)" "length m \<le> length buf" "length buf < 4294967296"
    and sent: "int_reply w (Send fd m # Set_Timeout fd 5 # trace w) = Inr v" "v \<noteq> -1"
    and answer: "recv_reply w (Recv fd 5 # Send fd m # Set_Timeout fd 5 # trace w) = Inr (connack_bytes present 0)"
    and junk_len: "junk_len \<noteq> 0"
  shows "\<exists>cl' s'. connect_exchange junk_len (Addr a) n cl cf s = Some (Inr (MQTT_SUCCESS, cl', s')) \<and>
     mc_state cl' = MQTT_CLIENT_STATE_CONNECTED \<and> mc_conn cl' = mc_conn cl \<and> mc_sp cl' = (if present then 1 else 0) \<and>
     mc_keep_alive cl' = cf_keep_alive cf \<and> mc_packet_id_next cl' = 1 \<and> mc_client_id cl' \<noteq> Addr a \<and>
     load_bytes (mc_client_id cl') (sy_heap s') = Inr (field_value (cf_client_id_len cf) (cf_client_id cf)) \<and>
     a \<in> live (sy_heap s') \<and> sy_send_list s' = sy_send_list s \<and>
     trace (sy_os s') = Time # Set_Timeout fd 0 # Recv fd 5 # Send fd m # Set_Timeout fd 5 # trace w \<and>
     mc_client_id_len cl' = cf_client_id_len cf \<and> heap_ok (sy_heap s') \<and> oom (sy_heap s') = oom h \<and> int_reply (sy_os s') = int_reply w"
proof -
  let ?cl = "cl\<lparr>mc_sp := (if present then 1 else 0)\<rparr>"
  from connect_exchange_answered [of cf s a buf cl v present 0 junk_len n, folded m_def fd_def h_def w_def, OF assms(5-14)] obtain s1
    where x: "connect_exchange junk_len (Addr a) n cl cf s =
        obind (Some (connect_established ?cl cf s1)) (\<lambda>(cl, s). Some (Inr (MQTT_SUCCESS, cl, s)))"
      and s1: "trace (sy_os s1) = Set_Timeout fd 0 # Recv fd 5 # Send fd m # Set_Timeout fd 5 # trace w"
      "int_reply (sy_os s1) = int_reply w" "sy_send_list s1 = sy_send_list s" "heap_ok (sy_heap s1)"
      "fresh (sy_heap s1) = Suc (fresh h)" "oom (sy_heap s1) = oom h" "live (sy_heap s1) = live h"
    by (auto simp: junk_len simp del: obind.simps)
  have "field_complete (cf_client_id_len cf) (cf_client_id cf)"
    using complete(1) by (simp add: payload_complete_def conn_payload_of_def)
  from connect_established_ok [OF this s1(4), of ?cl] obtain cl' s' where est: "connect_established ?cl cf s1 = Inr (cl', s')"
    and e: "mc_state cl' = MQTT_CLIENT_STATE_CONNECTED" "mc_conn cl' = mc_conn cl" "mc_sp cl' = (if present then 1 else 0)"
      "mc_keep_alive cl' = cf_keep_alive cf" "mc_packet_id_next cl' = 1" "mc_client_id cl' = Addr (Suc (fresh h))"
      "load_bytes (mc_client_id cl') (sy_heap s') = Inr (field_value (cf_client_id_len cf) (cf_client_id cf))"
      "\<forall>b. b \<noteq> Suc (fresh h) \<longrightarrow> map_of (cells (sy_heap s')) b = map_of (cells (sy_heap s1)) b"
      "trace (sy_os s') = Time # trace (sy_os s1)" "sy_send_list s' = sy_send_list s1" "mc_client_id_len cl' = cf_client_id_len cf"
      "heap_ok (sy_heap s')" "oom (sy_heap s') = oom h" "int_reply (sy_os s') = int_reply (sy_os s1)"
    using heap(2) s1(5,6) by auto
  have "a \<in> live h" using msg(1) by (simp add: live_iff)
  then have "a < fresh h" "a \<in> live (sy_heap s1)" using heap(1) s1(7) by (simp_all add: heap_ok_def)
  then have "a \<in> live (sy_heap s')" "mc_client_id cl' \<noteq> Addr a" using e(6,8) by (simp_all add: live_iff)
  then show ?thesis using x est e s1 by (intro exI [of _ cl'] exI [of _ s']) simp
qed

section \<open>Lemmas: subscribing\<close>

lemma subscribe_frame:
  assumes "unat k = length topic" and "qos < MQTT_QOS_MAX"
  shows "filter_body True i [\<lparr>tf_topic = Some topic, tf_len = k, tf_qos = qos, tf_next = NULL\<rparr>] = be16 i @ field topic @ [qos]"
proof -
  have "qos AND 3 = qos" using qos_cases [OF assms(2)] by auto
  then show ?thesis using string_field_eq_field [OF assms(1)] by (simp add: filter_body_def filter_entry_def)
qed

lemma subscribe_exchange_client:
  assumes "subscribe_exchange x a n qos cl s = Some (Inr (ret, cl', s'))"
  shows "cl' = (if ret = MQTT_SUCCESS
     then cl\<lparr>mc_packet_id_next := (if mc_packet_id_next cl + 1 = 0 then 1 else mc_packet_id_next cl + 1)\<rparr> else cl)"
  using assms by (auto simp: subscribe_exchange_def obind_eq_Some_Inr Let_def simp del: obind.simps split: if_splits)

text \<open>The client changes by its packet identifier only.\<close>

lemma mqtt_client_subscribe_client:
  assumes "mqtt_client_subscribe (Some cl) topic k qos s = Some (Inr (ret, Some cl', s'))"
  shows "cl' = (if ret = MQTT_SUCCESS
     then cl\<lparr>mc_packet_id_next := (if mc_packet_id_next cl + 1 = 0 then 1 else mc_packet_id_next cl + 1)\<rparr> else cl)"
proof -
  have "cl' = cl \<and> ret \<noteq> MQTT_SUCCESS \<or>
      (\<exists>x a n s1 s2. subscribe_exchange x a n qos cl s1 = Some (Inr (ret, cl', s2)))"
    using assms
    by (auto simp: mqtt_client_subscribe_def obind_eq_Some_Inr Let_def split_beta simp del: obind.simps split: if_splits)
  then show ?thesis by (elim disjE exE conjE) (simp, erule subscribe_exchange_client)
qed

text \<open>
  The exchange, with a complete filter at \<open>x\<close> and the message block at \<open>a\<close>, neither of
  them a part of the queue.
\<close>

lemma subscribe_exchange_ok:
  fixes cl :: mqtt_client_t and s :: sys and topic :: "u8 list" and qos :: u8
  defines "i \<equiv> mc_packet_id_next cl"
  defines "m \<equiv> frame 0x80 (be16 i @ field topic @ [qos])" and "h \<equiv> sy_heap s" and "w \<equiv> sy_os s"
    and "fd \<equiv> socket_fd (mc_conn cl)"
  assumes topic: "unat k = length topic" "qos < MQTT_QOS_MAX"
    and x: "map_of (cells h) x = Some (Filter \<lparr>tf_topic = Some topic, tf_len = k, tf_qos = qos, tf_next = NULL\<rparr>)"
    and a: "map_of (cells h) a = Some (Bytes buf)" "a \<noteq> x" "a \<notin> set as" "x \<notin> set as" "a \<notin> copies h as" "x \<notin> copies h as"
    and room: "length m \<le> length buf" "length m \<le> unat n"
    and as: "send_list h (sy_send_list s) as qs" and ok: "heap_ok h" "\<forall>i. \<not> oom h i"
    and sent: "int_reply w (Send fd m # trace w) = Inr v" "0 \<le> v"
  shows "\<exists>s' as'. subscribe_exchange (Addr x) (Addr a) n qos cl s =
       Some (Inr (MQTT_SUCCESS, cl\<lparr>mc_packet_id_next := (if i + 1 = 0 then 1 else i + 1)\<rparr>, s')) \<and>
     send_list (sy_heap s') (sy_send_list s') as' (qs @ [(i, m, qos)]) \<and> heap_ok (sy_heap s') \<and>
     a \<in> live (sy_heap s') \<and> x \<in> live (sy_heap s') \<and> {a, x} \<inter> (set as' \<union> copies (sy_heap s') as') = {} \<and>
     sy_os s' = w\<lparr>trace := Send fd m # trace w\<rparr> \<and> oom (sy_heap s') = oom h"
proof -
  let ?f = "\<lparr>tf_topic = Some topic, tf_len = k, tf_qos = qos, tf_next = NULL\<rparr>"
  let ?buf = "m @ drop (length m) buf" and ?n = "of_nat (length m) :: u32"
  let ?h = "h\<lparr>cells := AList.update a (Bytes ?buf) (cells h)\<rparr>"
  have type: "message_type_encode MQTT_MESSAGE_TYPE_SUBSCRIBE = 0x80" by (simp add: message_type_encode_table)
  have "length topic < 65536" using topic(1) unat_u16_lt [of k] by (simp del: unat_u16_lt)
  then have "length (be16 i @ field topic @ [qos]) < 268435456" by (simp add: field_def)
  with room x have build: "subscribe_message_build i (Addr x) (Some buf) (Some n) h = Some (Inr (MQTT_SUCCESS, Some ?buf, Some ?n))"
    using filter_message_build_linked [of h "Addr x" "[?f]" True i MQTT_MESSAGE_TYPE_SUBSCRIBE n buf] topic
    unfolding subscribe_message_build_def subscribe_frame [OF topic] type m_def
    by (simp add: load_filter_def load_Addr filter_complete_def)
  have stored: "store (Addr a) (Bytes ?buf) h = Inr ?h" by (rule store_live [OF a(1)])
  have len: "unat ?n = length m" by (rule unat_u32_of_nat) (use room(2) unat_u32_lt [of n] in linarith)
  then have send: "network_send (mc_conn cl) ?buf (unat ?n) w = Inr (v, w\<lparr>trace := Send fd m # trace w\<rparr>)"
    using sent(1) by (simp add: network_send_eq call_int_Inr fd_def)
  have same: "map_of (cells ?h) c = map_of (cells h) c" if "c \<in> set as" for c
    using that a(3) by (auto simp: AList.update_conv')
  have "holds ?h c q" if "c \<in> set as" "holds h c q" for c q
    using that same [OF that(1)] a(5) unfolding holds_def load_bytes_eq_Inr copies_def
    by (fastforce simp: AList.update_conv')
  then have "list_all2 (holds ?h) as qs" using as unfolding send_list_def by (auto elim!: list.rel_mono_strong)
  then have as1: "send_list ?h (sy_send_list s) as qs"
    using as chain_update_other [OF a(3)] by (simp add: send_list_def)
  have ax: "a \<in> live h" "x \<in> live h" using a(1) x by (simp_all add: live_iff)
  have ok1: "heap_ok ?h" by (rule heap_ok_update [OF ok(1) ax(1)])
  have below: "a < fresh h" "x < fresh h" using ok(1) ax by (auto simp: heap_ok_def)
  have copies1: "copies ?h as = copies h as" by (rule copies_cong [OF same])
  from message_send_add_at [OF as1 ok1 len, of i "drop (length m) buf" qos] ok(2) obtain p' h'
    where add: "message_send_add (Some (sy_send_list s)) i (Some ?buf) ?n qos ?h = Some (Inr (MQTT_SUCCESS, Some p', h'))"
      and list: "send_list h' p' (as @ [fresh h]) (qs @ [(i, m, qos)])" "heap_ok h'"
      and used: "copies h' (as @ [fresh h]) \<subseteq> insert (Suc (fresh h)) (copies h as)"
      and kept: "\<forall>b. b \<notin> set as \<longrightarrow> b < fresh h \<longrightarrow> map_of (cells h') b = map_of (cells ?h) b"
    and oom: "oom h' = oom h"
    unfolding copies1 by auto
  have live: "a \<in> live h'" "x \<in> live h'"
    using kept a(1-4) x below by (simp_all add: live_iff AList.update_conv')
  have apart: "{a, x} \<inter> (set (as @ [fresh h]) \<union> copies h' (as @ [fresh h])) = {}"
    using used a(3-6) below by auto
  have "subscribe_exchange (Addr x) (Addr a) n qos cl s =
      Some (Inr (MQTT_SUCCESS, cl\<lparr>mc_packet_id_next := (if i + 1 = 0 then 1 else i + 1)\<rparr>,
        s\<lparr>sy_heap := h', sy_os := w\<lparr>trace := Send fd m # trace w\<rparr>, sy_send_list := p'\<rparr>))"
    using a(1) build stored send add sent(2) unfolding h_def w_def i_def
    by (simp add: subscribe_exchange_def load_bytes_def load_Addr Let_def)
  with list live apart oom show ?thesis
    by (intro exI [of _ "s\<lparr>sy_heap := h', sy_os := w\<lparr>trace := Send fd m # trace w\<rparr>, sy_send_list := p'\<rparr>"]
        exI [of _ "as @ [fresh h]"]) simp
qed

section \<open>Lemmas: accepted calls as a whole\<close>

text \<open>
  Opening a session, with the exchange left open: \<open>before\<close> is the state in which it begins.
\<close>

definition before_exchange :: "mqtt_client_config_t \<Rightarrow> int \<Rightarrow> u32 \<Rightarrow> sys \<Rightarrow> sys" where
  "before_exchange cf fd n s =
     (let h = sy_heap s; w = sy_os s;
          t = [Connect fd (cf_hostname cf) (htons (cf_port cf)), Inet_pton (cf_hostname cf), Socket] @ trace w
      in s\<lparr>sy_os := w\<lparr>trace := t\<rparr>, sy_heap := h\<lparr>cells := (fresh h, junk_bytes h (unat n)) # cells h, fresh := Suc (fresh h)\<rparr>\<rparr>)"

lemma mqtt_client_create_exchanged:
  fixes cl :: mqtt_client_t and cf :: mqtt_client_config_t and s :: sys and fd :: int
  defines "cf' \<equiv> (if cf_keep_alive cf = 0 then cf\<lparr>cf_keep_alive := 60\<rparr> else cf)"
  defines "n \<equiv> snd (connect_message_len_calc (conn_payload_of cf') (cf_keep_alive cf') (cf_clean_session cf')
      (cf_will_retain cf') (cf_will_qos cf'))"
    and "t \<equiv> [Connect fd (cf_hostname cf) (htons (cf_port cf)), Inet_pton (cf_hostname cf), Socket] @ trace (sy_os s)"
    and "w \<equiv> sy_os s" and "a \<equiv> fresh (sy_heap s)"
  assumes "\<not> oom (sy_heap s) a" and "0 \<le> fd"
    and "int_reply w (Socket # trace w) = Inr fd" and "int_reply w (Inet_pton (cf_hostname cf) # Socket # trace w) = Inr 1"
    and "int_reply w t = Inr 0"
    and x: "connect_exchange junk_len (Addr a) n (cl\<lparr>mc_conn := \<lparr>socket_fd = fd\<rparr>\<rparr>) cf' (before_exchange cf fd n s) =
      Some (Inr (ret, cl', s1))"
    and "a \<in> live (sy_heap s1)" and "mc_conn cl' = \<lparr>socket_fd = fd\<rparr>"
  shows "\<exists>s'. mqtt_client_create junk_len (Some cl) (Some cf) s =
       Some (Inr (ret, Some (cl'\<lparr>mc_conn := \<lparr>socket_fd = 0\<rparr>\<rparr>), Some cf', s')) \<and>
     sy_heap s' = (sy_heap s1)\<lparr>cells := AList.delete a (cells (sy_heap s1))\<rparr> \<and> sy_send_list s' = sy_send_list s1 \<and>
     trace (sy_os s') = Close fd # trace (sy_os s1) \<and> int_reply (sy_os s') = int_reply (sy_os s1)"
proof -
  let ?cl = "cl\<lparr>mc_conn := \<lparr>socket_fd = fd\<rparr>\<rparr>" and ?h = "sy_heap s"
  have net: "network_connect (cf_hostname cf) (cf_port cf) (mc_conn cl) (sy_os s) = (MQTT_SUCCESS, \<lparr>socket_fd = fd\<rparr>, w\<lparr>trace := t\<rparr>)"
    using network_connect_ok [of w fd "cf_hostname cf" "cf_port cf" "mc_conn cl"] assms(6-) by (simp add: w_def t_def)
  have alloc: "malloc (junk_bytes ?h (unat n)) ?h =
      (Addr a, ?h\<lparr>cells := (a, junk_bytes ?h (unat n)) # cells ?h, fresh := Suc a\<rparr>)"
    using assms(6) by (simp add: malloc_def a_def)
  have start: "before_exchange cf fd n s =
      s\<lparr>sy_os := w\<lparr>trace := t\<rparr>, sy_heap := ?h\<lparr>cells := (a, junk_bytes ?h (unat n)) # cells ?h, fresh := Suc a\<rparr>\<rparr>"
    by (simp add: before_exchange_def Let_def w_def t_def a_def)
  from \<open>a \<in> live (sy_heap s1)\<close> obtain b where "map_of (cells (sy_heap s1)) a = Some b" by (auto simp: live_iff)
  then have free: "free (Addr a) (sy_heap s1) = Inr ((sy_heap s1)\<lparr>cells := AList.delete a (cells (sy_heap s1))\<rparr>)" by (rule free_live)
  have sent: "connect_message_send junk_len ?cl cf (s\<lparr>sy_os := w\<lparr>trace := t\<rparr>\<rparr>) =
      Some (Inr (ret, cl', cf', s1\<lparr>sy_heap := (sy_heap s1)\<lparr>cells := AList.delete a (cells (sy_heap s1))\<rparr>\<rparr>))"
    unfolding connect_message_send_def Let_def cf'_def [symmetric] using alloc x free unfolding start
    by (simp add: split_beta n_def [symmetric])
  obtain r w' where close: "call_int (Close fd) (sy_os s1) = (r, w')" by fastforce
  then have w': "trace w' = Close fd # trace (sy_os s1)" "int_reply w' = int_reply (sy_os s1)"
    using call_int_trace [of "Close fd" "sy_os s1"] call_int_replies [of "Close fd" "sy_os s1"] by simp_all
  show ?thesis using net sent close w' assms(13) by (simp add: mqtt_client_create_def network_close_def Let_def)
qed

text \<open>The state before the exchange has what the exchange needs.\<close>

lemma before_exchange_ok:
  fixes cf' :: mqtt_client_config_t and alive :: u16 and clean retain wqos :: u8
  defines "n \<equiv> snd (connect_message_len_calc (conn_payload_of cf') alive clean retain wqos)"
  assumes "payload_complete (conn_payload_of cf')" and "heap_ok (sy_heap s)" and "\<not> oom (sy_heap s) (fresh (sy_heap s))"
  shows "heap_ok (sy_heap (before_exchange cf fd n s))" and "oom (sy_heap (before_exchange cf fd n s)) = oom (sy_heap s)"
    and "sy_send_list (before_exchange cf fd n s) = sy_send_list s"
    and "live (sy_heap (before_exchange cf fd n s)) = insert (fresh (sy_heap s)) (live (sy_heap s))"
    and "\<exists>buf. map_of (cells (sy_heap (before_exchange cf fd n s))) (fresh (sy_heap s)) = Some (Bytes buf) \<and>
      length (connect_frame (conn_payload_of cf') alive clean retain wqos) \<le> length buf \<and> length buf < 4294967296"
proof -
  have "heap_ok (snd (malloc (junk_bytes (sy_heap s) (unat n)) (sy_heap s)))" by (rule malloc_heap_ok [OF assms(3)])
  then show "heap_ok (sy_heap (before_exchange cf fd n s))" using assms(4) by (simp add: malloc_def before_exchange_def Let_def)
  have "length (connect_frame (conn_payload_of cf') alive clean retain wqos) \<le> unat n"
    using connect_frame_fits [of "conn_payload_of cf'" alive] assms(2) by (simp add: n_def)
  then show "\<exists>buf. map_of (cells (sy_heap (before_exchange cf fd n s))) (fresh (sy_heap s)) = Some (Bytes buf) \<and>
      length (connect_frame (conn_payload_of cf') alive clean retain wqos) \<le> length buf \<and> length buf < 4294967296"
    by (simp add: before_exchange_def Let_def junk_bytes_def)
qed (simp_all add: before_exchange_def Let_def live_def)

lemma mqtt_client_create_accepted:
  fixes cl :: mqtt_client_t and cf :: mqtt_client_config_t and s :: sys and fd :: int
  defines "cf' \<equiv> (if cf_keep_alive cf = 0 then cf\<lparr>cf_keep_alive := 60\<rparr> else cf)"
  defines "m \<equiv> connect_frame (conn_payload_of cf') (cf_keep_alive cf') (cf_clean_session cf') (cf_will_retain cf') (cf_will_qos cf')"
    and "t \<equiv> [Connect fd (cf_hostname cf) (htons (cf_port cf)), Inet_pton (cf_hostname cf), Socket] @ trace (sy_os s)"
    and "w \<equiv> sy_os s"
  assumes "payload_complete (conn_payload_of cf)" and "unat (cf_client_id_len cf) \<le> 23"
    and "heap_ok (sy_heap s)" and "\<forall>k. \<not> oom (sy_heap s) k" and "0 \<le> fd" and "v \<noteq> -1" and "junk_len \<noteq> 0"
    and "int_reply w (Socket # trace w) = Inr fd" and "int_reply w (Inet_pton (cf_hostname cf) # Socket # trace w) = Inr 1"
    and "int_reply w t = Inr 0" and "int_reply w (Send fd m # Set_Timeout fd 5 # t) = Inr v"
    and "recv_reply w (Recv fd 5 # Send fd m # Set_Timeout fd 5 # t) = Inr (connack_bytes present 0)"
  shows "\<exists>cl' s'. mqtt_client_create junk_len (Some cl) (Some cf) s = Some (Inr (MQTT_SUCCESS, Some cl', Some cf', s')) \<and>
     mc_state cl' = MQTT_CLIENT_STATE_CONNECTED \<and> mc_sp cl' = (if present then 1 else 0) \<and>
     mc_keep_alive cl' = cf_keep_alive cf' \<and> mc_packet_id_next cl' = 1 \<and>
     load_bytes (mc_client_id cl') (sy_heap s') = Inr (field_value (cf_client_id_len cf) (cf_client_id cf)) \<and>
     socket_fd (mc_conn cl') = 0 \<and>
     trace (sy_os s') = [Close fd, Time, Set_Timeout fd 0, Recv fd 5, Send fd m, Set_Timeout fd 5] @ t \<and>
     mc_client_id_len cl' = cf_client_id_len cf \<and> heap_ok (sy_heap s') \<and> oom (sy_heap s') = oom (sy_heap s) \<and>
     int_reply (sy_os s') = int_reply w \<and> sy_send_list s' = sy_send_list s"
proof -
  let ?cl = "cl\<lparr>mc_conn := \<lparr>socket_fd = fd\<rparr>\<rparr>" and ?h = "sy_heap s" and ?a = "fresh (sy_heap s)"
  let ?n = "snd (connect_message_len_calc (conn_payload_of cf') (cf_keep_alive cf') (cf_clean_session cf')
      (cf_will_retain cf') (cf_will_qos cf'))"
  let ?s = "before_exchange cf fd ?n s"
  have same: "conn_payload_of cf' = conn_payload_of cf" "cf_client_id_len cf' = cf_client_id_len cf" "cf_client_id cf' = cf_client_id cf"
    by (simp_all add: cf'_def conn_payload_of_def)
  note b = before_exchange_ok [of cf' s cf fd "cf_keep_alive cf'" "cf_clean_session cf'" "cf_will_retain cf'" "cf_will_qos cf'",
      unfolded same(1), OF assms(5,7) assms(8) [rule_format]]
  have os: "sy_os ?s = w\<lparr>trace := t\<rparr>" by (simp add: before_exchange_def Let_def w_def t_def)
  from b(5) obtain buf where buf: "map_of (cells (sy_heap ?s)) ?a = Some (Bytes buf)" "length m \<le> length buf" "length buf < 4294967296"
    unfolding m_def same(1) by blast
  from connect_exchange_ok [of cf' ?s ?a buf ?cl v present junk_len ?n] obtain cl' s1
    where x: "connect_exchange junk_len (Addr ?a) ?n ?cl cf' ?s = Some (Inr (MQTT_SUCCESS, cl', s1))"
     "mc_state cl' = MQTT_CLIENT_STATE_CONNECTED" "mc_conn cl' = \<lparr>socket_fd = fd\<rparr>" "mc_sp cl' = (if present then 1 else 0)"
     "mc_keep_alive cl' = cf_keep_alive cf'" "mc_packet_id_next cl' = 1" "mc_client_id cl' \<noteq> Addr ?a"
     "load_bytes (mc_client_id cl') (sy_heap s1) = Inr (field_value (cf_client_id_len cf) (cf_client_id cf))"
     "?a \<in> live (sy_heap s1)"
     "trace (sy_os s1) = Time # Set_Timeout fd 0 # Recv fd 5 # Send fd m # Set_Timeout fd 5 # t"
     "mc_client_id_len cl' = cf_client_id_len cf" "heap_ok (sy_heap s1)" "oom (sy_heap s1) = oom (sy_heap s)"
     "int_reply (sy_os s1) = int_reply w" "sy_send_list s1 = sy_send_list s"
    using assms(5-) same b(1-3) buf os unfolding m_def by auto
  from mqtt_client_create_exchanged [of s fd cf junk_len cl MQTT_SUCCESS cl' s1, folded cf'_def w_def t_def] x(1,3,9) assms(8-) obtain s'
    where c: "mqtt_client_create junk_len (Some cl) (Some cf) s = Some (Inr (MQTT_SUCCESS, Some (cl'\<lparr>mc_conn := \<lparr>socket_fd = 0\<rparr>\<rparr>), Some cf', s'))"
     "sy_heap s' = (sy_heap s1)\<lparr>cells := AList.delete ?a (cells (sy_heap s1))\<rparr>" "sy_send_list s' = sy_send_list s1"
     "trace (sy_os s') = Close fd # trace (sy_os s1)" "int_reply (sy_os s') = int_reply (sy_os s1)"
    by auto
  have "load_bytes (mc_client_id cl') (sy_heap s') = Inr (field_value (cf_client_id_len cf) (cf_client_id cf))"
    using x(7,8) by (auto simp: c(2) load_bytes_eq_Inr AList.delete_conv')
  moreover have "heap_ok (sy_heap s')" unfolding c(2) by (rule heap_ok_delete [OF x(12)])
  ultimately show ?thesis using c x by simp
qed

lemma mqtt_client_create_refused:
  fixes cl :: mqtt_client_t and cf :: mqtt_client_config_t and s :: sys and fd :: int
  defines "cf' \<equiv> (if cf_keep_alive cf = 0 then cf\<lparr>cf_keep_alive := 60\<rparr> else cf)"
  defines "m \<equiv> connect_frame (conn_payload_of cf') (cf_keep_alive cf') (cf_clean_session cf') (cf_will_retain cf') (cf_will_qos cf')"
    and "t \<equiv> [Connect fd (cf_hostname cf) (htons (cf_port cf)), Inet_pton (cf_hostname cf), Socket] @ trace (sy_os s)"
    and "w \<equiv> sy_os s"
  assumes "payload_complete (conn_payload_of cf)" and "unat (cf_client_id_len cf) \<le> 23"
    and "heap_ok (sy_heap s)" and "\<forall>k. \<not> oom (sy_heap s) k" and "0 \<le> fd" and "v \<noteq> -1" and "code \<noteq> 0"
    and "int_reply w (Socket # trace w) = Inr fd" and "int_reply w (Inet_pton (cf_hostname cf) # Socket # trace w) = Inr 1"
    and "int_reply w t = Inr 0" and "int_reply w (Send fd m # Set_Timeout fd 5 # t) = Inr v"
    and "recv_reply w (Recv fd 5 # Send fd m # Set_Timeout fd 5 # t) = Inr (connack_bytes present code)"
  shows "\<exists>s'. mqtt_client_create junk_len (Some cl) (Some cf) s = Some (Inr (MQTT_CONNACK_MESSAGE_ERROR,
         Some (cl\<lparr>mc_conn := \<lparr>socket_fd = 0\<rparr>, mc_sp := (if junk_len = 0 then mc_sp cl else if present then 1 else 0)\<rparr>), Some cf', s')) \<and>
     live (sy_heap s') = live (sy_heap s) \<and> sy_send_list s' = sy_send_list s \<and>
     trace (sy_os s') = [Close fd, Set_Timeout fd 0, Recv fd 5, Send fd m, Set_Timeout fd 5] @ t"
proof -
  let ?cl = "cl\<lparr>mc_conn := \<lparr>socket_fd = fd\<rparr>\<rparr>" and ?a = "fresh (sy_heap s)"
  let ?cl' = "?cl\<lparr>mc_sp := (if junk_len = 0 then mc_sp cl else if present then 1 else 0)\<rparr>"
  let ?n = "snd (connect_message_len_calc (conn_payload_of cf') (cf_keep_alive cf') (cf_clean_session cf')
      (cf_will_retain cf') (cf_will_qos cf'))"
  let ?s = "before_exchange cf fd ?n s"
  have same: "conn_payload_of cf' = conn_payload_of cf" "cf_client_id_len cf' = cf_client_id_len cf"
    by (simp_all add: cf'_def conn_payload_of_def)
  note b = before_exchange_ok [of cf' s cf fd "cf_keep_alive cf'" "cf_clean_session cf'" "cf_will_retain cf'" "cf_will_qos cf'",
      unfolded same(1), OF assms(5,7) assms(8) [rule_format]]
  have os: "sy_os ?s = w\<lparr>trace := t\<rparr>" by (simp add: before_exchange_def Let_def w_def t_def)
  from b(5) obtain buf where buf: "map_of (cells (sy_heap ?s)) ?a = Some (Bytes buf)" "length m \<le> length buf" "length buf < 4294967296"
    unfolding m_def same(1) by blast
  from connect_exchange_answered [of cf' ?s ?a buf ?cl v present code junk_len ?n] obtain s1
    where x: "connect_exchange junk_len (Addr ?a) ?n ?cl cf' ?s = Some (Inr (MQTT_CONNACK_MESSAGE_ERROR, ?cl', s1))"
     "trace (sy_os s1) = Set_Timeout fd 0 # Recv fd 5 # Send fd m # Set_Timeout fd 5 # t"
     "sy_send_list s1 = sy_send_list s" "live (sy_heap s1) = insert ?a (live (sy_heap s))"
    using assms(5-) same b buf os unfolding m_def by (cases "junk_len = 0") auto
  from mqtt_client_create_exchanged [of s fd cf junk_len cl MQTT_CONNACK_MESSAGE_ERROR ?cl' s1, folded cf'_def w_def t_def] x(1,4) assms(8-)
  obtain s' where c: "mqtt_client_create junk_len (Some cl) (Some cf) s =
       Some (Inr (MQTT_CONNACK_MESSAGE_ERROR, Some (?cl'\<lparr>mc_conn := \<lparr>socket_fd = 0\<rparr>\<rparr>), Some cf', s'))"
     "sy_heap s' = (sy_heap s1)\<lparr>cells := AList.delete ?a (cells (sy_heap s1))\<rparr>" "sy_send_list s' = sy_send_list s1"
     "trace (sy_os s') = Close fd # trace (sy_os s1)"
    by auto
  have "?a \<notin> live (sy_heap s)" using assms(7) by (auto simp: heap_ok_def)
  then have "live (sy_heap s') = live (sy_heap s)" using x(4) by (simp add: c(2))
  then show ?thesis using c(1,3,4) x(2,3) by simp
qed

text \<open>The block for the message is large enough for it.\<close>

lemma subscribe_message_fits:
  assumes "unat k = length topic"
  shows "length (frame 0x80 (be16 i @ field topic @ [qos])) \<le>
    unat (7 + filter_cost True \<lparr>tf_topic = Some topic, tf_len = k, tf_qos = qos, tf_next = NULL\<rparr>)"
proof -
  let ?n = "7 + filter_cost True \<lparr>tf_topic = Some topic, tf_len = k, tf_qos = qos, tf_next = NULL\<rparr>"
  have "length topic < 65536" using assms unat_u16_lt [of k] by (simp del: unat_u16_lt)
  then have n: "unat ?n = 10 + length topic" and "length (varint (5 + length topic)) \<le> 4"
    using unat_filter_cost [of True "\<lparr>tf_topic = Some topic, tf_len = k, tf_qos = qos, tf_next = NULL\<rparr>"] assms
    by (subst unat_u32_add, simp_all, subst length_varint_4, simp)
  moreover have "length (be16 i @ field topic @ [qos]) = 5 + length topic" by (simp add: field_def)
  then have "length (frame 0x80 (be16 i @ field topic @ [qos])) = 1 + length (varint (5 + length topic)) + (5 + length topic)"
    by (simp only: frame_def length_append list.size)
  ultimately show ?thesis by linarith
qed

lemma mqtt_client_subscribe_accepted:
  fixes cl :: mqtt_client_t and s :: sys and topic :: "u8 list" and qos :: u8
  defines "i \<equiv> mc_packet_id_next cl"
  defines "m \<equiv> frame 0x80 (be16 i @ field topic @ [qos])"
  defines "t \<equiv> Send (socket_fd (mc_conn cl)) m # trace (sy_os s)"
  assumes "unat k = length topic" and "topic \<noteq> []" and "qos < MQTT_QOS_MAX"
    and "queue (sy_heap s) (sy_send_list s) qs" and "\<forall>i. \<not> oom (sy_heap s) i"
    and "int_reply (sy_os s) t = Inr v" and "0 \<le> v"
  shows "\<exists>s'. mqtt_client_subscribe (Some cl) (Some topic) k qos s =
       Some (Inr (MQTT_SUCCESS, Some (cl\<lparr>mc_packet_id_next := (if i + 1 = 0 then 1 else i + 1)\<rparr>), s')) \<and>
     sy_os s' = (sy_os s)\<lparr>trace := t\<rparr> \<and> oom (sy_heap s') = oom (sy_heap s) \<and> queue (sy_heap s') (sy_send_list s') (qs @ [(i, m, qos)])"
proof -
  let ?f = "\<lparr>tf_topic = Some topic, tf_len = k, tf_qos = qos, tf_next = NULL\<rparr>"
  let ?h = "sy_heap s" and ?x = "fresh (sy_heap s)" and ?a = "Suc (fresh (sy_heap s))"
  let ?n = "7 + filter_cost True ?f"
  let ?h1 = "?h\<lparr>cells := (?x, Filter ?f) # cells ?h, fresh := ?a\<rparr>"
  let ?buf = "map (junk ?h) [0..<unat ?n]"
  let ?h2 = "?h\<lparr>cells := (?a, Bytes ?buf) # (?x, Filter ?f) # cells ?h, fresh := Suc ?a\<rparr>"
  from assms(7) obtain as where as: "send_list ?h (sy_send_list s) as qs" and ok: "heap_ok ?h" by (auto simp: queue_def)
  have below: "c < ?x" if "map_of (cells ?h) c = Some b" for b c
    using ok that live_iff [of c ?h] by (auto simp: heap_ok_def)
  have ok2: "heap_ok ?h2" using ok by (auto simp: heap_ok_def live_def less_Suc_eq)
  have as2: "send_list ?h2 (sy_send_list s) as qs"
    by (rule send_list_cong [OF as]) (use send_list_live [OF as] below in \<open>fastforce simp: keeps_bytes_def\<close>)+
  have nodes: "c < ?x" if "c \<in> set as" for c using send_list_live [OF as that] below by blast
  have "c < ?x" if "c \<in> copies ?h as" for c
    using that as below unfolding copies_def send_list_def
    by (fastforce simp: list_all2_conv_all_nth in_set_conv_nth holds_def load_bytes_eq_Inr)
  moreover have "copies ?h2 as = copies ?h as" by (rule copies_cong) (use nodes in fastforce)
  ultimately have apart: "?a \<notin> set as" "?x \<notin> set as" "?a \<notin> copies ?h2 as" "?x \<notin> copies ?h2 as" using nodes by fastforce+
  have fits: "length m \<le> unat ?n" unfolding m_def by (rule subscribe_message_fits [OF assms(4)])
  from subscribe_exchange_ok [of k topic qos "s\<lparr>sy_heap := ?h2\<rparr>" ?x ?a ?buf as cl ?n qs v, OF assms(4,6)] obtain s' as'
    where x: "subscribe_exchange (Addr ?x) (Addr ?a) ?n qos cl (s\<lparr>sy_heap := ?h2\<rparr>) =
       Some (Inr (MQTT_SUCCESS, cl\<lparr>mc_packet_id_next := (if i + 1 = 0 then 1 else i + 1)\<rparr>, s'))"
     "send_list (sy_heap s') (sy_send_list s') as' (qs @ [(i, m, qos)])" "heap_ok (sy_heap s')"
     "?a \<in> live (sy_heap s')" "?x \<in> live (sy_heap s')" "{?a, ?x} \<inter> (set as' \<union> copies (sy_heap s') as') = {}"
     "sy_os s' = (sy_os s)\<lparr>trace := t\<rparr>" "oom (sy_heap s') = oom ?h"
    using apart fits as2 ok2 assms(8-10) unfolding i_def m_def t_def by auto
  let ?g1 = "(sy_heap s')\<lparr>cells := AList.delete ?a (cells (sy_heap s'))\<rparr>"
  let ?g2 = "?g1\<lparr>cells := AList.delete ?x (cells ?g1)\<rparr>"
  have "free (Addr ?a) (sy_heap s') = Inr ?g1" "free (Addr ?x) ?g1 = Inr ?g2"
    using x(4,5) by (auto simp: live_iff free_def AList.delete_conv')
  moreover have "send_list ?g1 (sy_send_list s') as' (qs @ [(i, m, qos)])"
    by (rule send_list_delete_other [OF x(2)]) (use x(6) in auto)
  then have "send_list ?g2 (sy_send_list s') as' (qs @ [(i, m, qos)])"
    by (rule send_list_delete_other) (use x(6) copies_delete [of ?a "sy_heap s'" as'] in auto)
  moreover have "heap_ok ?g2" by (rule heap_ok_delete [OF heap_ok_delete [OF x(3)]])
  moreover have "filter_len_loop True ?h1 (Addr ?x) 7 = Some (Inr ?n)"
    using filter_len_loop_linked [of ?h1 "Addr ?x" "[?f]" True 7] by (simp add: load_filter_def load_Addr)
  moreover have "k \<noteq> 0" using assms(4,5) by auto
  ultimately show ?thesis
    using x(1,7,8) assms(8)
    by (intro exI [of _ "s'\<lparr>sy_heap := ?g2\<rparr>"])
      (auto simp: mqtt_client_subscribe_def local_filter_def subscribe_message_len_calc_def malloc_def junk_bytes_def Let_def queue_def)
qed

section \<open>Properties\<close>

text \<open>
  C20. Waiting for an answer is bounded as long as no receive gives zero bytes: whatever else the
  network does, the call returns after at most three sends, all of them of exactly the message,
  with one of three results; on success between one byte and the size of the buffer were
  received, and the buffer is never overrun.
\<close>

theorem send_and_wait_bounded:
  assumes "os_ok w" and "\<forall>t. recv_reply w t \<noteq> Inr []" and "unat n \<le> length m" and "unat k \<le> length ack"
  shows "\<exists>ret ack' k' w' j. message_send_and_wait_ack c m n ack k w = Some (Inr (ret, ack', k', w')) \<and>
     sends (trace w') = replicate j (socket_fd c, take (unat n) m) @ sends (trace w) \<and> j \<le> 3 \<and>
     length ack' = length ack \<and> unat k' \<le> unat k \<and>
     (ret = MQTT_SUCCESS \<and> 0 < unat k' \<or> ret = MQTT_MESSAGE_SEND_ERROR \<or> ret = MQTT_CLIENT_CONNECT_ERROR)"
proof -
  let ?w = "snd (network_set_timeout (Some c) 5 w)"
  have "os_ok ?w" "\<forall>t. recv_reply ?w t \<noteq> Inr []"
    using assms(1,2) by (simp_all add: os_ok_def network_set_timeout_trace)
  from send_and_wait_loop_bounded [OF this assms(3,4), of 0 c] obtain ret ack' k' w'
    where loop: "send_and_wait_loop c m (unat n) 0 ack k ?w = Some (Inr (ret, ack', k', w'))"
      and settled: "settled c (take (unat n) m) (length ack) k ?w 3 ret ack' k' w'" by auto
  let ?w' = "snd (network_clean_timeout (Some c) w')"
  from loop have "message_send_and_wait_ack c m n ack k w = Some (Inr (ret, ack', k', ?w'))"
    by (simp add: message_send_and_wait_ack_def split_beta)
  moreover have "sends (trace ?w') = sends (trace w')" "sends (trace ?w) = sends (trace w)"
    by (simp_all add: network_clean_timeout_def network_set_timeout_trace)
  ultimately show ?thesis using settled unfolding settled_def by auto
qed

theorem send_and_wait_bounded_witness:
  fixes w :: os
  defines "w \<equiv> \<lparr>trace = [], errno = 0, int_reply = \<lambda>_. Inr 3, recv_reply = \<lambda>_. Inl 11, wait_reply = \<lambda>_. Inr []\<rparr>"
  shows "\<exists>ret ack' k' w' j. message_send_and_wait_ack \<lparr>socket_fd = 3\<rparr> [1, 2] 2 [0, 0] 2 w = Some (Inr (ret, ack', k', w')) \<and>
     sends (trace w') = replicate j (socket_fd \<lparr>socket_fd = 3\<rparr>, take (unat (2 :: u32)) [1, 2]) @ sends (trace w) \<and> j \<le> 3 \<and>
     length ack' = length [0, 0 :: u8] \<and> unat k' \<le> unat (2 :: u32) \<and>
     (ret = MQTT_SUCCESS \<and> 0 < unat k' \<or> ret = MQTT_MESSAGE_SEND_ERROR \<or> ret = MQTT_CLIENT_CONNECT_ERROR)"
  by (rule send_and_wait_bounded) (simp_all add: w_def os_ok_def)

text \<open>
  The bound needs its hypothesis. When the peer closes its side, so that every receive
  gives zero bytes, while sends are still accepted, the loop counts no attempt: the call never
  returns.
\<close>

theorem send_and_wait_never_ends:
  assumes "silent c (take (unat n) m) w" and "unat n \<le> length m"
  shows "message_send_and_wait_ack c m n ack k w = None"
proof -
  let ?w = "snd (network_set_timeout (Some c) 5 w)"
  have "silent c (take (unat n) m) ?w" using assms(1) by (simp add: silent_def network_set_timeout_trace)
  then have "send_and_wait_loop c m (unat n) 0 ack k ?w = None"
    using assms(2) by (intro send_and_wait_loop_silent) simp_all
  then show ?thesis by (simp add: message_send_and_wait_ack_def split_beta)
qed

theorem send_and_wait_never_ends_witness:
  fixes w :: os
  defines "w \<equiv> \<lparr>trace = [], errno = 0, int_reply = \<lambda>_. Inr 2, recv_reply = \<lambda>_. Inr [], wait_reply = \<lambda>_. Inr []\<rparr>"
  shows "message_send_and_wait_ack \<lparr>socket_fd = 3\<rparr> [1, 2] 2 [0, 0] 2 w = None"
  by (rule send_and_wait_never_ends) (simp_all add: silent_def w_def)


text \<open>
  C7. A session is opened by sending exactly the CONNECT message of the configuration, and then
  closed at once. If socket, address conversion, connect and the one send succeed, memory is
  available, the fields of the configuration are complete with a client identifier of at most 23
  bytes, the first receive brings an accepting CONNACK, and the local \<^verbatim>\<open>field_len\<close>
  that \<open>connack_message_parse\<close> reads without having assigned it does not hold 0 (if it does, the
  accepting CONNACK is turned down), then \<open>mqtt_client_create\<close> reports success; the client is in
  state CONNECTED with the session present flag of the server, the keep alive time of the
  configuration (60 for 0), a copy of the client identifier and 1 as the next packet identifier.
  The last system call is the one that closes the socket, and the descriptor in the client is 0:
  there is no return before the label \<^verbatim>\<open>disconnect\<close>, so that the session cannot be used.
\<close>

theorem mqtt_client_create_opens_and_closes:
  fixes cl :: mqtt_client_t and cf :: mqtt_client_config_t and s :: sys and fd :: int
  defines "cf' \<equiv> (if cf_keep_alive cf = 0 then cf\<lparr>cf_keep_alive := 60\<rparr> else cf)"
  defines "m \<equiv> connect_frame (conn_payload_of cf') (cf_keep_alive cf') (cf_clean_session cf') (cf_will_retain cf') (cf_will_qos cf')"
    and "t \<equiv> [Connect fd (cf_hostname cf) (htons (cf_port cf)), Inet_pton (cf_hostname cf), Socket] @ trace (sy_os s)"
    and "w \<equiv> sy_os s"
  assumes "payload_complete (conn_payload_of cf)" and "unat (cf_client_id_len cf) \<le> 23"
    and "heap_ok (sy_heap s)" and "\<forall>k. \<not> oom (sy_heap s) k" and "0 \<le> fd" and "v \<noteq> -1" and "junk_len \<noteq> 0"
    and "int_reply w (Socket # trace w) = Inr fd" and "int_reply w (Inet_pton (cf_hostname cf) # Socket # trace w) = Inr 1"
    and "int_reply w t = Inr 0" and "int_reply w (Send fd m # Set_Timeout fd 5 # t) = Inr v"
    and "recv_reply w (Recv fd 5 # Send fd m # Set_Timeout fd 5 # t) = Inr (connack_bytes present 0)"
  shows "\<exists>cl' s'. mqtt_client_create junk_len (Some cl) (Some cf) s = Some (Inr (MQTT_SUCCESS, Some cl', Some cf', s')) \<and>
     mc_state cl' = MQTT_CLIENT_STATE_CONNECTED \<and> mc_sp cl' = (if present then 1 else 0) \<and>
     mc_keep_alive cl' = cf_keep_alive cf' \<and> mc_packet_id_next cl' = 1 \<and>
     load_bytes (mc_client_id cl') (sy_heap s') = Inr (field_value (cf_client_id_len cf) (cf_client_id cf)) \<and>
     socket_fd (mc_conn cl') = 0 \<and>
     trace (sy_os s') = [Close fd, Time, Set_Timeout fd 0, Recv fd 5, Send fd m, Set_Timeout fd 5] @ t"
  using mqtt_client_create_accepted [of cf s fd v junk_len present cl] assms(5-) unfolding cf'_def m_def t_def w_def by fastforce

theorem mqtt_client_create_opens_and_closes_witness:
  fixes cl :: mqtt_client_t and cf :: mqtt_client_config_t and s :: sys and w :: os
  defines "cl \<equiv> \<lparr>mc_state = MQTT_CLIENT_STATE_DISCONNECTED, mc_conn = \<lparr>socket_fd = 0\<rparr>, mc_keep_alive = 0, mc_timeout_sec = 0,
      mc_client_id = NULL, mc_client_id_len = 0, mc_sp = 0, mc_packet_id_next = 0\<rparr>"
    and "cf \<equiv> \<lparr>cf_hostname = [49], cf_port = 1883, cf_keep_alive = 9, cf_clean_session = 1, cf_will_retain = 0, cf_will_qos = 0,
      cf_client_id = Some [97], cf_client_id_len = 1, cf_username = None, cf_username_len = 0, cf_password = None, cf_password_len = 0,
      cf_will_topic = None, cf_will_topic_len = 0, cf_will_msg = None, cf_will_msg_len = 0\<rparr>"
    and "w \<equiv> \<lparr>trace = [], errno = 0, int_reply = \<lambda>t. Inr (if t = [Socket] then 3 else if t = [Inet_pton [49], Socket] then 1 else 0),
      recv_reply = \<lambda>_. Inr (connack_bytes True 0), wait_reply = \<lambda>_. Inr []\<rparr>"
  defines "s \<equiv> \<lparr>sy_heap = \<lparr>cells = [], fresh = 0, oom = \<lambda>_. False, junk = \<lambda>_. 0\<rparr>, sy_os = w, sy_keep_alive_timestamp = 0,
      sy_send_list = NULL, sy_buffer = []\<rparr>"
  shows "\<exists>cl' s'. mqtt_client_create 1 (Some cl) (Some cf) s =
       Some (Inr (MQTT_SUCCESS, Some cl', Some (if cf_keep_alive cf = 0 then cf\<lparr>cf_keep_alive := 60\<rparr> else cf), s')) \<and>
     mc_state cl' = MQTT_CLIENT_STATE_CONNECTED \<and> mc_sp cl' = (if True then 1 else 0) \<and> mc_keep_alive cl' = 9 \<and>
     mc_packet_id_next cl' = 1 \<and> load_bytes (mc_client_id cl') (sy_heap s') = Inr (field_value 1 (Some [97])) \<and>
     socket_fd (mc_conn cl') = 0 \<and>
     trace (sy_os s') = [Close 3, Time, Set_Timeout 3 0, Recv 3 5, Send 3 (connect_frame (conn_payload_of cf) 9 1 0 0),
       Set_Timeout 3 5] @ [Connect 3 [49] (htons 1883), Inet_pton [49], Socket]"
  using mqtt_client_create_opens_and_closes [of cf s 3 0 1 True cl]
  by (simp add: s_def w_def cf_def payload_complete_def field_complete_def conn_payload_of_def heap_ok_def live_def)

text \<open>
  C37. A defect: a refused connection cannot be told from a malformed answer. Under the conditions
  of an accepted session (the four calls before the receive succeed, memory is available, the fields
  are complete, a client identifier of at most 23 bytes), if the first receive brings a well-formed
  CONNACK with a return code other than 0, \<open>mqtt_client_create\<close> returns
  MQTT\_CONNACK\_MESSAGE\_ERROR, the code of a malformed message, and not MQTT\_CLIENT\_CONNECT\_ERROR,
  which client.c:120 has for a refusal; the connection is closed, nothing stays allocated, and of the
  client only the descriptor and, unless the unassigned \<^verbatim>\<open>field_len\<close> holds 0, the session
  present flag have changed. The branch of client.c:120 is dead: for no bytes, no length and no
  indeterminate local does \<open>connack_message_parse\<close> report success with a return code other than 0,
  though that branch, and src/test/msg\_connack\_test.c:31, expect it to.
\<close>

theorem refused_connection_looks_malformed:
  fixes cl :: mqtt_client_t and cf :: mqtt_client_config_t and s :: sys and fd :: int
  defines "cf' \<equiv> (if cf_keep_alive cf = 0 then cf\<lparr>cf_keep_alive := 60\<rparr> else cf)"
  defines "m \<equiv> connect_frame (conn_payload_of cf') (cf_keep_alive cf') (cf_clean_session cf') (cf_will_retain cf') (cf_will_qos cf')"
    and "t \<equiv> [Connect fd (cf_hostname cf) (htons (cf_port cf)), Inet_pton (cf_hostname cf), Socket] @ trace (sy_os s)"
    and "w \<equiv> sy_os s"
  assumes "payload_complete (conn_payload_of cf)" and "unat (cf_client_id_len cf) \<le> 23"
    and "heap_ok (sy_heap s)" and "\<forall>k. \<not> oom (sy_heap s) k" and "0 \<le> fd" and "v \<noteq> -1" and "code \<noteq> 0"
    and "int_reply w (Socket # trace w) = Inr fd" and "int_reply w (Inet_pton (cf_hostname cf) # Socket # trace w) = Inr 1"
    and "int_reply w t = Inr 0" and "int_reply w (Send fd m # Set_Timeout fd 5 # t) = Inr v"
    and "recv_reply w (Recv fd 5 # Send fd m # Set_Timeout fd 5 # t) = Inr (connack_bytes present code)"
  shows "(\<exists>s'. mqtt_client_create junk_len (Some cl) (Some cf) s = Some (Inr (MQTT_CONNACK_MESSAGE_ERROR,
         Some (cl\<lparr>mc_conn := \<lparr>socket_fd = 0\<rparr>, mc_sp := (if junk_len = 0 then mc_sp cl else if present then 1 else 0)\<rparr>), Some cf', s')) \<and>
       live (sy_heap s') = live (sy_heap s) \<and> sy_send_list s' = sy_send_list s \<and>
       trace (sy_os s') = [Close fd, Set_Timeout fd 0, Recv fd 5, Send fd m, Set_Timeout fd 5] @ t) \<and>
     (\<forall>junk_len p n c sp c' sp'. connack_message_parse junk_len (Some p) n (Some c) (Some sp) = Inr (MQTT_SUCCESS, c', sp') \<longrightarrow> c' = Some 0)"
  using mqtt_client_create_refused [of cf s fd v code present junk_len cl] connack_success_means_accepted assms(5-)
  unfolding cf'_def m_def t_def w_def by blast

theorem refused_connection_looks_malformed_witness:
  fixes cl :: mqtt_client_t and cf :: mqtt_client_config_t and s :: sys and w :: os
  defines "cl \<equiv> \<lparr>mc_state = MQTT_CLIENT_STATE_DISCONNECTED, mc_conn = \<lparr>socket_fd = 0\<rparr>, mc_keep_alive = 0, mc_timeout_sec = 0,
      mc_client_id = NULL, mc_client_id_len = 0, mc_sp = 0, mc_packet_id_next = 0\<rparr>"
    and "cf \<equiv> \<lparr>cf_hostname = [49], cf_port = 1883, cf_keep_alive = 9, cf_clean_session = 1, cf_will_retain = 0, cf_will_qos = 0,
      cf_client_id = Some [97], cf_client_id_len = 1, cf_username = None, cf_username_len = 0, cf_password = None, cf_password_len = 0,
      cf_will_topic = None, cf_will_topic_len = 0, cf_will_msg = None, cf_will_msg_len = 0\<rparr>"
    and "w \<equiv> \<lparr>trace = [], errno = 0, int_reply = \<lambda>t. Inr (if t = [Socket] then 3 else if t = [Inet_pton [49], Socket] then 1 else 0),
      recv_reply = \<lambda>_. Inr (connack_bytes False (ucast (connack_value MQTT_CONNACK_NOT_AUTHORIZED))), wait_reply = \<lambda>_. Inr []\<rparr>"
  defines "s \<equiv> \<lparr>sy_heap = \<lparr>cells = [], fresh = 0, oom = \<lambda>_. False, junk = \<lambda>_. 0\<rparr>, sy_os = w, sy_keep_alive_timestamp = 0,
      sy_send_list = NULL, sy_buffer = []\<rparr>"
  shows "\<exists>s'. mqtt_client_create 1 (Some cl) (Some cf) s = Some (Inr (MQTT_CONNACK_MESSAGE_ERROR,
         Some (cl\<lparr>mc_conn := \<lparr>socket_fd = 0\<rparr>, mc_sp := 0\<rparr>), Some cf, s')) \<and>
     live (sy_heap s') = {} \<and> sy_send_list s' = NULL \<and>
     trace (sy_os s') = [Close 3, Set_Timeout 3 0, Recv 3 5, Send 3 (connect_frame (conn_payload_of cf) 9 1 0 0),
       Set_Timeout 3 5] @ [Connect 3 [49] (htons 1883), Inet_pton [49], Socket]"
  using refused_connection_looks_malformed [of cf s 3 0 "ucast (connack_value MQTT_CONNACK_NOT_AUTHORIZED)" False 1 cl]
  by (simp add: s_def w_def cf_def payload_complete_def field_complete_def conn_payload_of_def heap_ok_def live_def)

text \<open>
  C9. A subscription is sent and remembered. For a topic of 1 to 65535 bytes and a legal quality
  of service, if memory is available and the send is accepted, \<open>mqtt_client_subscribe\<close>
  returns, with success; it sends exactly the SUBSCRIBE message with the next packet identifier,
  appends a copy of that message to the queue of sent messages, which is otherwise unchanged,
  and advances the packet identifier, from 65535 to 1.
\<close>

theorem mqtt_client_subscribe_sends_and_keeps:
  fixes cl :: mqtt_client_t and s :: sys and topic :: "u8 list" and qos :: u8
  defines "i \<equiv> mc_packet_id_next cl"
  defines "m \<equiv> frame 0x80 (be16 i @ field topic @ [qos])"
  defines "t \<equiv> Send (socket_fd (mc_conn cl)) m # trace (sy_os s)"
  assumes "unat k = length topic" and "topic \<noteq> []" and "qos < MQTT_QOS_MAX"
    and "queue (sy_heap s) (sy_send_list s) qs" and "\<forall>i. \<not> oom (sy_heap s) i"
    and "int_reply (sy_os s) t = Inr v" and "0 \<le> v"
  shows "\<exists>s'. mqtt_client_subscribe (Some cl) (Some topic) k qos s =
       Some (Inr (MQTT_SUCCESS, Some (cl\<lparr>mc_packet_id_next := (if i + 1 = 0 then 1 else i + 1)\<rparr>), s')) \<and>
     trace (sy_os s') = t \<and> queue (sy_heap s') (sy_send_list s') (qs @ [(i, m, qos)])"
  using mqtt_client_subscribe_accepted [of k topic qos s qs cl v] assms(4-) unfolding i_def m_def t_def by fastforce

theorem mqtt_client_subscribe_sends_and_keeps_witness:
  fixes cl :: mqtt_client_t and s :: sys and w :: os
  defines "cl \<equiv> \<lparr>mc_state = MQTT_CLIENT_STATE_CONNECTED, mc_conn = \<lparr>socket_fd = 4\<rparr>, mc_keep_alive = 0, mc_timeout_sec = 0,
      mc_client_id = NULL, mc_client_id_len = 0, mc_sp = 0, mc_packet_id_next = 65535\<rparr>"
    and "w \<equiv> \<lparr>trace = [], errno = 0, int_reply = \<lambda>_. Inr 9, recv_reply = \<lambda>_. Inr [], wait_reply = \<lambda>_. Inr []\<rparr>"
  defines "s \<equiv> \<lparr>sy_heap = \<lparr>cells = [], fresh = 0, oom = \<lambda>_. False, junk = \<lambda>_. 0\<rparr>, sy_os = w, sy_keep_alive_timestamp = 0,
      sy_send_list = NULL, sy_buffer = []\<rparr>"
  shows "\<exists>s'. mqtt_client_subscribe (Some cl) (Some [97, 98]) 2 1 s =
       Some (Inr (MQTT_SUCCESS, Some (cl\<lparr>mc_packet_id_next := (if (65535 :: u16) + 1 = 0 then 1 else 65535 + 1)\<rparr>), s')) \<and>
     trace (sy_os s') = [Send 4 (frame 0x80 (be16 65535 @ field [97, 98] @ [1]))] \<and>
     queue (sy_heap s') (sy_send_list s') ([] @ [(65535, frame 0x80 (be16 65535 @ field [97, 98] @ [1]), 1)])"
  using mqtt_client_subscribe_sends_and_keeps [of 2 "[97, 98]" 1 s "[]" cl 9]
  by (simp add: s_def cl_def w_def queue_def heap_ok_def live_def)

text \<open>
  The packet identifier advances with each accepted subscription and on no other path, and
  it is never 0 once it is not: on every input and every behaviour of memory and network, if
  \<open>mqtt_client_subscribe\<close> returns, the next packet identifier is the one behind the old one
  (1 behind 65535) if the call succeeded, and the old one if it failed. No other field of the
  client changes.
\<close>

theorem mqtt_client_subscribe_packet_id:
  assumes "mqtt_client_subscribe (Some cl) topic k qos s = Some (Inr (ret, Some cl', s'))"
  shows "cl' = (if ret = MQTT_SUCCESS
       then cl\<lparr>mc_packet_id_next := (if mc_packet_id_next cl = 65535 then 1 else mc_packet_id_next cl + 1)\<rparr> else cl) \<and>
     (mc_packet_id_next cl \<noteq> 0 \<longrightarrow> mc_packet_id_next cl' \<noteq> 0)"
proof -
  let ?i = "mc_packet_id_next cl"
  have "(65535 :: u16) + 1 = 0" by simp
  then have wrap: "?i + 1 = 0 \<longleftrightarrow> ?i = 65535" by (metis add_right_cancel)
  show ?thesis using mqtt_client_subscribe_client [OF assms] unfolding wrap [symmetric] by simp
qed

theorem mqtt_client_subscribe_packet_id_witness:
  fixes cl :: mqtt_client_t and s :: sys
  defines "cl \<equiv> \<lparr>mc_state = MQTT_CLIENT_STATE_CONNECTED, mc_conn = \<lparr>socket_fd = 4\<rparr>, mc_keep_alive = 0, mc_timeout_sec = 0,
      mc_client_id = NULL, mc_client_id_len = 0, mc_sp = 0, mc_packet_id_next = 65535\<rparr>"
    and "s \<equiv> \<lparr>sy_heap = \<lparr>cells = [], fresh = 0, oom = \<lambda>_. True, junk = \<lambda>_. 0\<rparr>,
      sy_os = \<lparr>trace = [], errno = 0, int_reply = \<lambda>_. Inr 9, recv_reply = \<lambda>_. Inr [], wait_reply = \<lambda>_. Inr []\<rparr>,
      sy_keep_alive_timestamp = 0, sy_send_list = NULL, sy_buffer = []\<rparr>"
  shows "\<exists>s' ret cl'. mqtt_client_subscribe (Some cl) (Some [97, 98]) 2 1 s = Some (Inr (ret, Some cl', s')) \<and>
     cl' = (if ret = MQTT_SUCCESS
       then cl\<lparr>mc_packet_id_next := (if mc_packet_id_next cl = 65535 then 1 else mc_packet_id_next cl + 1)\<rparr> else cl) \<and>
     (mc_packet_id_next cl \<noteq> 0 \<longrightarrow> mc_packet_id_next cl' \<noteq> 0)"
proof -
  have "mqtt_client_subscribe (Some cl) (Some [97, 98]) 2 1 s =
      Some (Inr (MQTT_MEMORY_NOBUFFER, Some cl, s\<lparr>sy_heap := (sy_heap s)\<lparr>fresh := 2\<rparr>\<rparr>))"
    by (simp add: mqtt_client_subscribe_def s_def local_filter_def subscribe_message_len_calc_def filter_len_loop_def
        list_loop_step list_loop_NULL load_filter_def load_Addr malloc_def free_def)
  with mqtt_client_subscribe_packet_id [OF this] show ?thesis by blast
qed

end
