(* ===== verification/Client_Process.thy ===== *)
theory Client_Process
  imports Client Msg_Ack Msg_Ping Msg_Publish Msg_Suback
begin

text \<open>
  client/client_message_process.c: the answers of the client and what it does with each kind of
  message. The context of the deamon is a record; the client it points to is only read. The
  functions that the application registers are not part of the repository: a callback is a
  parameter, a function of its arguments and the state that may change the state or fail.
\<close>

record deamon_context_t =
  dc_client :: mqtt_client_t
  dc_sock_fd :: int
  dc_timer_fd :: int
  dc_epoll_fd :: int

type_synonym publish_callback = "u8 list \<Rightarrow> u16 \<Rightarrow> u8 list \<Rightarrow> u16 \<Rightarrow> sys \<Rightarrow> sys res"

abbreviation (input) PINGREQ_MESSAGE_LENGTH :: nat where "PINGREQ_MESSAGE_LENGTH \<equiv> 2"
abbreviation (input) ACK_MESSAGE_LENGTH :: nat where "ACK_MESSAGE_LENGTH \<equiv> 4"

section \<open>Sending\<close>

text \<open>
  The local array of the message is read only where it was written. The five functions are the
  same text up to the builder and its array.
\<close>

definition built_msg_sent ::
  "deamon_context_t \<Rightarrow> (mqtt_ret \<times> u8 list option \<times> u32 option) res \<Rightarrow> sys \<Rightarrow> (mqtt_ret \<times> sys) res" where
  "built_msg_sent ctx built s =
     fbind built (\<lambda>(ret, message, message_len).
     fbind (deref message) (\<lambda>message. fbind (deref message_len) (\<lambda>message_len.
     if ret \<noteq> MQTT_SUCCESS then Inr (ret, s)
     else fbind (network_send (mc_conn (dc_client ctx)) message (unat message_len) (sy_os s)) (\<lambda>(r, w).
          if r = -1 then Inr (MQTT_MESSAGE_SEND_ERROR, s\<lparr>sy_os := w\<rparr>) else Inr (MQTT_SUCCESS, s\<lparr>sy_os := w\<rparr>)))))"

definition pingreq_msg_sent :: "deamon_context_t \<Rightarrow> sys \<Rightarrow> (mqtt_ret \<times> sys) res" where
  "pingreq_msg_sent ctx s =
     built_msg_sent ctx (pingreq_message_build (Some (replicate PINGREQ_MESSAGE_LENGTH 0)) (Some (of_nat PINGREQ_MESSAGE_LENGTH))) s"

definition ack_msg_sent ::
  "(u16 \<Rightarrow> u8 list option \<Rightarrow> u32 option \<Rightarrow> (mqtt_ret \<times> u8 list option \<times> u32 option) res) \<Rightarrow>
   deamon_context_t \<Rightarrow> u16 \<Rightarrow> sys \<Rightarrow> (mqtt_ret \<times> sys) res" where
  "ack_msg_sent build ctx packet_id s =
     built_msg_sent ctx (build packet_id (Some (replicate ACK_MESSAGE_LENGTH 0)) (Some (of_nat ACK_MESSAGE_LENGTH))) s"

text \<open>A PUBACK that was sent takes its packet identifier out of the client's own queue; the result is not looked at.\<close>

definition puback_msg_sent :: "deamon_context_t \<Rightarrow> u16 \<Rightarrow> sys \<Rightarrow> (mqtt_ret \<times> sys) outcome" where
  "puback_msg_sent ctx packet_id s =
     obind (Some (ack_msg_sent puback_message_build ctx packet_id s)) (\<lambda>(ret, s).
     if ret \<noteq> MQTT_SUCCESS then Some (Inr (ret, s))
     else obind (message_send_remove (Some (sy_send_list s)) packet_id (sy_heap s)) (\<lambda>(_, list, h).
          Some (Inr (MQTT_SUCCESS, s\<lparr>sy_send_list := the list, sy_heap := h\<rparr>))))"

definition pubrec_msg_sent :: "deamon_context_t \<Rightarrow> u16 \<Rightarrow> sys \<Rightarrow> (mqtt_ret \<times> sys) res" where
  "pubrec_msg_sent = ack_msg_sent pubrec_message_build"

definition pubrel_msg_sent :: "deamon_context_t \<Rightarrow> u16 \<Rightarrow> sys \<Rightarrow> (mqtt_ret \<times> sys) res" where
  "pubrel_msg_sent = ack_msg_sent pubrel_message_build"

definition pubcomp_msg_sent :: "deamon_context_t \<Rightarrow> u16 \<Rightarrow> sys \<Rightarrow> (mqtt_ret \<times> sys) res" where
  "pubcomp_msg_sent = ack_msg_sent pubcomp_message_build"

section \<open>Receiving\<close>

text \<open>
  The result variables have no value before the parser stores one; on success all that are used
  have been stored. The payload length is cut to the 16 bits of the callback's parameter.
\<close>

definition no_publish :: publish_out where
  "no_publish = \<lparr>pub_dup = 0, pub_qos = 0, pub_retain = 0, pub_topic = None, pub_topic_len = 0, pub_packet_id = 0,
     pub_payload = None, pub_payload_len = 0\<rparr>"

definition publish_msg_process ::
  "deamon_context_t \<Rightarrow> u8 list \<Rightarrow> u32 \<Rightarrow> publish_callback option \<Rightarrow> sys \<Rightarrow> (mqtt_ret \<times> sys) outcome" where
  "publish_msg_process ctx message message_len pub_cb s =
     obind (Some (publish_message_parse (Some message) message_len (Some no_publish))) (\<lambda>(ret, out).
     if ret \<noteq> MQTT_SUCCESS then Some (Inr (ret, s))
     else obind (Some (deref out)) (\<lambda>out.
          obind (Some (case pub_cb of
                   None \<Rightarrow> Inr s
                 | Some cb \<Rightarrow> fbind (deref (pub_topic out)) (\<lambda>topic. fbind (deref (pub_payload out)) (\<lambda>payload.
                               cb topic (pub_topic_len out) payload (ucast (pub_payload_len out)) s)))) (\<lambda>s.
          if pub_qos out = MQTT_QOS_1 then puback_msg_sent ctx (pub_packet_id out) s
          else if pub_qos out = MQTT_QOS_2 then Some (pubrec_msg_sent ctx (pub_packet_id out) s)
          else Some (Inr (ret, s)))))"

definition puback_msg_process :: "deamon_context_t \<Rightarrow> u8 list \<Rightarrow> u32 \<Rightarrow> sys \<Rightarrow> (mqtt_ret \<times> sys) res" where
  "puback_msg_process ctx message message_len s =
     fbind (puback_message_parse (Some message) message_len (Some 0)) (\<lambda>(ret, _). Inr (ret, s))"

definition pubrec_msg_process :: "deamon_context_t \<Rightarrow> u8 list \<Rightarrow> u32 \<Rightarrow> sys \<Rightarrow> (mqtt_ret \<times> sys) res" where
  "pubrec_msg_process ctx message message_len s =
     fbind (pubrec_message_parse (Some message) message_len (Some 0)) (\<lambda>(ret, packet_id).
     if ret \<noteq> MQTT_SUCCESS then Inr (ret, s)
     else fbind (deref packet_id) (\<lambda>packet_id. pubrel_msg_sent ctx packet_id s))"

definition pubrel_msg_process :: "deamon_context_t \<Rightarrow> u8 list \<Rightarrow> u32 \<Rightarrow> sys \<Rightarrow> (mqtt_ret \<times> sys) res" where
  "pubrel_msg_process ctx message message_len s =
     fbind (pubrel_message_parse (Some message) message_len (Some 0)) (\<lambda>(ret, _). Inr (ret, s))"

definition pubcomp_msg_process :: "deamon_context_t \<Rightarrow> u8 list \<Rightarrow> u32 \<Rightarrow> sys \<Rightarrow> (mqtt_ret \<times> sys) res" where
  "pubcomp_msg_process ctx message message_len s =
     fbind (pubcomp_message_parse (Some message) message_len (Some 0)) (\<lambda>(ret, _). Inr (ret, s))"

definition suback_msg_process :: "deamon_context_t \<Rightarrow> u8 list \<Rightarrow> u32 \<Rightarrow> sys \<Rightarrow> (mqtt_ret \<times> sys) res" where
  "suback_msg_process ctx message message_len s =
     fbind (suback_message_parse (Some message) message_len (Some 0)
              (Some \<lparr>sd_qos = NULL, sd_size = 0, sd_capacity = 0\<rparr>) (sy_heap s)) (\<lambda>(ret, _, data, h).
     if ret \<noteq> MQTT_SUCCESS
     then fbind (suback_data_release data h) (\<lambda>(_, _, h). Inr (ret, s\<lparr>sy_heap := h\<rparr>))
     else Inr (MQTT_SUCCESS, s\<lparr>sy_heap := h\<rparr>))"

definition unsuback_msg_process :: "deamon_context_t \<Rightarrow> u8 list \<Rightarrow> u32 \<Rightarrow> sys \<Rightarrow> (mqtt_ret \<times> sys) res" where
  "unsuback_msg_process ctx message message_len s =
     fbind (unsuback_message_parse (Some message) message_len (Some 0)) (\<lambda>(ret, _). Inr (ret, s))"

definition pingresp_msg_process :: "deamon_context_t \<Rightarrow> u8 list \<Rightarrow> u32 \<Rightarrow> sys \<Rightarrow> (mqtt_ret \<times> sys) res" where
  "pingresp_msg_process ctx message message_len s = Inr (MQTT_SUCCESS, s)"

section \<open>What is sent\<close>

text \<open>A message goes out in one call; only a result of -1 counts as an error.\<close>

definition transmit :: "deamon_context_t \<Rightarrow> u8 list \<Rightarrow> sys \<Rightarrow> mqtt_ret \<times> sys" where
  "transmit ctx bytes s =
     (let (r, w) = call_int (Send (socket_fd (mc_conn (dc_client ctx))) bytes) (sy_os s)
      in (if r = -1 then MQTT_MESSAGE_SEND_ERROR else MQTT_SUCCESS, s\<lparr>sy_os := w\<rparr>))"

lemma transmit_trace:
  "trace (sy_os (snd (transmit ctx bytes s))) = Send (socket_fd (mc_conn (dc_client ctx))) bytes # trace (sy_os s)"
  by (simp add: transmit_def split_beta)

lemma transmit_rest:
  "sy_heap (snd (transmit ctx bytes s)) = sy_heap s" "sy_send_list (snd (transmit ctx bytes s)) = sy_send_list s"
  "sy_keep_alive_timestamp (snd (transmit ctx bytes s)) = sy_keep_alive_timestamp s"
  "sy_buffer (snd (transmit ctx bytes s)) = sy_buffer s"
  "int_reply (sy_os (snd (transmit ctx bytes s))) = int_reply (sy_os s)"
  "recv_reply (sy_os (snd (transmit ctx bytes s))) = recv_reply (sy_os s)"
  by (simp_all add: transmit_def split_beta)

lemma built_msg_sent_eq:
  "unat n \<le> length buf \<Longrightarrow>
   built_msg_sent ctx (Inr (MQTT_SUCCESS, Some buf, Some n)) s = Inr (transmit ctx (take (unat n) buf) s)"
  by (simp add: built_msg_sent_def transmit_def network_send_eq split_beta)

lemma pingreq_msg_sent_eq: "pingreq_msg_sent ctx s = Inr (transmit ctx [0xC0, 0] s)"
  by (simp add: pingreq_msg_sent_def pingreq_message_build_ok built_msg_sent_eq)

context ack_codec begin

lemma ack_msg_sent_eq: "ack_msg_sent build ctx i s = Inr (transmit ctx (ack_bytes hdr i) s)"
  using build_ok [of "of_nat ACK_MESSAGE_LENGTH" "replicate ACK_MESSAGE_LENGTH 0" i]
  by (simp add: ack_msg_sent_def built_msg_sent_eq)

end

lemmas acks_sent =
  pubrec.ack_msg_sent_eq [folded pubrec_msg_sent_def] pubrel.ack_msg_sent_eq [folded pubrel_msg_sent_def]
  pubcomp.ack_msg_sent_eq [folded pubcomp_msg_sent_def]

lemma puback_msg_sent_eq:
  "puback_msg_sent ctx i s =
     (case transmit ctx (ack_bytes 0x40 i) s of (ret, s') \<Rightarrow>
        if ret \<noteq> MQTT_SUCCESS then Some (Inr (ret, s'))
        else obind (message_send_remove (Some (sy_send_list s)) i (sy_heap s)) (\<lambda>(_, list, h).
             Some (Inr (MQTT_SUCCESS, s'\<lparr>sy_send_list := the list, sy_heap := h\<rparr>))))"
  using transmit_rest(1,2) [of ctx "ack_bytes 0x40 i" s]
  by (simp add: puback_msg_sent_def puback.ack_msg_sent_eq split_beta)

section \<open>What is received\<close>

lemma publish_msg_process_frame:
  fixes topic payload rest :: "u8 list" and i :: u16 and q :: u8
  defines "at_topic \<equiv> topic @ (if q = 0 then [] else be16 i) @ payload @ rest"
  assumes "length topic < 65536" and "length (publish_body topic (if q = 0 then None else Some i) payload) < 268435456"
    and "q < MQTT_QOS_MAX" and "m = frame (publish_flags d q r) (publish_body topic (if q = 0 then None else Some i) payload)"
  shows "publish_msg_process ctx (m @ rest) (of_nat (length m)) (Some cb) s =
     obind (Some (cb at_topic (of_nat (length topic)) (payload @ rest) (of_nat (length payload)) s)) (\<lambda>s.
       if q = 1 then puback_msg_sent ctx i s
       else if q = 2 then Some (Inr (transmit ctx (frame 0x50 (be16 i)) s))
       else Some (Inr (MQTT_SUCCESS, s)))"
proof -
  have "length payload < 2 ^ 32" using assms(3) by (simp add: length_publish_body)
  then have "(ucast (of_nat (length payload) :: u32) :: u16) = of_nat (length payload)"
    by (simp add: unsigned_of_nat take_bit_nat_eq_self)
  moreover obtain out where "publish_message_parse (Some (m @ rest)) (of_nat (length m)) (Some no_publish) = Inr (MQTT_SUCCESS, Some out)"
    and "pub_qos out = q" "pub_topic out = Some at_topic" "pub_topic_len out = of_nat (length topic)"
      "q \<noteq> 0 \<longrightarrow> pub_packet_id out = i" "pub_payload out = Some (payload @ rest)" "pub_payload_len out = of_nat (length payload)"
    using publish_message_parse_frame [OF assms(2-5), of rest no_publish] unfolding at_topic_def by simp
  ultimately show ?thesis
    by (cases "q = 0"; cases "cb at_topic (of_nat (length topic)) (payload @ rest) (of_nat (length payload)) s")
      (simp_all add: publish_msg_process_def acks_sent ack_bytes_frame)
qed

section \<open>Properties\<close>

text \<open>
  C12. A PUBLISH message is delivered and answered according to its quality of service. For every
  message of the standard, whatever is behind it in the buffer, the callback is called once, with
  the topic at its place in the buffer, its length, the payload and its length modulo
  \<open>2\<^sup>1\<^sup>6\<close>; then nothing is sent for quality of service 0, a PUBACK for 1 and a PUBREC for 2,
  with the packet identifier of the message. If the callback fails nothing is sent.
\<close>

theorem publish_msg_process_answers:
  fixes topic payload rest :: "u8 list" and i :: u16 and q :: u8
  defines "at_topic \<equiv> topic @ (if q = 0 then [] else be16 i) @ payload @ rest"
  assumes "length topic < 65536" and "length (publish_body topic (if q = 0 then None else Some i) payload) < 268435456"
    and "q < MQTT_QOS_MAX" and "m = frame (publish_flags d q r) (publish_body topic (if q = 0 then None else Some i) payload)"
  shows "publish_msg_process ctx (m @ rest) (of_nat (length m)) (Some cb) s =
     obind (Some (cb at_topic (of_nat (length topic)) (payload @ rest) (of_nat (length payload)) s)) (\<lambda>s.
       if q = 1 then puback_msg_sent ctx i s
       else if q = 2 then Some (Inr (transmit ctx (frame 0x50 (be16 i)) s))
       else Some (Inr (MQTT_SUCCESS, s)))"
  using assms(2-5) unfolding at_topic_def by (rule publish_msg_process_frame)

theorem publish_msg_process_answers_witness:
  fixes m :: "u8 list"
  defines "m \<equiv> frame (publish_flags False 2 True) (publish_body [116] (Some 7) [72, 105])"
  shows "\<forall>ctx s. publish_msg_process ctx (m @ [9]) (of_nat (length m)) (Some (\<lambda>_ _ _ _ s. Inr s)) s =
     obind (Some (Inr s)) (\<lambda>s. if (2 :: u8) = 1 then puback_msg_sent ctx 7 s
       else if (2 :: u8) = 2 then Some (Inr (transmit ctx (frame 0x50 (be16 7)) s)) else Some (Inr (MQTT_SUCCESS, s)))"
proof (intro allI)
  fix ctx s
  show "publish_msg_process ctx (m @ [9]) (of_nat (length m)) (Some (\<lambda>_ _ _ _ s. Inr s)) s =
     obind (Some (Inr s)) (\<lambda>s. if (2 :: u8) = 1 then puback_msg_sent ctx 7 s
       else if (2 :: u8) = 2 then Some (Inr (transmit ctx (frame 0x50 (be16 7)) s)) else Some (Inr (MQTT_SUCCESS, s)))"
    by (rule publish_msg_process_answers [where topic = "[116]" and payload = "[72, 105]" and r = True and d = False])
      (simp_all add: m_def length_publish_body)
qed

text \<open>
  C24. A PUBACK takes a packet out of the client's own queue of sent messages: when it was sent, the
  first waiting packet with the identifier that the server chose for its message is removed, and
  with an empty queue, so for the first message of quality of service 1 that a client without
  pending messages receives, the code reads through \<^verbatim>\<open>NULL\<close>.
\<close>

theorem puback_msg_sent_settles:
  assumes "queue (sy_heap s) (sy_send_list s) qs" and "fst (transmit ctx (frame 0x40 (be16 i)) s) = MQTT_SUCCESS"
  shows "if qs = [] then puback_msg_sent ctx i s = Some (Inl Null_Deref)
     else \<exists>s'. puback_msg_sent ctx i s = Some (Inr (MQTT_SUCCESS, s')) \<and>
       queue (sy_heap s') (sy_send_list s') (remove_packet i qs) \<and>
       trace (sy_os s') = Send (socket_fd (mc_conn (dc_client ctx))) (frame 0x40 (be16 i)) # trace (sy_os s)"
proof (cases "qs = []")
  case True
  with assms(1) have "sy_send_list s = NULL" by (auto simp: queue_def send_list_def)
  with True show ?thesis
    using assms(2) by (simp add: puback_msg_sent_eq ack_bytes_frame split_beta message_send_remove_def load_NULL)
next
  case False
  obtain p' h' where "message_send_remove (Some (sy_send_list s)) i (sy_heap s) =
      Some (Inr (if i \<in> fst ` set qs then MQTT_SUCCESS else MQTT_UNKNOWN, Some p', h'))" "queue h' p' (remove_packet i qs)"
    using message_send_remove_ok [OF assms(1) False, of i] by blast
  then show ?thesis
    using assms(2) False transmit_trace [of ctx "frame 0x40 (be16 i)" s]
    by (simp add: puback_msg_sent_eq ack_bytes_frame split_beta)
qed

theorem puback_msg_sent_settles_witness:
  fixes ctx :: deamon_context_t and s :: sys
  defines "ctx \<equiv> \<lparr>dc_client = \<lparr>mc_state = MQTT_CLIENT_STATE_CONNECTED, mc_conn = \<lparr>socket_fd = 3\<rparr>, mc_keep_alive = 60,
      mc_timeout_sec = 5, mc_client_id = NULL, mc_client_id_len = 0, mc_sp = 0, mc_packet_id_next = 1\<rparr>,
      dc_sock_fd = 3, dc_timer_fd = 4, dc_epoll_fd = 5\<rparr>"
    and "s \<equiv> \<lparr>sy_heap = \<lparr>cells = [], fresh = 0, oom = \<lambda>_. False, junk = \<lambda>_. 0\<rparr>,
      sy_os = \<lparr>trace = [], errno = 0, int_reply = \<lambda>_. Inr 4, recv_reply = \<lambda>_. Inr [], wait_reply = \<lambda>_. Inr []\<rparr>,
      sy_keep_alive_timestamp = 0, sy_send_list = NULL, sy_buffer = []\<rparr>"
  shows "if ([] :: packet list) = [] then puback_msg_sent ctx 7 s = Some (Inl Null_Deref)
     else \<exists>s'. puback_msg_sent ctx 7 s = Some (Inr (MQTT_SUCCESS, s')) \<and>
       queue (sy_heap s') (sy_send_list s') (remove_packet 7 []) \<and>
       trace (sy_os s') = Send (socket_fd (mc_conn (dc_client ctx))) (frame 0x40 (be16 7)) # trace (sy_os s)"
proof (rule puback_msg_sent_settles)
  show "queue (sy_heap s) (sy_send_list s) []" by (simp add: s_def queue_def heap_ok_def live_def)
  show "fst (transmit ctx (frame 0x40 (be16 7)) s) = MQTT_SUCCESS"
    by (simp add: transmit_def s_def call_int_def)
qed

text \<open>
  C25. A PUBREL is sent only as the answer to a PUBREC, with its packet identifier: whatever bytes
  were received as a PUBREC, if processing them returns, then either they begin with a PUBREC and
  the PUBREL with that identifier was handed to the network, or the result is an error and
  nothing changed.
\<close>

theorem pubrel_only_after_pubrec:
  assumes "pubrec_msg_process ctx p n s = Inr (ret, s')"
  shows "(\<exists>i. take 4 p = frame 0x50 (be16 i) \<and> (ret, s') = transmit ctx (frame 0x60 (be16 i)) s) \<or>
     ret \<noteq> MQTT_SUCCESS \<and> s' = s"
proof -
  from assms obtain r out where r: "pubrec_message_parse (Some p) n (Some 0) = Inr (r, out)"
    unfolding pubrec_msg_process_def by (auto simp: fbind_eq_Inr)
  show ?thesis
  proof (cases "r = MQTT_SUCCESS")
    case True
    with pubrec.parse_sound [OF r [unfolded True]] r assms show ?thesis
      by (auto simp: pubrec_msg_process_def acks_sent ack_bytes_frame)
  qed (use r assms in \<open>auto simp: pubrec_msg_process_def\<close>)
qed

theorem pubrel_only_after_pubrec_witness:
  "\<forall>ctx s. (\<exists>i. take 4 (frame 0x50 (be16 7)) = frame 0x50 (be16 i) \<and>
       transmit ctx (frame 0x60 (be16 7)) s = transmit ctx (frame 0x60 (be16 i)) s) \<or>
     fst (transmit ctx (frame 0x60 (be16 7)) s) \<noteq> MQTT_SUCCESS \<and> snd (transmit ctx (frame 0x60 (be16 7)) s) = s"
proof (intro allI)
  fix ctx s
  have "pubrec_msg_process ctx (frame 0x50 (be16 7)) 4 s =
      Inr (fst (transmit ctx (frame 0x60 (be16 7)) s), snd (transmit ctx (frame 0x60 (be16 7)) s))"
    using pubrec.parse_ok [of 7 "[]" 0] by (simp add: pubrec_msg_process_def acks_sent ack_bytes_frame)
  from pubrel_only_after_pubrec [OF this] show "(\<exists>i. take 4 (frame 0x50 (be16 7)) = frame 0x50 (be16 i) \<and>
       transmit ctx (frame 0x60 (be16 7)) s = transmit ctx (frame 0x60 (be16 i)) s) \<or>
     fst (transmit ctx (frame 0x60 (be16 7)) s) \<noteq> MQTT_SUCCESS \<and> snd (transmit ctx (frame 0x60 (be16 7)) s) = s"
    by simp
qed

end
