(* ===== verification/Deamon_Socket.thy ===== *)
theory Deamon_Socket
  imports Client_Process
begin

text \<open>
  client/client_deamon.c, the first half: the callbacks and the handler of the socket, which
  receives messages and hands them to the functions of client_message_process.c. The functions the
  application registered are a record; a callback that is \<^verbatim>\<open>NULL\<close> is
  \<open>None\<close>, and the callbacks stay as they are while a handler runs.
\<close>

type_synonym timeout_callback = "link \<Rightarrow> sys \<Rightarrow> sys res"

record callbacks =
  timeout_cb :: "timeout_callback option"
  publish_cb :: "publish_callback option"

abbreviation (input) BUFFER_SIZE :: nat where "BUFFER_SIZE \<equiv> 1024"
abbreviation (input) MESSAGE_HEADER_LENGTH :: nat where "MESSAGE_HEADER_LENGTH \<equiv> 5"

section \<open>The callbacks\<close>

text \<open>
  The default for messages prints the topic and the payload as C strings: it reads both up to a
  byte 0, not up to their lengths.
\<close>

definition c_string :: "u8 list \<Rightarrow> u8 list res" where
  "c_string p = (if 0 \<in> set p then Inr (takeWhile (\<lambda>b. b \<noteq> 0) p) else Inl Out_Of_Bounds)"

definition publish_cb_default :: publish_callback where
  "publish_cb_default topic topic_len payload payload_len s =
     fbind (c_string topic) (\<lambda>_. fbind (c_string payload) (\<lambda>_. Inr s))"

definition timeout_cb_default :: timeout_callback where
  "timeout_cb_default msg s = fbind (load_msg msg (sy_heap s)) (\<lambda>_. Inr s)"

definition callbacks_default :: callbacks where
  "callbacks_default = \<lparr>timeout_cb = Some timeout_cb_default, publish_cb = Some publish_cb_default\<rparr>"

definition publish_callback_register :: "publish_callback option \<Rightarrow> callbacks \<Rightarrow> int \<times> callbacks" where
  "publish_callback_register pc cb = (0, cb\<lparr>publish_cb := pc\<rparr>)"

definition timeout_callback_register :: "timeout_callback option \<Rightarrow> callbacks \<Rightarrow> int \<times> callbacks" where
  "timeout_callback_register tc cb = (0, cb\<lparr>timeout_cb := tc\<rparr>)"

section \<open>The socket event\<close>

text \<open>
  One turn of the loop either returns from the handler or comes to the loop's test with the
  value of \<^verbatim>\<open>ret\<close>, which is the return code of the processing of the message or,
  for a message that is ignored, what the last call before the switch returned.
\<close>

datatype turn = Leave int | Next int

definition ret_of :: "(mqtt_ret \<times> sys) outcome \<Rightarrow> (turn \<times> sys) outcome" where
  "ret_of m = obind m (\<lambda>(ret, s). Some (Inr (Next (ret_code ret), s)))"

definition dispatch_message ::
  "deamon_context_t \<Rightarrow> callbacks \<Rightarrow> mqtt_message_type \<Rightarrow> u32 \<Rightarrow> int \<Rightarrow> sys \<Rightarrow> (turn \<times> sys) outcome" where
  "dispatch_message ctx cb message_type message_len ret s =
     (let buffer = sy_buffer s
      in case message_type of
           MQTT_MESSAGE_TYPE_CONNECT \<Rightarrow> Some (Inr (Next ret, s))
         | MQTT_MESSAGE_TYPE_CONNACK \<Rightarrow> Some (Inr (Next ret, s))
         | MQTT_MESSAGE_TYPE_PUBLISH \<Rightarrow> ret_of (publish_msg_process ctx buffer message_len (publish_cb cb) s)
         | MQTT_MESSAGE_TYPE_PUBACK \<Rightarrow> ret_of (Some (puback_msg_process ctx buffer message_len s))
         | MQTT_MESSAGE_TYPE_PUBREC \<Rightarrow> ret_of (Some (pubrec_msg_process ctx buffer message_len s))
         | MQTT_MESSAGE_TYPE_PUBREL \<Rightarrow> ret_of (Some (pubrel_msg_process ctx buffer message_len s))
         | MQTT_MESSAGE_TYPE_PUBCOMP \<Rightarrow> ret_of (Some (pubcomp_msg_process ctx buffer message_len s))
         | MQTT_MESSAGE_TYPE_SUBSCRIBE \<Rightarrow> Some (Inr (Next ret, s))
         | MQTT_MESSAGE_TYPE_SUBACK \<Rightarrow> ret_of (Some (suback_msg_process ctx buffer message_len s))
         | MQTT_MESSAGE_TYPE_UNSUBSCRIBE \<Rightarrow> Some (Inr (Next ret, s))
         | MQTT_MESSAGE_TYPE_UNSUBACK \<Rightarrow> ret_of (Some (unsuback_msg_process ctx buffer message_len s))
         | MQTT_MESSAGE_TYPE_PINGREQ \<Rightarrow> Some (Inr (Next ret, s))
         | MQTT_MESSAGE_TYPE_PINGRESP \<Rightarrow> ret_of (Some (pingresp_msg_process ctx buffer message_len s))
         | MQTT_MESSAGE_TYPE_DISCONNECT \<Rightarrow> Some (Inr (Next ret, s))
         | _ \<Rightarrow> Some (Inr (Leave (ret_code MQTT_MESSAGE_TYPE_ERROR), s)))"

text \<open>
  The rest of a message that is longer than what the first receive brought. The comparison and
  the subtraction are on 32-bit unsigned integers.
\<close>

definition receive_rest :: "deamon_context_t \<Rightarrow> int \<Rightarrow> u32 \<Rightarrow> int \<Rightarrow> sys \<Rightarrow> (int \<times> sys) res" where
  "receive_rest ctx recv_len message_len ret s =
     (if of_int recv_len < message_len
      then fbind (network_recv (mc_conn (dc_client ctx)) (sy_buffer s) (nat recv_len)
                    (unat (message_len - of_int recv_len)) (sy_os s)) (\<lambda>(ret, buffer, w).
           Inr (ret, s\<lparr>sy_buffer := buffer, sy_os := w\<rparr>))
      else Inr (ret, s))"

text \<open>
  The test on the result of the header's decoder is for a negative number; the return codes are
  not negative. The type has no value before the decoder stores one, which it always does.
\<close>

definition socket_turn :: "deamon_context_t \<Rightarrow> callbacks \<Rightarrow> sys \<Rightarrow> (turn \<times> sys) outcome" where
  "socket_turn ctx cb s =
     obind (Some (network_recv (mc_conn (dc_client ctx)) (replicate BUFFER_SIZE 0) 0 MESSAGE_HEADER_LENGTH (sy_os s)))
       (\<lambda>(recv_len, buffer, w).
     let s = s\<lparr>sy_buffer := buffer, sy_os := w\<rparr>
     in if recv_len < 0 then Some (Inr (Leave (ret_code MQTT_MESSAGE_RECV_ERROR), s))
        else obind (Some (message_fixed_header_decode (Some buffer) (Some (of_int recv_len)) (Some MQTT_MESSAGE_TYPE_MIN) (Some 0)))
               (\<lambda>(ret, message_len, message_type, remain_len).
             if ret_code ret < 0 then Some (Inr (Leave (ret_code ret), s))
             else obind (Some (deref message_len)) (\<lambda>message_len.
                  obind (Some (deref message_type)) (\<lambda>message_type.
                  obind (Some (receive_rest ctx recv_len message_len (ret_code ret) s)) (\<lambda>(ret, s).
                  if of_int recv_len < message_len \<and> ret < 0 then Some (Inr (Leave (ret_code MQTT_MESSAGE_RECV_ERROR), s))
                  else dispatch_message ctx cb message_type message_len ret s)))))"

text \<open>The loop goes on after every return code; it need not end.\<close>

partial_function (option) process_socket_event :: "deamon_context_t \<Rightarrow> callbacks \<Rightarrow> sys \<Rightarrow> (int \<times> sys) outcome" where
  "process_socket_event ctx cb s =
     obind (socket_turn ctx cb s) (\<lambda>(t, s).
       case t of Leave ret \<Rightarrow> Some (Inr (ret, s))
       | Next ret \<Rightarrow> if ret \<le> int BUFFER_SIZE then process_socket_event ctx cb s else Some (Inr (0, s)))"

section \<open>Lemmas: one turn of the socket handler\<close>

definition padded :: "u8 list \<Rightarrow> u8 list" where
  "padded bs = bs @ replicate (BUFFER_SIZE - length bs) 0"

lemma length_padded: "length bs \<le> 1024 \<Longrightarrow> length (padded bs) = 1024"
  by (simp add: padded_def)

text \<open>The state after \<open>bs\<close> was received by the calls \<open>calls\<close>, the last one first.\<close>

definition heard :: "u8 list \<Rightarrow> syscall list \<Rightarrow> sys \<Rightarrow> sys" where
  "heard bs calls s = s\<lparr>sy_buffer := padded bs, sy_os := (sy_os s)\<lparr>trace := calls @ trace (sy_os s)\<rparr>\<rparr>"

definition deamon_fd :: "deamon_context_t \<Rightarrow> int" where
  "deamon_fd ctx = socket_fd (mc_conn (dc_client ctx))"

definition answers :: "sys \<Rightarrow> int \<Rightarrow> nat \<Rightarrow> syscall list \<Rightarrow> u8 list \<Rightarrow> bool" where
  "answers s fd n calls bs \<longleftrightarrow> recv_reply (sy_os s) (Recv fd n # calls @ trace (sy_os s)) = Inr bs"

lemma recv_first:
  assumes "answers s (deamon_fd ctx) 5 [] bs" and "length bs \<le> 5"
  shows "network_recv (mc_conn (dc_client ctx)) (replicate BUFFER_SIZE 0) 0 MESSAGE_HEADER_LENGTH (sy_os s) =
     Inr (int (length bs), padded bs, (sy_os s)\<lparr>trace := Recv (deamon_fd ctx) 5 # trace (sy_os s)\<rparr>)"
  using assms unfolding answers_def deamon_fd_def padded_def
  by (simp add: network_recv_Inr wr_bytes_at_0)

lemma socket_turn_decoded:
  assumes "answers s (deamon_fd ctx) 5 [] bs" and "length bs \<le> 5"
    and "message_fixed_header_decode (Some (padded bs)) (Some (of_nat (length bs))) (Some MQTT_MESSAGE_TYPE_MIN) (Some 0) =
      Inr (MQTT_SUCCESS, Some n, Some t, r)"
  shows "socket_turn ctx cb s =
     obind (Some (receive_rest ctx (int (length bs)) n 0 (heard bs [Recv (deamon_fd ctx) 5] s))) (\<lambda>(ret, s).
       if of_nat (length bs) < n \<and> ret < 0 then Some (Inr (Leave (ret_code MQTT_MESSAGE_RECV_ERROR), s))
       else dispatch_message ctx cb t n ret s)"
  using recv_first [OF assms(1,2)] assms(3) unfolding socket_turn_def heard_def
  by (simp add: Let_def)

lemma receive_rest_done: "\<not> of_int k < n \<Longrightarrow> receive_rest ctx k n ret s = Inr (ret, s)"
  by (simp add: receive_rest_def)

lemma receive_rest_more:
  assumes "answers s (deamon_fd ctx) (n - length bs) calls cs" and "length bs < n" and "n < 4294967296"
    and "length bs \<le> 1024"
  shows "receive_rest ctx (int (length bs)) (of_nat n) ret (heard bs calls s) =
     (if length bs + length cs \<le> 1024
      then Inr (int (length cs), heard (bs @ cs) (Recv (deamon_fd ctx) (n - length bs) # calls) s) else Inl Out_Of_Bounds)"
proof -
  let ?k = "length bs"
  have lt: "(of_nat ?k :: u32) < of_nat n" and sub: "unat (of_nat n - of_nat ?k :: u32) = n - ?k"
    using assms(2,3) by (simp_all add: word_less_nat_alt unat_u32_sub unat_u32_of_nat)
  let ?w = "sy_os (heard bs calls s)"
  have reply: "recv_reply ?w (Recv (deamon_fd ctx) (n - ?k) # trace ?w) = Inr cs"
    using assms(1) by (simp add: answers_def heard_def)
  have "wr_bytes (padded bs) ?k cs = (if ?k + length cs \<le> 1024 then Inr (padded (bs @ cs)) else Inl Out_Of_Bounds)"
    using assms(4) by (simp add: wr_bytes_def padded_def)
  then show ?thesis
    using lt sub network_recv_Inr [OF reply [unfolded deamon_fd_def], of "padded bs" ?k]
    by (simp add: receive_rest_def heard_def deamon_fd_def)
qed

text \<open>The header of a frame, of which at least the encoded length has arrived.\<close>

lemma decode_padded_frame:
  assumes "length body < 268435456" and "bs = b # varint (length body) @ rest" and "length bs \<le> 5"
  shows "message_fixed_header_decode (Some (padded bs)) (Some (of_nat (length bs))) (Some t) (Some r) =
     Inr (MQTT_SUCCESS, Some (of_nat (length (frame b body))), Some (type_of_code (type_bits b)), Some (of_nat (length body)))"
proof -
  have "unat (of_nat (length bs) :: u32) = length bs" by (rule unat_u32_of_nat) (use assms(3) in linarith)
  then have "length (varint (length body)) \<le> unat (of_nat (length bs) :: u32)" by (simp add: assms(2))
  from message_fixed_header_decode_frame [OF assms(1) this, of b "rest @ replicate (BUFFER_SIZE - length bs) 0" t r]
  show ?thesis by (simp add: frame_def padded_def assms(2))
qed

lemma socket_turn_whole:
  assumes "length body < 268435456" and "m = frame b body" and "length (m @ extra) \<le> 5"
    and "answers s (deamon_fd ctx) 5 [] (m @ extra)"
  shows "socket_turn ctx cb s =
     dispatch_message ctx cb (type_of_code (type_bits b)) (of_nat (length m)) 0
       (heard (m @ extra) [Recv (deamon_fd ctx) 5] s)"
proof -
  have "m @ extra = b # varint (length body) @ body @ extra" by (simp add: assms(2) frame_def)
  note dec = socket_turn_decoded [OF assms(4,3) decode_padded_frame [OF assms(1) this assms(3)]]
  have "\<not> (of_nat (length (m @ extra)) :: u32) < of_nat (length m)"
    unfolding word_less_nat_alt not_less by (subst (1 2) unat_u32_of_nat) (use assms(3) in simp_all)
  then show ?thesis unfolding dec assms(2) [symmetric] by (simp add: receive_rest_done)
qed

lemma socket_turn_split:
  assumes "length body < 268435456" and "m = frame b body" and "1 + length (varint (length body)) \<le> k"
    and "k \<le> 5" and "k < length m" and "answers s (deamon_fd ctx) 5 [] (take k m)"
    and "answers s (deamon_fd ctx) (length m - k) [Recv (deamon_fd ctx) 5] (drop k m)"
  shows "socket_turn ctx cb s =
     (if length m \<le> 1024
      then dispatch_message ctx cb (type_of_code (type_bits b)) (of_nat (length m)) (int (length m - k))
             (heard m [Recv (deamon_fd ctx) (length m - k), Recv (deamon_fd ctx) 5] s)
      else Some (Inl Out_Of_Bounds))"
proof -
  let ?bs = "take k m"
  have len: "length ?bs = k" using assms(5) by simp
  obtain j where j: "k = Suc (length (varint (length body)) + j)" using assms(3) by (auto simp: le_iff_add)
  have bs: "?bs = b # varint (length body) @ take j body" by (simp add: assms(2) frame_def j)
  have "length ?bs \<le> 5" using len assms(4) by simp
  note dec = socket_turn_decoded [OF assms(6) this decode_padded_frame [OF assms(1) bs this]]
  have small: "length m < 4294967296"
    using assms(1) length_varint_4 [of "length body"] by (simp add: assms(2) frame_def)
  have "answers s (deamon_fd ctx) (length m - length ?bs) [Recv (deamon_fd ctx) 5] (drop k m)" using assms(7) len by simp
  from receive_rest_more [OF this _ small, of 0] len assms(4,5)
  have "receive_rest ctx (int (length ?bs)) (of_nat (length m)) 0 (heard ?bs [Recv (deamon_fd ctx) 5] s) =
     (if length m \<le> 1024
      then Inr (int (length m - k), heard m [Recv (deamon_fd ctx) (length m - k), Recv (deamon_fd ctx) 5] s)
      else Inl Out_Of_Bounds)" by simp
  then show ?thesis unfolding dec assms(2) [symmetric] by simp
qed

text \<open>Fewer than two bytes: the encoded length is taken from the zeros of the buffer.\<close>

lemma socket_turn_short:
  assumes "length bs \<le> 1" and "answers s (deamon_fd ctx) 5 [] bs" and "length cs \<le> 2"
    and "answers s (deamon_fd ctx) (2 - length bs) [Recv (deamon_fd ctx) 5] cs"
  shows "socket_turn ctx cb s =
     dispatch_message ctx cb (type_of_code (type_bits (hd (bs @ [0])))) 2 (int (length cs))
       (heard (bs @ cs) [Recv (deamon_fd ctx) (2 - length bs), Recv (deamon_fd ctx) 5] s)"
proof -
  have dec: "message_fixed_header_decode (Some (padded bs)) (Some (of_nat (length bs))) (Some MQTT_MESSAGE_TYPE_MIN) (Some 0) =
      Inr (MQTT_SUCCESS, Some (of_nat 2), Some (type_of_code (type_bits (hd (bs @ [0])))), Some 0)"
  proof (cases bs)
    case Nil
    have "padded bs = 0 # replicate 1023 0" by (simp add: Nil padded_def flip: replicate_Suc)
    then show ?thesis by (simp add: Nil message_fixed_header_decode_eq remain_length_decode_none)
  next
    case (Cons b bs')
    then have bs: "bs = [b]" using assms(1) by simp
    have "padded bs = b # varint 0 @ replicate 1022 0" by (simp add: bs padded_def varint_small flip: replicate_Suc)
    then show ?thesis
      using message_fixed_header_decode_frame [of 0 1 b "replicate 1022 0" MQTT_MESSAGE_TYPE_MIN 0]
      by (simp add: bs varint_small)
  qed
  have "length bs \<le> 5" using assms(1) by simp
  note turn = socket_turn_decoded [OF assms(2) this dec]
  have "receive_rest ctx (int (length bs)) (of_nat 2) 0 (heard bs [Recv (deamon_fd ctx) 5] s) =
      Inr (int (length cs), heard (bs @ cs) [Recv (deamon_fd ctx) (2 - length bs), Recv (deamon_fd ctx) 5] s)"
    using receive_rest_more [OF assms(4), of 0] assms(1,3) by simp
  then show ?thesis unfolding turn by simp
qed

text \<open>
  The arrival of a whole message: the network brings it in the pieces that are asked for, and
  then it is in the buffer.
\<close>

definition comes :: "deamon_context_t \<Rightarrow> u8 list \<Rightarrow> sys \<Rightarrow> bool" where
  "comes ctx m s \<longleftrightarrow> answers s (deamon_fd ctx) 5 [] (take 5 m) \<and>
     (5 < length m \<longrightarrow> answers s (deamon_fd ctx) (length m - 5) [Recv (deamon_fd ctx) 5] (drop 5 m))"

definition arrived :: "deamon_context_t \<Rightarrow> u8 list \<Rightarrow> sys \<Rightarrow> sys" where
  "arrived ctx m s =
     (let n = length m; fd = deamon_fd ctx
      in heard m (if n \<le> 5 then [Recv fd 5] else [Recv fd (n - 5), Recv fd 5]) s)"

lemma arrived_state:
  "sy_buffer (arrived ctx m s) = padded m" "sy_heap (arrived ctx m s) = sy_heap s"
  "sy_send_list (arrived ctx m s) = sy_send_list s" "sy_keep_alive_timestamp (arrived ctx m s) = sy_keep_alive_timestamp s"
  by (simp_all add: arrived_def heard_def Let_def)

lemma socket_turn_message:
  assumes "length body < 268435456" and "m = frame b body" and "length m \<le> 1024" and "comes ctx m s"
  obtains r where "r \<le> 1024"
    and "socket_turn ctx cb s = dispatch_message ctx cb (type_of_code (type_bits b)) (of_nat (length m)) r (arrived ctx m s)"
proof (cases "length m \<le> 5")
  case True
  then have "socket_turn ctx cb s =
      dispatch_message ctx cb (type_of_code (type_bits b)) (of_nat (length m)) 0 (arrived ctx m s)"
    using socket_turn_whole [OF assms(1,2), of "[]" s ctx cb] assms(4) by (simp add: comes_def arrived_def Let_def)
  then show thesis by (rule that [rotated]) simp
next
  case False
  have "1 + length (varint (length body)) \<le> 5" using assms(1) by (simp add: length_varint_4)
  from socket_turn_split [OF assms(1,2) this] False assms(3,4)
  have "socket_turn ctx cb s =
      dispatch_message ctx cb (type_of_code (type_bits b)) (of_nat (length m)) (int (length m - 5)) (arrived ctx m s)"
    by (simp add: comes_def arrived_def Let_def)
  then show thesis by (rule that [rotated]) (use assms(3) in simp)
qed

lemma socket_turn_buffer: "socket_turn ctx cb (s\<lparr>sy_buffer := b\<rparr>) = socket_turn ctx cb s"
  by (simp add: socket_turn_def Let_def)

lemma process_socket_event_buffer: "process_socket_event ctx cb (s\<lparr>sy_buffer := b\<rparr>) = process_socket_event ctx cb s"
  by (subst (1 2) process_socket_event.simps) (simp add: socket_turn_buffer)

lemma process_socket_event_leave:
  "socket_turn ctx cb s = Some (Inr (Leave r, s')) \<Longrightarrow> process_socket_event ctx cb s = Some (Inr (r, s'))"
  by (subst process_socket_event.simps) simp

lemma process_socket_event_next:
  "socket_turn ctx cb s = Some (Inr (Next r, s')) \<Longrightarrow> r \<le> 1024 \<Longrightarrow>
   process_socket_event ctx cb s = process_socket_event ctx cb s'"
  by (subst process_socket_event.simps) simp

text \<open>The handler returns when a receive fails.\<close>

definition dropped :: "deamon_context_t \<Rightarrow> int \<Rightarrow> sys \<Rightarrow> sys" where
  "dropped ctx e s = s\<lparr>sy_buffer := replicate BUFFER_SIZE 0,
     sy_os := (sy_os s)\<lparr>trace := Recv (deamon_fd ctx) 5 # trace (sy_os s), errno := e\<rparr>\<rparr>"

lemma process_socket_event_dropped:
  assumes "recv_reply (sy_os s) (Recv (deamon_fd ctx) 5 # trace (sy_os s)) = Inl e"
  shows "process_socket_event ctx cb s = Some (Inr (ret_code MQTT_MESSAGE_RECV_ERROR, dropped ctx e s))"
  using assms network_recv_Inl [of "sy_os s" "mc_conn (dc_client ctx)" 5 e]
  by (intro process_socket_event_leave) (simp add: socket_turn_def dropped_def deamon_fd_def)

text \<open>Every return code of the processing functions leads to another turn.\<close>

lemma process_socket_event_again:
  assumes "socket_turn ctx cb s = ret_of m"
  shows "process_socket_event ctx cb s = obind m (\<lambda>(_, s). process_socket_event ctx cb s)"
proof -
  have small: "ret_code r \<le> 1024" for r using ret_code_range [of r] by simp
  have turn: "process_socket_event ctx cb s = obind (ret_of m) (\<lambda>(t, s). case t of Leave ret \<Rightarrow> Some (Inr (ret, s))
      | Next ret \<Rightarrow> if ret \<le> int BUFFER_SIZE then process_socket_event ctx cb s else Some (Inr (0, s)))"
    unfolding assms [symmetric] by (rule process_socket_event.simps)
  show ?thesis
  proof (cases m)
    case (Some r)
    then show ?thesis unfolding turn ret_of_def by (cases r) (simp_all add: small split: prod.split)
  qed (simp add: turn ret_of_def)
qed

text \<open>
  Why a turn leaves the handler: the last call was a receive that failed, the first one of the turn
  or the second one, or the first byte received (a 0 if there was none) is no message type.
\<close>

definition receive_failed :: "deamon_context_t \<Rightarrow> sys \<Rightarrow> sys \<Rightarrow> bool" where
  "receive_failed ctx s s' \<longleftrightarrow>
     (\<exists>n t. trace (sy_os s') = Recv (deamon_fd ctx) n # t \<and>
        (t = trace (sy_os s) \<or> t = Recv (deamon_fd ctx) 5 # trace (sy_os s)) \<and>
        recv_reply (sy_os s) (Recv (deamon_fd ctx) n # t) = Inl (errno (sy_os s')))"

definition no_message_type :: "deamon_context_t \<Rightarrow> sys \<Rightarrow> bool" where
  "no_message_type ctx s \<longleftrightarrow>
     (\<exists>bs. recv_reply (sy_os s) (Recv (deamon_fd ctx) 5 # trace (sy_os s)) = Inr bs \<and> unat (hd (bs @ [0])) div 16 \<in> {0, 15})"

lemma network_recv_cases:
  assumes "network_recv c buf off n w = Inr (k, b, w')"
  shows "trace w' = Recv (socket_fd c) n # trace w" and "recv_reply w' = recv_reply w"
    and "k < 0 \<Longrightarrow> recv_reply w (Recv (socket_fd c) n # trace w) = Inl (errno w')"
    and "0 \<le> k \<Longrightarrow> \<exists>bs. recv_reply w (Recv (socket_fd c) n # trace w) = Inr bs \<and> wr_bytes buf off bs = Inr b"
  using assms by (auto simp: network_recv_def Let_def fbind_eq_Inr split: sum.splits)

lemma dispatch_message_leave:
  assumes "dispatch_message ctx cb (type_of_code (type_bits b)) n ret s = Some (Inr (Leave r, s'))"
  shows "r = ret_code MQTT_MESSAGE_TYPE_ERROR \<and> unat b div 16 \<in> {0, 15}"
proof -
  let ?k = "unat (type_bits b)"
  have no_leave: "ret_of m \<noteq> Some (Inr (Leave r, s'))" for m by (auto simp: ret_of_def obind_eq_Some_Inr)
  have "?k < 16" by (rule unat_type_bits_lt)
  then have t: "type_of_code (type_bits b) = all_types ! ?k" by (simp add: type_of_code_def)
  have "?k \<in> {0, 15}"
  proof (rule ccontr)
    assume "?k \<notin> {0, 15}"
    with \<open>?k < 16\<close> have "?k \<in> {1, 2, 3, 4, 5, 6, 7, 8, 9, 10, 11, 12, 13, 14}"
      unfolding insert_iff empty_iff by presburger
    with assms no_leave show False unfolding t by (auto simp: dispatch_message_def all_types_def Let_def)
  qed
  with assms show ?thesis by (auto simp: t dispatch_message_def all_types_def unat_type_bits)
qed

lemma socket_turn_leave:
  assumes "socket_turn ctx cb s = Some (Inr (Leave r, s'))"
  shows "r = ret_code MQTT_MESSAGE_RECV_ERROR \<and> receive_failed ctx s s' \<or>
     r = ret_code MQTT_MESSAGE_TYPE_ERROR \<and> no_message_type ctx s"
proof -
  let ?c = "mc_conn (dc_client ctx)"
  from assms obtain k b w where recv: "network_recv ?c (replicate BUFFER_SIZE 0) 0 MESSAGE_HEADER_LENGTH (sy_os s) = Inr (k, b, w)"
    unfolding socket_turn_def by (auto simp: obind_eq_Some_Inr simp del: obind.simps)
  note c = network_recv_cases [OF recv, folded deamon_fd_def]
  let ?s = "s\<lparr>sy_buffer := b, sy_os := w\<rparr>"
  have nonneg: "\<not> ret_code q < 0" for q using ret_code_range [of q] by simp
  show ?thesis
  proof (cases "k < 0")
    case True
    with assms recv have "r = ret_code MQTT_MESSAGE_RECV_ERROR" "s' = ?s" unfolding socket_turn_def by (simp_all add: Let_def)
    then show ?thesis using c(1,3) True by (simp add: receive_failed_def)
  next
    case False
    then obtain bs where bs: "recv_reply (sy_os s) (Recv (deamon_fd ctx) 5 # trace (sy_os s)) = Inr bs"
      "wr_bytes (replicate BUFFER_SIZE 0) 0 bs = Inr b" using c(4) by auto
    have "b = bs @ replicate (BUFFER_SIZE - length bs) 0" "length bs \<le> 1024"
      using bs(2) by (auto simp: wr_bytes_def split: if_splits)
    then have hd: "hd b = hd (bs @ [0])" "b \<noteq> []" by (cases bs; simp)+
    then obtain p where b: "b = hd (bs @ [0]) # p" by (cases b) auto
    from assms recv False obtain n r1 s1 where rest: "receive_rest ctx k n (ret_code MQTT_SUCCESS) ?s = Inr (r1, s1)"
      and go: "(if of_int k < n \<and> r1 < 0 then Some (Inr (Leave (ret_code MQTT_MESSAGE_RECV_ERROR), s1))
        else dispatch_message ctx cb (type_of_code (type_bits (hd (bs @ [0])))) n r1 s1) = Some (Inr (Leave r, s'))"
      unfolding socket_turn_def b
      by (auto simp: obind_eq_Some_Inr Let_def nonneg message_fixed_header_decode_eq fbind_eq_Inr deref_def
          simp del: obind.simps ret_code.simps)
    show ?thesis
    proof (cases "of_int k < n \<and> r1 < 0")
      case True
      with rest obtain b2 w2 where recv2: "network_recv ?c (sy_buffer ?s) (nat k) (unat (n - of_int k)) (sy_os ?s) = Inr (r1, b2, w2)"
        and s1: "s1 = ?s\<lparr>sy_buffer := b2, sy_os := w2\<rparr>"
        by (auto simp: receive_rest_def fbind_eq_Inr)
      from network_recv_cases(1,3) [OF recv2, folded deamon_fd_def] True go c(1,2) show ?thesis
        by (auto simp: receive_failed_def s1)
    next
      case False
      with go dispatch_message_leave bs(1) show ?thesis by (auto simp: no_message_type_def)
    qed
  qed
qed

section \<open>Properties of the socket handler\<close>

text \<open>
  C27. The handler always asks for five bytes first. When a message of two to four bytes, such as
  an acknowledgement, arrives together with the beginning of the next one, it is processed, but
  the bytes behind it are in the buffer that the next turn clears without looking at it: they
  are lost and the next message is read from its middle.
\<close>

theorem socket_turn_drops_surplus:
  assumes "length body < 268435456" and "m = frame b body" and "length (m @ extra) \<le> 5"
    and "answers s (deamon_fd ctx) 5 [] (m @ extra)"
  shows "socket_turn ctx cb s =
       dispatch_message ctx cb (type_of_code (type_bits b)) (of_nat (length m)) 0
         (heard (m @ extra) [Recv (deamon_fd ctx) 5] s) \<and>
     (\<forall>s' lost. process_socket_event ctx cb (s'\<lparr>sy_buffer := lost\<rparr>) = process_socket_event ctx cb s')"
  using socket_turn_whole [OF assms] process_socket_event_buffer by blast

theorem socket_turn_drops_surplus_witness:
  fixes s :: sys
  defines "s \<equiv> \<lparr>sy_heap = \<lparr>cells = [], fresh = 0, oom = \<lambda>_. False, junk = \<lambda>_. 0\<rparr>,
      sy_os = \<lparr>trace = [], errno = 0, int_reply = \<lambda>_. Inr 4, recv_reply = \<lambda>_. Inr [0x40, 2, 0, 7, 0x40], wait_reply = \<lambda>_. Inr []\<rparr>,
      sy_keep_alive_timestamp = 0, sy_send_list = NULL, sy_buffer = []\<rparr>"
  shows "\<forall>ctx cb. socket_turn ctx cb s =
       dispatch_message ctx cb (type_of_code (type_bits 0x40)) (of_nat (length [0x40, 2, 0, 7 :: u8])) 0
         (heard ([0x40, 2, 0, 7] @ [0x40]) [Recv (deamon_fd ctx) 5] s) \<and>
     (\<forall>s' lost. process_socket_event ctx cb (s'\<lparr>sy_buffer := lost\<rparr>) = process_socket_event ctx cb s')"
proof (intro allI)
  fix ctx cb
  have "answers s (deamon_fd ctx) 5 [] ([0x40, 2, 0, 7] @ [0x40])" by (simp add: answers_def s_def)
  then show "socket_turn ctx cb s =
       dispatch_message ctx cb (type_of_code (type_bits 0x40)) (of_nat (length [0x40, 2, 0, 7 :: u8])) 0
         (heard ([0x40, 2, 0, 7] @ [0x40]) [Recv (deamon_fd ctx) 5] s) \<and>
     (\<forall>s' lost. process_socket_event ctx cb (s'\<lparr>sy_buffer := lost\<rparr>) = process_socket_event ctx cb s')"
    by (intro socket_turn_drops_surplus [where body = "[0, 7]"]) (simp_all add: frame_def varint_small)
qed

text \<open>
  C21. The length of a message is not compared with the size of the buffer. For every message of
  the standard of more than 1024 bytes, whatever its type, the second receive writes behind the
  end of the buffer when the network brings the message in the pieces that are asked for.
\<close>

theorem socket_turn_overflows:
  assumes "length body < 268435456" and "m = frame b body" and "1024 < length m"
    and "answers s (deamon_fd ctx) 5 [] (take 5 m)"
    and "answers s (deamon_fd ctx) (length m - 5) [Recv (deamon_fd ctx) 5] (drop 5 m)"
  shows "process_socket_event ctx cb s = Some (Inl Out_Of_Bounds)"
proof -
  have "1 + length (varint (length body)) \<le> 5" using assms(1) by (simp add: length_varint_4)
  from socket_turn_split [OF assms(1,2) this _ _ assms(4,5)] assms(3)
  show ?thesis by (subst process_socket_event.simps) simp
qed

theorem socket_turn_overflows_witness:
  fixes m :: "u8 list" and s :: sys
  defines "m \<equiv> frame 0x30 (replicate 2000 65)"
    and "s \<equiv> \<lparr>sy_heap = \<lparr>cells = [], fresh = 0, oom = \<lambda>_. False, junk = \<lambda>_. 0\<rparr>,
      sy_os = \<lparr>trace = [], errno = 0, int_reply = \<lambda>_. Inr 4,
        recv_reply = \<lambda>t. if tl t = [] then Inr (take 5 (frame 0x30 (replicate 2000 65))) else Inr (drop 5 (frame 0x30 (replicate 2000 65))),
        wait_reply = \<lambda>_. Inr []\<rparr>, sy_keep_alive_timestamp = 0, sy_send_list = NULL, sy_buffer = []\<rparr>"
  shows "\<forall>ctx cb. process_socket_event ctx cb s = Some (Inl Out_Of_Bounds)"
proof (intro allI)
  fix ctx cb
  show "process_socket_event ctx cb s = Some (Inl Out_Of_Bounds)"
  proof (rule socket_turn_overflows)
    show "m = frame 0x30 (replicate 2000 65)" by (simp only: m_def)
    show "1024 < length m" by (simp add: m_def frame_def)
    show "answers s (deamon_fd ctx) 5 [] (take 5 m)"
      by (simp only: answers_def s_def m_def sys.simps os.simps append_Nil list.sel if_True simp_thms)
    show "answers s (deamon_fd ctx) (length m - 5) [Recv (deamon_fd ctx) 5] (drop 5 m)"
      by (simp only: answers_def s_def m_def sys.simps os.simps append_Cons append_Nil list.sel list.distinct if_False)
  qed simp
qed

lemma receive_rest_result:
  assumes "receive_rest ctx k n 0 s = Inr (r, s')" and "length (sy_buffer s) = 1024"
  shows "r \<le> 1024"
proof (cases "of_int k < n")
  case True
  from True assms(1) obtain b w where "network_recv (mc_conn (dc_client ctx)) (sy_buffer s) (nat k) (unat (n - of_int k)) (sy_os s) = Inr (r, b, w)"
    by (auto simp: receive_rest_def fbind_eq_Inr)
  then show ?thesis
    using assms(2) by (auto simp: network_recv_def Let_def fbind_eq_Inr wr_bytes_def split: sum.splits if_splits)
qed (use assms(1) in \<open>simp add: receive_rest_def\<close>)

lemma dispatch_message_next:
  "dispatch_message ctx cb t n ret s = Some (Inr (Next r, s')) \<Longrightarrow> ret \<le> 1024 \<Longrightarrow> r \<le> 1024"
proof -
  have "ret_of m = Some (Inr (Next r, s')) \<Longrightarrow> r \<le> 1024" for m
    by (auto simp: ret_of_def obind_eq_Some_Inr intro: order_trans [OF conjunct2 [OF ret_code_range]] simp del: obind.simps)
  then show "dispatch_message ctx cb t n ret s = Some (Inr (Next r, s')) \<Longrightarrow> ret \<le> 1024 \<Longrightarrow> r \<le> 1024"
    by (cases t) (auto simp: dispatch_message_def Let_def)
qed

lemma socket_turn_next:
  assumes "socket_turn ctx cb s = Some (Inr (Next r, s'))"
  shows "r \<le> 1024"
proof -
  from assms obtain k b w where recv: "network_recv (mc_conn (dc_client ctx)) (replicate BUFFER_SIZE 0) 0 MESSAGE_HEADER_LENGTH (sy_os s) = Inr (k, b, w)"
    unfolding socket_turn_def by (auto simp: obind_eq_Some_Inr simp del: obind.simps)
  then have len: "length b = 1024"
    by (auto simp: network_recv_def Let_def fbind_eq_Inr dest!: wr_bytes_length split: sum.splits)
  let ?s = "s\<lparr>sy_buffer := b, sy_os := w\<rparr>"
  have zero: "q = MQTT_SUCCESS" if "message_fixed_header_decode (Some b) (Some n) (Some t0) (Some r0) = Inr (q, n', t, rl)" for n t0 r0 q n' t rl
  proof -
    from len obtain c p where "b = c # p" by (cases b) auto
    with that show ?thesis by (auto simp: message_fixed_header_decode_eq fbind_eq_Inr)
  qed
  from assms recv obtain n t rl r1 s1 where rest: "receive_rest ctx k n 0 ?s = Inr (r1, s1)"
    and disp: "dispatch_message ctx cb t n r1 s1 = Some (Inr (Next r, s'))"
    unfolding socket_turn_def
    by (auto simp: obind_eq_Some_Inr Let_def deref_def dest!: zero simp del: obind.simps split: if_splits option.splits)
  have "length (sy_buffer ?s) = 1024" using len by simp
  with rest have "r1 \<le> 1024" by (rule receive_rest_result)
  with disp show ?thesis by (rule dispatch_message_next)
qed

text \<open>The states the handler comes to by turns that process a message.\<close>

inductive turns :: "deamon_context_t \<Rightarrow> callbacks \<Rightarrow> sys \<Rightarrow> sys \<Rightarrow> bool" for ctx cb s where
  start: "turns ctx cb s s"
| turn: "turns ctx cb s s1 \<Longrightarrow> socket_turn ctx cb s1 = Some (Inr (Next r, s2)) \<Longrightarrow> turns ctx cb s s2"

lemma turns_first:
  "turns ctx cb s1 s2 \<Longrightarrow> socket_turn ctx cb s = Some (Inr (Next r, s1)) \<Longrightarrow> turns ctx cb s s2"
  by (induction rule: turns.induct) (auto intro: turns.intros)

lemma process_socket_event_turns:
  "turns ctx cb s s1 \<Longrightarrow> process_socket_event ctx cb s = process_socket_event ctx cb s1"
  by (induction rule: turns.induct) (auto simp: process_socket_event_next [OF _ socket_turn_next])

text \<open>If the handler returns, with a result or a fault, some turn does not go on.\<close>

lemma process_socket_event_ends:
  assumes "process_socket_event ctx cb s = Some y"
  shows "\<exists>s1. turns ctx cb s s1 \<and> (case y of Inr (r, s') \<Rightarrow> socket_turn ctx cb s1 = Some (Inr (Leave r, s'))
     | Inl e \<Rightarrow> socket_turn ctx cb s1 = Some (Inl e))"
proof -
  let ?E = "\<lambda>ctx cb s y s1. turns ctx cb s s1 \<and> (case y of Inr (r, s') \<Rightarrow> socket_turn ctx cb s1 = Some (Inr (Leave r, s'))
     | Inl e \<Rightarrow> socket_turn ctx cb s1 = Some (Inl e))"
  let ?P = "\<lambda>(ctx :: deamon_context_t) (cb :: callbacks) (s :: sys) (y :: (int \<times> sys) res). \<exists>s1. ?E ctx cb s y s1"
  show ?thesis
  proof (rule process_socket_event.raw_induct [of ?P ctx cb s y, OF _ assms])
    fix f ctx cb s y
    assume IH: "\<And>ctx cb s y. f ctx cb s = Some y \<Longrightarrow> ?P ctx cb s y"
      and step: "obind (socket_turn ctx cb s) (\<lambda>(t, s). case t of Leave ret \<Rightarrow> Some (Inr (ret, s))
         | Next ret \<Rightarrow> if ret \<le> int BUFFER_SIZE then f ctx cb s else Some (Inr (0, s))) = Some y"
    then obtain u where u: "socket_turn ctx cb s = Some u" by (cases "socket_turn ctx cb s") auto
    show "?P ctx cb s y"
    proof (cases u)
      case (Inl e)
      with step u have "?E ctx cb s y s" by (auto simp: turns.start)
      then show ?thesis by blast
    next
      case (Inr v)
      then obtain t s1 where v: "u = Inr (t, s1)" by (cases v) auto
      show ?thesis
      proof (cases t)
        case (Leave q)
        with step u v have "?E ctx cb s y s" by (auto simp: turns.start)
        then show ?thesis by blast
      next
        case (Next q)
        with u v have turn: "socket_turn ctx cb s = Some (Inr (Next q, s1))" by simp
        with step socket_turn_next [OF turn] IH [of ctx cb s1 y] obtain s2 where "?E ctx cb s1 y s2" by auto
        then have "?E ctx cb s y s2" using turns_first [OF _ turn] by blast
        then show ?thesis by blast
      qed
    qed
  qed
qed

text \<open>
  C23. The handler of the socket never returns with success, and returns for two reasons only,
  whatever the network, the peer and the callback do. It returns exactly when, after some turns
  that processed a message each, a turn leaves the loop; and a turn leaves it only because its
  first or second receive failed, which is the last thing it did, with
  \<^verbatim>\<open>MQTT_MESSAGE_RECV_ERROR\<close>, or because the first byte it received, or the 0 in the
  buffer if it received none, is no message type, with \<^verbatim>\<open>MQTT_MESSAGE_TYPE_ERROR\<close>. As long
  as every turn processes a message the handler does not return. The closing of the connection by
  the peer ends in the second way, after two receives without a byte.
\<close>

theorem process_socket_event_results:
  "(process_socket_event ctx cb s = Some (Inr (r, s')) \<longleftrightarrow>
      (\<exists>s1. turns ctx cb s s1 \<and> socket_turn ctx cb s1 = Some (Inr (Leave r, s')))) \<and>
   (\<forall>s1. socket_turn ctx cb s1 = Some (Inr (Leave r, s')) \<longrightarrow>
      r = ret_code MQTT_MESSAGE_RECV_ERROR \<and> receive_failed ctx s1 s' \<or>
      r = ret_code MQTT_MESSAGE_TYPE_ERROR \<and> no_message_type ctx s1) \<and>
   ((\<forall>s1. turns ctx cb s s1 \<longrightarrow> (\<exists>q s2. socket_turn ctx cb s1 = Some (Inr (Next q, s2)))) \<longrightarrow>
      process_socket_event ctx cb s = None) \<and>
   (answers s (deamon_fd ctx) 5 [] [] \<and> answers s (deamon_fd ctx) 2 [Recv (deamon_fd ctx) 5] [] \<longrightarrow>
      process_socket_event ctx cb s = Some (Inr (ret_code MQTT_MESSAGE_TYPE_ERROR,
        heard [] [Recv (deamon_fd ctx) 2, Recv (deamon_fd ctx) 5] s)))"
proof (intro conjI impI)
  show "process_socket_event ctx cb s = Some (Inr (r, s')) \<longleftrightarrow>
      (\<exists>s1. turns ctx cb s s1 \<and> socket_turn ctx cb s1 = Some (Inr (Leave r, s')))"
    using process_socket_event_ends [of ctx cb s "Inr (r, s')"] process_socket_event_turns process_socket_event_leave by fastforce
  show "\<forall>s1. socket_turn ctx cb s1 = Some (Inr (Leave r, s')) \<longrightarrow>
      r = ret_code MQTT_MESSAGE_RECV_ERROR \<and> receive_failed ctx s1 s' \<or>
      r = ret_code MQTT_MESSAGE_TYPE_ERROR \<and> no_message_type ctx s1"
    using socket_turn_leave by blast
  assume on: "\<forall>s1. turns ctx cb s s1 \<longrightarrow> (\<exists>q s2. socket_turn ctx cb s1 = Some (Inr (Next q, s2)))"
  show "process_socket_event ctx cb s = None"
  proof (rule ccontr)
    assume "process_socket_event ctx cb s \<noteq> None"
    then obtain y where y: "process_socket_event ctx cb s = Some y" by auto
    from process_socket_event_ends [OF y] on show False by (cases y) fastforce+
  qed
next
  assume eof: "answers s (deamon_fd ctx) 5 [] [] \<and> answers s (deamon_fd ctx) 2 [Recv (deamon_fd ctx) 5] []"
  have "type_of_code (type_bits 0) = MQTT_MESSAGE_TYPE_MIN" by (simp add: type_bits_def type_of_code_def all_types_def)
  then show "process_socket_event ctx cb s = Some (Inr (ret_code MQTT_MESSAGE_TYPE_ERROR,
        heard [] [Recv (deamon_fd ctx) 2, Recv (deamon_fd ctx) 5] s))"
    using socket_turn_short [of "[]" s ctx "[]" cb] eof
    by (intro process_socket_event_leave) (simp add: dispatch_message_def Let_def)
qed

text \<open>
  A peer that has closed the connection, and one that sends PINGRESP for ever.
\<close>

theorem process_socket_event_results_witness:
  fixes s :: "u8 list \<Rightarrow> sys"
  defines "s \<equiv> \<lambda>m. \<lparr>sy_heap = \<lparr>cells = [], fresh = 0, oom = \<lambda>_. False, junk = \<lambda>_. 0\<rparr>,
      sy_os = \<lparr>trace = [], errno = 0, int_reply = \<lambda>_. Inr 4, recv_reply = \<lambda>_. Inr m, wait_reply = \<lambda>_. Inr []\<rparr>,
      sy_keep_alive_timestamp = 0, sy_send_list = NULL, sy_buffer = []\<rparr>"
  shows "\<forall>ctx cb. process_socket_event ctx cb (s []) = Some (Inr (ret_code MQTT_MESSAGE_TYPE_ERROR,
        heard [] [Recv (deamon_fd ctx) 2, Recv (deamon_fd ctx) 5] (s []))) \<and>
     (\<exists>s1. turns ctx cb (s []) s1 \<and> no_message_type ctx s1) \<and>
     process_socket_event ctx cb (s [0xD0, 0]) = None"
proof (intro allI conjI)
  fix ctx cb
  let ?s' = "heard [] [Recv (deamon_fd ctx) 2, Recv (deamon_fd ctx) 5] (s [])"
  have "answers (s []) (deamon_fd ctx) 5 [] [] \<and> answers (s []) (deamon_fd ctx) 2 [Recv (deamon_fd ctx) 5] []"
    by (simp add: answers_def s_def)
  with process_socket_event_results [of ctx cb "s []"]
  show ret: "process_socket_event ctx cb (s []) = Some (Inr (ret_code MQTT_MESSAGE_TYPE_ERROR, ?s'))" by blast
  have type: "ret_code MQTT_MESSAGE_TYPE_ERROR \<noteq> ret_code MQTT_MESSAGE_RECV_ERROR" by simp
  from process_socket_event_results [where r = "ret_code MQTT_MESSAGE_TYPE_ERROR" and s' = ?s' and s = "s []" and ctx = ctx and cb = cb] ret type
  show "\<exists>s1. turns ctx cb (s []) s1 \<and> no_message_type ctx s1" by blast
  have reply: "recv_reply (sy_os s1) = (\<lambda>_. Inr [0xD0, 0]) \<Longrightarrow>
      socket_turn ctx cb s1 = Some (Inr (Next 0, heard [0xD0, 0] [Recv (deamon_fd ctx) 5] s1))" for s1
  proof -
    assume "recv_reply (sy_os s1) = (\<lambda>_. Inr [0xD0, 0])"
    then have "answers s1 (deamon_fd ctx) 5 [] ([0xD0, 0] @ [])" by (simp add: answers_def)
    from socket_turn_whole [where body = "[]" and b = "0xD0" and cb = cb, OF _ _ _ this] show ?thesis
      by (simp add: frame_def varint_small dispatch_message_def pingresp_msg_process_def type_bits_def type_of_code_def
          all_types_def ret_of_def)
  qed
  have "turns ctx cb (s [0xD0, 0]) s1 \<Longrightarrow> recv_reply (sy_os s1) = (\<lambda>_. Inr [0xD0, 0])" for s1
  proof (induction rule: turns.induct)
    case start
    show ?case by (simp add: s_def)
  next
    case (turn s1 r s2)
    with reply [of s1] show ?case by (simp add: heard_def)
  qed
  with reply process_socket_event_results [of ctx cb "s [0xD0, 0]"]
  show "process_socket_event ctx cb (s [0xD0, 0]) = None" by blast
qed

text \<open>
  A header that arrives byte by byte is misread. When the first receive brings one byte only,
  the remaining length is taken from the zero behind it in the buffer: the message is treated as
  one of two bytes, whatever its length is, and the next turn begins with its third byte.
\<close>

theorem socket_turn_short_header:
  assumes "answers s (deamon_fd ctx) 5 [] [b]" and "answers s (deamon_fd ctx) 1 [Recv (deamon_fd ctx) 5] [c]"
  shows "socket_turn ctx cb s =
     dispatch_message ctx cb (type_of_code (type_bits b)) 2 1 (heard [b, c] [Recv (deamon_fd ctx) 1, Recv (deamon_fd ctx) 5] s)"
  using socket_turn_short [of "[b]" s ctx "[c]" cb] assms by simp

theorem socket_turn_short_header_witness:
  fixes s :: sys
  defines "s \<equiv> \<lparr>sy_heap = \<lparr>cells = [], fresh = 0, oom = \<lambda>_. False, junk = \<lambda>_. 0\<rparr>,
      sy_os = \<lparr>trace = [], errno = 0, int_reply = \<lambda>_. Inr 4,
        recv_reply = \<lambda>t. if tl t = [] then Inr [0x31] else Inr [5], wait_reply = \<lambda>_. Inr []\<rparr>,
      sy_keep_alive_timestamp = 0, sy_send_list = NULL, sy_buffer = []\<rparr>"
  shows "\<forall>ctx cb. socket_turn ctx cb s =
     dispatch_message ctx cb (type_of_code (type_bits 0x31)) 2 1 (heard [0x31, 5] [Recv (deamon_fd ctx) 1, Recv (deamon_fd ctx) 5] s)"
  by (intro allI socket_turn_short_header) (simp_all add: answers_def s_def)

end
