(* ===== verification/Client_Deamon.thy ===== *)
theory Client_Deamon
  imports Deamon_Socket
begin

text \<open>
  client/client_deamon.c, the second half: the handler of the timer, which keeps the session
  alive and looks for messages without an answer, the thread that waits for both events, and
  its creation. The application's calls run in another thread: between two events the state may
  be any other one, and the lemmas hold for every state; inside a handler no other thread is
  modelled.
\<close>

abbreviation (input) MAX_EVENTS :: nat where "MAX_EVENTS \<equiv> 3"
abbreviation (input) TIME_STEP_SEC :: int where "TIME_STEP_SEC \<equiv> 1"

section \<open>The timer event\<close>

definition timed_out :: "deamon_context_t \<Rightarrow> int \<Rightarrow> message_send_t \<Rightarrow> bool" where
  "timed_out ctx now m \<longleftrightarrow> ms_timestamp m + int (unat (mc_timeout_sec (dc_client ctx))) < now"

text \<open>
  The message that timed out is handed to the callback and then removed by its identifier,
  which is read after the callback; the next pointer is read after the removal.
\<close>

definition expire_message :: "callbacks \<Rightarrow> link \<Rightarrow> sys \<Rightarrow> sys outcome" where
  "expire_message cb cur s =
     obind (Some (fbind (deref (timeout_cb cb)) (\<lambda>f. f cur s))) (\<lambda>s.
     obind (Some (load_msg cur (sy_heap s))) (\<lambda>m.
     obind (message_send_remove (Some (sy_send_list s)) (ms_packet_id m) (sy_heap s)) (\<lambda>(_, list, h).
     Some (Inr (s\<lparr>sy_send_list := the list, sy_heap := h\<rparr>)))))"

partial_function (option) timer_loop :: "deamon_context_t \<Rightarrow> callbacks \<Rightarrow> int \<Rightarrow> link \<Rightarrow> sys \<Rightarrow> sys outcome" where
  "timer_loop ctx cb now cur s =
     (if cur = NULL then Some (Inr s)
      else obind (Some (load_msg cur (sy_heap s))) (\<lambda>m.
           obind (if timed_out ctx now m then expire_message cb cur s else Some (Inr s)) (\<lambda>s.
           obind (Some (load_msg cur (sy_heap s))) (\<lambda>m.
           timer_loop ctx cb now (ms_next m) s))))"

definition call_sys :: "syscall \<Rightarrow> sys \<Rightarrow> int \<times> sys" where
  "call_sys c s = (let (r, w) = call_int c (sy_os s) in (r, s\<lparr>sy_os := w\<rparr>))"

text \<open>What is done with the lock held: the ping, then the list unless the ping failed.\<close>

definition timer_ping :: "deamon_context_t \<Rightarrow> int \<Rightarrow> sys \<Rightarrow> (mqtt_ret \<times> sys) res" where
  "timer_ping ctx now s =
     (if int (unat (mc_keep_alive (dc_client ctx))) \<le> now - sy_keep_alive_timestamp s
      then fbind (pingreq_msg_sent ctx s) (\<lambda>(ret, s).
           if ret \<noteq> MQTT_SUCCESS then Inr (ret, s)
           else let (t, s) = call_sys Time s in Inr (MQTT_SUCCESS, s\<lparr>sy_keep_alive_timestamp := t\<rparr>))
      else Inr (MQTT_SUCCESS, s))"

definition process_timer_event :: "deamon_context_t \<Rightarrow> callbacks \<Rightarrow> sys \<Rightarrow> (int \<times> sys) outcome" where
  "process_timer_event ctx cb s =
     (let (n, s) = call_sys (Timer_Read (dc_timer_fd ctx)) s
      in if n = -1 then Some (Inr (-1, s))
         else let (now, s) = call_sys Time s; (_, s) = call_sys Lock s
         in obind (Some (timer_ping ctx now s)) (\<lambda>(ret, s).
            obind (if ret \<noteq> MQTT_SUCCESS then Some (Inr s) else timer_loop ctx cb now (sy_send_list s) s) (\<lambda>s.
            let (_, s) = call_sys Unlock s in Some (Inr (ret_code ret, s)))))"

section \<open>The thread and its creation\<close>

definition epoll_wait :: "int \<Rightarrow> sys \<Rightarrow> (int + int list) \<times> sys" where
  "epoll_wait fd s =
     (let w = sy_os s; t = Epoll_Wait fd # trace w
      in case wait_reply w t of
           Inl e \<Rightarrow> (Inl e, s\<lparr>sy_os := w\<lparr>trace := t, errno := e\<rparr>\<rparr>)
         | Inr fds \<Rightarrow> (Inr (take MAX_EVENTS fds), s\<lparr>sy_os := w\<lparr>trace := t\<rparr>\<rparr>))"

primrec handle_events :: "deamon_context_t \<Rightarrow> callbacks \<Rightarrow> int list \<Rightarrow> sys \<Rightarrow> sys outcome" where
  "handle_events ctx cb [] s = Some (Inr s)"
| "handle_events ctx cb (fd # fds) s =
     (if fd = dc_sock_fd ctx then obind (process_socket_event ctx cb s) (\<lambda>(_, s). handle_events ctx cb fds s)
      else if fd = dc_timer_fd ctx then obind (process_timer_event ctx cb s) (\<lambda>(_, s). handle_events ctx cb fds s)
      else handle_events ctx cb fds s)"

partial_function (option) client_deamon_thread :: "deamon_context_t \<Rightarrow> callbacks \<Rightarrow> sys \<Rightarrow> sys outcome" where
  "client_deamon_thread ctx cb s =
     (case epoll_wait (dc_epoll_fd ctx) s of (reply, s) \<Rightarrow>
        (case reply of
           Inl e \<Rightarrow> if e = EINTR then client_deamon_thread ctx cb s else Some (Inr s)
         | Inr fds \<Rightarrow> obind (handle_events ctx cb fds s) (\<lambda>s. client_deamon_thread ctx cb s)))"

definition init_global_timer :: "int \<Rightarrow> sys \<Rightarrow> int \<times> sys" where
  "init_global_timer timeout s =
     (let (timer_fd, s) = call_sys Timer_Create s
      in if timer_fd = -1 then (-1, s)
         else let (r, s) = call_sys (Timer_Set timer_fd timeout) s
         in if r = -1 then (-1, snd (call_sys (Close timer_fd) s)) else (timer_fd, s))"

text \<open>
  The creation up to and including \<^verbatim>\<open>pthread_create\<close>. The result tells with which context
  the thread was started; without one, the descriptors are closed again and the result is the
  value that is returned.
\<close>

definition deamon_start ::
  "mqtt_client_t \<Rightarrow> int \<Rightarrow> int \<Rightarrow> int \<Rightarrow> sys \<Rightarrow> int \<times> deamon_context_t option \<times> sys" where
  "deamon_start client sock_fd timer_fd epoll_fd s =
     (let (r, s) = call_sys (Epoll_Add epoll_fd sock_fd) s
      in if r = -1 then (-1, None, s)
         else let (r, s) = call_sys (Epoll_Add epoll_fd timer_fd) s
         in if r = -1 then (-1, None, s)
            else let (_, s) = call_sys Lock_Init s;
                     ctx = \<lparr>dc_client = client, dc_sock_fd = sock_fd, dc_timer_fd = timer_fd, dc_epoll_fd = epoll_fd\<rparr>;
                     (tid, s) = call_sys Thread_Create s
            in if tid \<noteq> 0 then (-1, None, s) else (tid, Some ctx, s))"

text \<open>The labels \<^verbatim>\<open>close2\<close> and \<^verbatim>\<open>close1\<close>.\<close>

definition close_descriptors :: "int \<Rightarrow> int \<Rightarrow> sys \<Rightarrow> sys" where
  "close_descriptors epoll_fd timer_fd s = snd (call_sys (Close timer_fd) (snd (call_sys (Close epoll_fd) s)))"

definition deamon_descriptors :: "mqtt_client_t \<Rightarrow> sys \<Rightarrow> int \<times> deamon_context_t option \<times> sys" where
  "deamon_descriptors client s =
     (let sock_fd = socket_fd (mc_conn client); (timer_fd, s) = init_global_timer TIME_STEP_SEC s
      in if timer_fd = -1 then (-1, None, s)
         else let (epoll_fd, s) = call_sys Epoll_Create s
         in if epoll_fd = -1 then (-1, None, snd (call_sys (Close timer_fd) s))
            else let (r, started, s) = deamon_start client sock_fd timer_fd epoll_fd s
            in (r, started, if started = None then close_descriptors epoll_fd timer_fd s else s))"

text \<open>
  \<open>ph\<close> says whether the parameter is other than \<^verbatim>\<open>NULL\<close>; the thread's
  name that \<^verbatim>\<open>pthread_create\<close> stores there is not looked at. The context is a block
  of 24 bytes; the second result is its address, with what it holds, when the thread is running.
\<close>

definition deamon_launch ::
  "mqtt_client_t \<Rightarrow> bool \<Rightarrow> sys \<Rightarrow> (int \<times> (link \<times> deamon_context_t) option \<times> sys) res" where
  "deamon_launch client ph s =
     (if \<not> ph then Inr (ret_code MQTT_INVALID_PARAM, None, s)
      else let (ctx, h) = malloc (junk_bytes (sy_heap s) 24) (sy_heap s); s = s\<lparr>sy_heap := h\<rparr>
      in if ctx = NULL then Inr (ret_code MQTT_MEMORY_NOBUFFER, None, s)
         else let (r, started, s) = deamon_descriptors client s
         in case started of
              None \<Rightarrow> fbind (free ctx (sy_heap s)) (\<lambda>h. Inr (r, None, s\<lparr>sy_heap := h\<rparr>))
            | Some c \<Rightarrow> Inr (r, Some (ctx, c), s))"

text \<open>
  Waiting for a thread. The behaviour is undefined when the argument is not the name of a thread.
  A thread's name is the address of its descriptor, which the call reads, so 0 names no thread.
\<close>

definition pthread_join :: "int \<Rightarrow> sys \<Rightarrow> sys res" where
  "pthread_join tid s = (if tid = 0 then Inl Null_Deref else Inr (snd (call_sys (Thread_Join tid) s)))"

text \<open>
  The whole function. What \<^verbatim>\<open>pthread_join\<close> gets is the return code of
  \<^verbatim>\<open>pthread_create\<close>, which is 0 whenever this point is reached, and not the thread.
\<close>

definition client_deamon_create :: "mqtt_client_t \<Rightarrow> bool \<Rightarrow> sys \<Rightarrow> (int \<times> sys) res" where
  "client_deamon_create client ph s =
     fbind (deamon_launch client ph s) (\<lambda>(r, started, s).
       case started of
         None \<Rightarrow> Inr (r, s)
       | Some (p, ctx) \<Rightarrow>
           fbind (pthread_join r s) (\<lambda>s.
           let s = close_descriptors (dc_epoll_fd ctx) (dc_timer_fd ctx) s
           in fbind (free p (sy_heap s)) (\<lambda>h. Inr (ret_code MQTT_SUCCESS, s\<lparr>sy_heap := h\<rparr>))))"

section \<open>Lemmas: the timer\<close>

lemma call_sys_state:
  "sy_heap (snd (call_sys c s)) = sy_heap s" "sy_send_list (snd (call_sys c s)) = sy_send_list s"
  "sy_keep_alive_timestamp (snd (call_sys c s)) = sy_keep_alive_timestamp s"
  "trace (sy_os (snd (call_sys c s))) = c # trace (sy_os s)"
  "int_reply (sy_os (snd (call_sys c s))) = int_reply (sy_os s)"
  "fst (call_sys c s) = (case int_reply (sy_os s) (c # trace (sy_os s)) of Inl e \<Rightarrow> -1 | Inr v \<Rightarrow> v)"
  by (simp_all add: call_sys_def split_beta call_int_result)

lemma call_sys_Inr:
  "int_reply (sy_os s) (c # trace (sy_os s)) = Inr v \<Longrightarrow>
   call_sys c s = (v, s\<lparr>sy_os := (sy_os s)\<lparr>trace := c # trace (sy_os s)\<rparr>\<rparr>)"
  by (simp add: call_sys_def call_int_Inr)

text \<open>No message is stamped with a time, so all messages of a queue time out together.\<close>

lemma queue_head:
  assumes "queue h p qs" and "qs \<noteq> []"
  obtains a m where "p = Addr a" and "map_of (cells h) a = Some (Msg m)" and "ms_timestamp m = 0" and "ms_packet_id m = fst (hd qs)"
proof -
  from assms obtain as where "send_list h p as qs" by (auto simp: queue_def)
  with assms(2) obtain a bs q rs where "as = a # bs" "qs = q # rs" "p = Addr a" "send_list h p (a # bs) (q # rs)"
    by (cases as; cases qs) (auto simp: send_list_def)
  then show ?thesis using that by (auto simp: send_list_Cons holds_def)
qed

lemma timer_loop_quiet:
  "send_list (sy_heap s) p as qs \<Longrightarrow> now \<le> int (unat (mc_timeout_sec (dc_client ctx))) \<Longrightarrow>
   timer_loop ctx cb now p s = Some (Inr s)"
proof (induction as arbitrary: p qs)
  case Nil
  then show ?case by (simp add: timer_loop.simps)
next
  case (Cons a as)
  then obtain q rs m where "p = Addr a" "map_of (cells (sy_heap s)) a = Some (Msg m)" "ms_timestamp m = 0"
    and "send_list (sy_heap s) (ms_next m) as rs"
    by (cases qs) (auto simp: send_list_Cons holds_def)
  with Cons show ?case by (subst timer_loop.simps) (simp add: load_msg_def load_Addr timed_out_def)
qed

text \<open>
  The first message that timed out, which is the first one of the queue, is handed to the callback;
  if it returns, the node is read after it was released.
\<close>

definition leaves_memory :: "timeout_callback \<Rightarrow> bool" where
  "leaves_memory f \<longleftrightarrow> (\<forall>p s s'. f p s = Inr s' \<longrightarrow> sy_heap s' = sy_heap s \<and> sy_send_list s' = sy_send_list s)"

lemma timer_loop_reports:
  assumes "queue (sy_heap s) (Addr a) qs" and "sy_send_list s = Addr a" and "qs \<noteq> []"
    and "int (unat (mc_timeout_sec (dc_client ctx))) < now" and "timeout_cb cb = Some f" and "leaves_memory f"
  shows "timer_loop ctx cb now (Addr a) s = Some (case f (Addr a) s of Inl e \<Rightarrow> Inl e | Inr _ \<Rightarrow> Inl Bad_Pointer)"
proof -
  obtain b m where "Addr a = Addr b" and m: "map_of (cells (sy_heap s)) b = Some (Msg m)" "ms_timestamp m = 0"
    by (rule queue_head [OF assms(1,3)])
  then have m: "map_of (cells (sy_heap s)) a = Some (Msg m)" "ms_timestamp m = 0" by simp_all
  have out: "timed_out ctx now m" using assms(4) m(2) by (simp add: timed_out_def)
  show ?thesis
  proof (cases "f (Addr a) s")
    case (Inl e)
    then show ?thesis
      using m out assms(5) by (subst timer_loop.simps) (simp add: load_msg_def load_Addr expire_message_def)
  next
    case (Inr s1)
    then have s1: "sy_heap s1 = sy_heap s" "sy_send_list s1 = Addr a" using assms(2,6) by (auto simp: leaves_memory_def)
    have "message_send_remove (Some (Addr a)) (ms_packet_id m) (sy_heap s1) =
        Some (Inr (MQTT_SUCCESS, Some (ms_next m), (sy_heap s1)\<lparr>cells := AList.delete a (cells (sy_heap s1))\<rparr>))"
      using m(1) s1 by (simp add: message_send_remove_def load_msg_def load_Addr free_live)
    then show ?thesis
      using m out assms(5) Inr s1
      by (subst timer_loop.simps) (simp add: load_msg_def load_Addr expire_message_def AList.delete_conv')
  qed
qed

section \<open>Lemmas: the lock and the descriptors\<close>

fun lock_depth :: "syscall list \<Rightarrow> int" where
  "lock_depth [] = 0"
| "lock_depth (Lock # t) = lock_depth t + 1"
| "lock_depth (Unlock # t) = lock_depth t - 1"
| "lock_depth (_ # t) = lock_depth t"

abbreviation depth :: "sys \<Rightarrow> int" where "depth s \<equiv> lock_depth (trace (sy_os s))"

definition callback_unlocks :: "callbacks \<Rightarrow> bool" where
  "callback_unlocks cb \<longleftrightarrow> (\<forall>f p s s'. timeout_cb cb = Some f \<longrightarrow> f p s = Inr s' \<longrightarrow> depth s' = depth s)"

lemma expire_message_depth:
  assumes "callback_unlocks cb" and "expire_message cb p s = Some (Inr s')"
  shows "depth s' = depth s"
proof -
  from assms(2) obtain f s1 where "timeout_cb cb = Some f" "f p s = Inr s1" "sy_os s' = sy_os s1"
    unfolding expire_message_def
    by (auto simp: obind_eq_Some_Inr fbind_eq_Inr deref_def simp del: obind.simps split: option.splits)
  with assms(1) show ?thesis unfolding callback_unlocks_def by metis
qed

lemma timer_loop_depth:
  assumes "callback_unlocks cb" and "timer_loop ctx cb now p s = Some (Inr s')"
  shows "depth s' = depth s"
proof -
  let ?P = "\<lambda>(ctx :: deamon_context_t) (c :: callbacks) (now :: int) (p :: link) (s :: sys) (y :: sys res).
    c = cb \<longrightarrow> (\<forall>s'. y = Inr s' \<longrightarrow> depth s' = depth s)"
  have "?P ctx cb now p s (Inr s')"
  proof (rule timer_loop.raw_induct [of ?P ctx cb now p s "Inr s'"])
    show "timer_loop ctx cb now p s = Some (Inr s')" by (rule assms(2))
  next
    fix f ctx c now p s y
    assume ih: "\<And>ctx c now p s y. f ctx c now p s = Some y \<Longrightarrow> ?P ctx c now p s y"
      and step: "(if p = NULL then Some (Inr s)
        else obind (Some (load_msg p (sy_heap s))) (\<lambda>m.
           obind (if timed_out ctx now m then expire_message c p s else Some (Inr s)) (\<lambda>s.
           obind (Some (load_msg p (sy_heap s))) (\<lambda>m. f ctx c now (ms_next m) s)))) = Some y"
    show "?P ctx c now p s y"
    proof (intro impI allI)
      fix s'
      assume c: "c = cb" and y: "y = Inr s'"
      show "depth s' = depth s"
      proof (cases "p = NULL")
        case False
        with step y obtain m s1 and m1 :: message_send_t where m: "(if timed_out ctx now m then expire_message c p s else Some (Inr s)) = Some (Inr s1)"
          and go: "f ctx c now (ms_next m1) s1 = Some (Inr s')"
          by (auto simp: obind_eq_Some_Inr simp del: obind.simps)
        from m have "depth s1 = depth s"
          using expire_message_depth [OF assms(1)] c by (auto split: if_splits)
        with ih [OF go] c show ?thesis by simp
      qed (use step y in simp)
    qed
  qed
  then show ?thesis by simp
qed

lemma timer_ping_depth: "timer_ping ctx now s = Inr (ret, s') \<Longrightarrow> depth s' = depth s"
  using transmit_trace [of ctx "[0xC0, 0]" s]
  by (auto simp: timer_ping_def pingreq_msg_sent_eq split_beta call_sys_state split: if_splits)

text \<open>How often descriptor \<open>v\<close> was obtained, less how often it was closed.\<close>

definition gives :: "(syscall list \<Rightarrow> int + int) \<Rightarrow> int \<Rightarrow> syscall list \<Rightarrow> int" where
  "gives reply v t = (if reply t = Inr v \<and> v \<noteq> -1 then 1 else 0)"

fun fd_balance :: "(syscall list \<Rightarrow> int + int) \<Rightarrow> int \<Rightarrow> syscall list \<Rightarrow> int" where
  "fd_balance reply v [] = 0"
| "fd_balance reply v (Socket # t) = fd_balance reply v t + gives reply v (Socket # t)"
| "fd_balance reply v (Timer_Create # t) = fd_balance reply v t + gives reply v (Timer_Create # t)"
| "fd_balance reply v (Epoll_Create # t) = fd_balance reply v t + gives reply v (Epoll_Create # t)"
| "fd_balance reply v (Close u # t) = fd_balance reply v t - (if u = v then 1 else 0)"
| "fd_balance reply v (_ # t) = fd_balance reply v t"

abbreviation open_fds :: "int \<Rightarrow> sys \<Rightarrow> int" where
  "open_fds v s \<equiv> fd_balance (int_reply (sy_os s)) v (trace (sy_os s))"

lemma open_fds_neutral:
  "\<forall>u. c \<noteq> Close u \<Longrightarrow> c \<notin> {Socket, Timer_Create, Epoll_Create} \<Longrightarrow> open_fds v (snd (call_sys c s)) = open_fds v s"
  by (cases c) (simp_all add: call_sys_state)

lemma open_fds_close: "open_fds v (snd (call_sys (Close u) s)) = open_fds v s - (if u = v then 1 else 0)"
  by (simp add: call_sys_state)

lemma open_fds_create:
  "c = Timer_Create \<or> c = Epoll_Create \<Longrightarrow>
   open_fds v (snd (call_sys c s)) = open_fds v s + (if fst (call_sys c s) = v \<and> v \<noteq> -1 then 1 else 0)"
  by (auto simp: call_sys_state gives_def split: sum.splits)

lemmas open_fds_simps = open_fds_neutral open_fds_close open_fds_create

lemma init_global_timer_fds:
  assumes "init_global_timer n s = (fd, s')"
  shows "open_fds v s' = open_fds v s + (if fd = v \<and> v \<noteq> -1 then 1 else 0)"
    and "sy_heap s' = sy_heap s"
  using assms by (auto simp: init_global_timer_def split_beta open_fds_simps call_sys_state(1) split: if_splits)

section \<open>Lemmas: a whole timer event\<close>

definition replied :: "sys \<Rightarrow> syscall list \<Rightarrow> int" where
  "replied s t = (case int_reply (sy_os s) t of Inl e \<Rightarrow> -1 | Inr v \<Rightarrow> v)"

text \<open>The calls up to the lock, those up to the ping, and the time that is read.\<close>

definition locked :: "deamon_context_t \<Rightarrow> sys \<Rightarrow> syscall list" where
  "locked ctx s = Lock # Time # Timer_Read (dc_timer_fd ctx) # trace (sy_os s)"

definition pinged :: "deamon_context_t \<Rightarrow> sys \<Rightarrow> syscall list" where
  "pinged ctx s = Send (deamon_fd ctx) [0xC0, 0] # locked ctx s"

definition timer_now :: "deamon_context_t \<Rightarrow> sys \<Rightarrow> int" where
  "timer_now ctx s = replied s (Time # Timer_Read (dc_timer_fd ctx) # trace (sy_os s))"

definition ping_due :: "deamon_context_t \<Rightarrow> sys \<Rightarrow> bool" where
  "ping_due ctx s \<longleftrightarrow> int (unat (mc_keep_alive (dc_client ctx))) \<le> timer_now ctx s - sy_keep_alive_timestamp s"

text \<open>The state in which the list is looked at, or the failure of the ping.\<close>

lemma process_timer_event_split:
  assumes "replied s (Timer_Read (dc_timer_fd ctx) # trace (sy_os s)) \<noteq> -1"
  obtains ret s1 where "process_timer_event ctx cb s =
      obind (if ret \<noteq> MQTT_SUCCESS then Some (Inr s1) else timer_loop ctx cb (timer_now ctx s) (sy_send_list s1) s1) (\<lambda>s.
        Some (Inr (ret_code ret, snd (call_sys Unlock s))))"
    and "sy_heap s1 = sy_heap s" and "sy_send_list s1 = sy_send_list s" and "depth s1 = depth s + 1"
    and "\<not> ping_due ctx s \<Longrightarrow> ret = MQTT_SUCCESS \<and> trace (sy_os s1) = locked ctx s \<and>
          sy_keep_alive_timestamp s1 = sy_keep_alive_timestamp s"
    and "ping_due ctx s \<Longrightarrow> replied s (pinged ctx s) = -1 \<Longrightarrow>
          ret = MQTT_MESSAGE_SEND_ERROR \<and> trace (sy_os s1) = pinged ctx s \<and>
          sy_keep_alive_timestamp s1 = sy_keep_alive_timestamp s"
    and "ping_due ctx s \<Longrightarrow> replied s (pinged ctx s) \<noteq> -1 \<Longrightarrow>
          ret = MQTT_SUCCESS \<and> trace (sy_os s1) = Time # pinged ctx s \<and>
          sy_keep_alive_timestamp s1 = replied s (Time # pinged ctx s)"
proof -
  let ?rd = "Timer_Read (dc_timer_fd ctx)"
  define s2 where "s2 = snd (call_sys Lock (snd (call_sys Time (snd (call_sys ?rd s)))))"
  have now: "fst (call_sys Time (snd (call_sys ?rd s))) = timer_now ctx s"
    by (simp add: timer_now_def replied_def call_sys_state)
  have read: "fst (call_sys ?rd s) \<noteq> -1" using assms by (simp add: replied_def call_sys_state)
  have s2: "sy_heap s2 = sy_heap s" "sy_send_list s2 = sy_send_list s" "trace (sy_os s2) = locked ctx s"
    "sy_keep_alive_timestamp s2 = sy_keep_alive_timestamp s" "int_reply (sy_os s2) = int_reply (sy_os s)"
    by (simp_all add: s2_def locked_def call_sys_state)
  let ?t = "transmit ctx [0xC0, 0] s2"
  have sent: "fst ?t = (if replied s (pinged ctx s) = -1 then MQTT_MESSAGE_SEND_ERROR else MQTT_SUCCESS)"
    "trace (sy_os (snd ?t)) = pinged ctx s" "int_reply (sy_os (snd ?t)) = int_reply (sy_os s)"
    using transmit_trace [of ctx "[0xC0, 0]" s2] transmit_rest(5) [of ctx "[0xC0, 0]" s2] s2
    by (simp_all add: transmit_def split_beta call_int_result replied_def pinged_def deamon_fd_def)
  define r where "r = (if ping_due ctx s then
      (if fst ?t \<noteq> MQTT_SUCCESS then ?t
       else (MQTT_SUCCESS, (snd (call_sys Time (snd ?t)))\<lparr>sy_keep_alive_timestamp := fst (call_sys Time (snd ?t))\<rparr>))
      else (MQTT_SUCCESS, s2))"
  have ping: "timer_ping ctx (timer_now ctx s) s2 = Inr r"
    by (simp add: timer_ping_def r_def ping_due_def s2 pingreq_msg_sent_eq split_beta)
  have depth: "depth (snd r) = depth s + 1"
    using timer_ping_depth [of ctx "timer_now ctx s" s2 "fst r" "snd r"] ping s2(3) by (simp add: locked_def)
  have event: "process_timer_event ctx cb s =
      obind (if fst r \<noteq> MQTT_SUCCESS then Some (Inr (snd r)) else timer_loop ctx cb (timer_now ctx s) (sy_send_list (snd r)) (snd r))
        (\<lambda>s. Some (Inr (ret_code (fst r), snd (call_sys Unlock s))))"
    unfolding process_timer_event_def using read ping by (simp add: split_beta now s2_def [symmetric])
  show thesis
    by (rule that [of "fst r" "snd r", OF event])
      (simp_all add: depth, simp_all add: r_def s2 sent transmit_rest call_sys_state replied_def split: if_splits)
qed

text \<open>With a message that timed out: the first waiting packet is reported.\<close>

lemma process_timer_event_reports:
  assumes "replied s (Timer_Read (dc_timer_fd ctx) # trace (sy_os s)) \<noteq> -1"
    and "queue (sy_heap s) (sy_send_list s) qs" and "qs \<noteq> []" and "int (unat (mc_timeout_sec (dc_client ctx))) < timer_now ctx s"
    and "\<not> ping_due ctx s \<or> replied s (pinged ctx s) \<noteq> -1"
    and "timeout_cb cb = Some f" and "leaves_memory f"
  shows "\<exists>a s1. sy_send_list s = Addr a \<and> holds (sy_heap s) a (hd qs) \<and>
     sy_heap s1 = sy_heap s \<and> sy_send_list s1 = sy_send_list s \<and>
     trace (sy_os s1) = (if ping_due ctx s then Time # pinged ctx s else locked ctx s) \<and>
     process_timer_event ctx cb s = Some (case f (Addr a) s1 of Inl e \<Rightarrow> Inl e | Inr _ \<Rightarrow> Inl Bad_Pointer)"
  using assms(1)
proof (rule process_timer_event_split [of s ctx cb])
  fix ret s1
  assume event: "process_timer_event ctx cb s =
      obind (if ret \<noteq> MQTT_SUCCESS then Some (Inr s1) else timer_loop ctx cb (timer_now ctx s) (sy_send_list s1) s1) (\<lambda>s.
        Some (Inr (ret_code ret, snd (call_sys Unlock s))))"
    and same: "sy_heap s1 = sy_heap s" "sy_send_list s1 = sy_send_list s"
    and quiet: "\<not> ping_due ctx s \<Longrightarrow> ret = MQTT_SUCCESS \<and> trace (sy_os s1) = locked ctx s \<and>
          sy_keep_alive_timestamp s1 = sy_keep_alive_timestamp s"
    and ping: "ping_due ctx s \<Longrightarrow> replied s (pinged ctx s) \<noteq> -1 \<Longrightarrow> ret = MQTT_SUCCESS \<and>
          trace (sy_os s1) = Time # pinged ctx s \<and> sy_keep_alive_timestamp s1 = replied s (Time # pinged ctx s)"
  have ret: "ret = MQTT_SUCCESS" using quiet ping assms(5) by blast
  from assms(2) obtain as where "send_list (sy_heap s) (sy_send_list s) as qs" by (auto simp: queue_def)
  with assms(3) obtain a where a: "sy_send_list s = Addr a" "holds (sy_heap s) a (hd qs)"
    by (cases as; cases qs) (auto simp: send_list_Cons)
  have "timer_loop ctx cb (timer_now ctx s) (Addr a) s1 = Some (case f (Addr a) s1 of Inl e \<Rightarrow> Inl e | Inr _ \<Rightarrow> Inl Bad_Pointer)"
    by (rule timer_loop_reports [OF _ _ assms(3,4,6,7)]) (use assms(2) same a(1) in simp_all)
  then have "process_timer_event ctx cb s = Some (case f (Addr a) s1 of Inl e \<Rightarrow> Inl e | Inr _ \<Rightarrow> Inl Bad_Pointer)"
    unfolding event using ret same a(1) by (cases "f (Addr a) s1") simp_all
  then show ?thesis using a same quiet ping assms(5) by (intro exI [of _ a] exI [of _ s1]) auto
qed

section \<open>Lemmas: the creation\<close>

text \<open>
  The thread is started if and only if there is memory and each of the calls succeeds, in this
  order.
\<close>

definition launch_calls :: "mqtt_client_t \<Rightarrow> int \<Rightarrow> int \<Rightarrow> syscall list" where
  "launch_calls client timer_fd epoll_fd =
     [Thread_Create, Lock_Init, Epoll_Add epoll_fd timer_fd, Epoll_Add epoll_fd (socket_fd (mc_conn client)),
      Epoll_Create, Timer_Set timer_fd TIME_STEP_SEC, Timer_Create]"

definition launches :: "mqtt_client_t \<Rightarrow> sys \<Rightarrow> bool" where
  "launches client s \<longleftrightarrow>
     (let timer_fd = replied s (Timer_Create # trace (sy_os s));
          epoll_fd = replied s ([Epoll_Create, Timer_Set timer_fd TIME_STEP_SEC, Timer_Create] @ trace (sy_os s));
          calls = launch_calls client timer_fd epoll_fd @ trace (sy_os s)
      in timer_fd \<noteq> -1 \<and> replied s (drop 5 calls) \<noteq> -1 \<and> epoll_fd \<noteq> -1 \<and> replied s (drop 3 calls) \<noteq> -1 \<and>
         replied s (drop 2 calls) \<noteq> -1 \<and> replied s calls = 0)"

lemma call_sys_replied: "fst (call_sys c s) = replied s (c # trace (sy_os s))"
  by (simp add: call_sys_state replied_def)

lemma replied_cong: "int_reply (sy_os s') = int_reply (sy_os s) \<Longrightarrow> replied s' = replied s"
  by (intro ext) (simp add: replied_def)

lemma deamon_start_fds:
  assumes "deamon_start client a b c s = (ret, started, s')"
  shows "open_fds v s' = open_fds v s" and "sy_heap s' = sy_heap s" and "started = None \<longleftrightarrow> ret \<noteq> 0"
    and "started = Some ctx \<Longrightarrow> dc_timer_fd ctx = b \<and> dc_epoll_fd ctx = c \<and>
      trace (sy_os s') = [Thread_Create, Lock_Init, Epoll_Add c b, Epoll_Add c a] @ trace (sy_os s)"
    and "started \<noteq> None \<longleftrightarrow> replied s (Epoll_Add c a # trace (sy_os s)) \<noteq> -1 \<and>
      replied s ([Epoll_Add c b, Epoll_Add c a] @ trace (sy_os s)) \<noteq> -1 \<and>
      replied s ([Thread_Create, Lock_Init, Epoll_Add c b, Epoll_Add c a] @ trace (sy_os s)) = 0"
  using assms
  by (auto simp: deamon_start_def split_beta open_fds_simps call_sys_state(1-5) call_sys_replied replied_cong [OF call_sys_state(5)] split: if_splits)

lemma deamon_descriptors_fds:
  assumes "deamon_descriptors client s = (ret, started, s')"
  shows "sy_heap s' = sy_heap s" and "started = None \<longleftrightarrow> ret \<noteq> 0"
    and "started = None \<Longrightarrow> open_fds v s' = open_fds v s"
    and "started = Some ctx \<Longrightarrow>
      trace (sy_os s') = launch_calls client (dc_timer_fd ctx) (dc_epoll_fd ctx) @ trace (sy_os s)"
    and "started \<noteq> None \<longleftrightarrow> launches client s"
proof -
  let ?fd = "socket_fd (mc_conn client)" and ?t = "trace (sy_os s)"
  obtain b s1 where b: "init_global_timer TIME_STEP_SEC s = (b, s1)" by fastforce
  note b1 = init_global_timer_fds [OF b]
  have timer: "int_reply (sy_os s1) = int_reply (sy_os s)"
    "b \<noteq> -1 \<longleftrightarrow> replied s (Timer_Create # ?t) \<noteq> -1 \<and> replied s (Timer_Set (replied s (Timer_Create # ?t)) TIME_STEP_SEC # Timer_Create # ?t) \<noteq> -1"
    "b \<noteq> -1 \<Longrightarrow> b = replied s (Timer_Create # ?t) \<and> trace (sy_os s1) = Timer_Set b TIME_STEP_SEC # Timer_Create # ?t"
    using b by (auto simp: init_global_timer_def split_beta call_sys_state(1-5) call_sys_replied replied_cong [OF call_sys_state(5)] split: if_splits)
  obtain c s2 where c: "call_sys Epoll_Create s1 = (c, s2)" by fastforce
  then have c1: "open_fds v s2 = open_fds v s1 + (if c = v \<and> v \<noteq> -1 then 1 else 0)" "sy_heap s2 = sy_heap s1"
    "trace (sy_os s2) = Epoll_Create # trace (sy_os s1)" "int_reply (sy_os s2) = int_reply (sy_os s1)"
    "c = replied s (Epoll_Create # trace (sy_os s1))" for v
    using open_fds_create [of Epoll_Create s1 v] call_sys_state(1,4,5) [of Epoll_Create s1] call_sys_replied [of Epoll_Create s1]
      replied_cong [OF timer(1)] by simp_all
  obtain r st s3 where d: "deamon_start client ?fd b c s2 = (r, st, s3)" by (metis prod_cases3)
  note d1 = deamon_start_fds [OF d]
  have cases: "b = -1 \<and> ret = -1 \<and> started = None \<and> s' = s1 \<or>
     b \<noteq> -1 \<and> c = -1 \<and> ret = -1 \<and> started = None \<and> s' = snd (call_sys (Close b) s2) \<or>
     b \<noteq> -1 \<and> c \<noteq> -1 \<and> ret = r \<and> started = st \<and> s' = (if st = None then close_descriptors c b s3 else s3)"
    using assms b c d by (auto simp: deamon_descriptors_def split_beta Let_def split: if_splits)
  show "sy_heap s' = sy_heap s" using cases by (auto simp: close_descriptors_def call_sys_state b1 c1 d1(2))
  show "started = None \<longleftrightarrow> ret \<noteq> 0" using cases d1(3) by auto
  show "open_fds v s' = open_fds v s" if "started = None"
    using cases that by (elim disjE conjE) (auto simp: close_descriptors_def open_fds_close b1 c1(1) d1(1))
  show "trace (sy_os s') = launch_calls client (dc_timer_fd ctx) (dc_epoll_fd ctx) @ ?t" if "started = Some ctx"
    using cases d1(4) [of ctx] that timer(3) by (auto simp: c1(3) launch_calls_def)
  have r2: "replied s2 = replied s" using timer(1) c1(4) by (intro replied_cong) simp
  show "started \<noteq> None \<longleftrightarrow> launches client s"
  proof (cases "b = -1")
    case True
    with cases have "started = None" by blast
    moreover have "\<not> launches client s" using timer(2) True unfolding launches_def launch_calls_def Let_def by (auto simp add: numeral_eq_Suc)
    ultimately show ?thesis by simp
  next
    case False
    note t = timer(3) [OF False]
    have now: "trace (sy_os s2) = [Epoll_Create, Timer_Set b TIME_STEP_SEC, Timer_Create] @ ?t"
      "c = replied s ([Epoll_Create, Timer_Set b TIME_STEP_SEC, Timer_Create] @ ?t)"
      using c1(3,5) by (simp_all add: conjunct2 [OF t])
    have "launches client s \<longleftrightarrow> c \<noteq> -1 \<and> st \<noteq> None"
      using timer(2) False unfolding launches_def Let_def conjunct1 [OF t, symmetric] now(2) [symmetric] d1(5) r2 now(1)
      by (simp add: launch_calls_def numeral_eq_Suc)
    then show ?thesis using cases False by auto
  qed
qed

section \<open>Properties\<close>

text \<open>
  C10. A timer event keeps the session alive. While no message has timed out, the event sends a
  PINGREQ exactly when at least the keep-alive time has passed since the last sign of life, and
  then remembers the time after the ping; a ping that cannot be sent is reported and the old time
  stays. The list is as before, and the lock is released in every case.
\<close>

theorem timer_event_keeps_alive:
  assumes "replied s (Timer_Read (dc_timer_fd ctx) # trace (sy_os s)) \<noteq> -1"
    and "queue (sy_heap s) (sy_send_list s) qs" and "qs = [] \<or> timer_now ctx s \<le> int (unat (mc_timeout_sec (dc_client ctx)))"
  shows "\<exists>ret s'. process_timer_event ctx cb s = Some (Inr (ret_code ret, s')) \<and>
     sy_heap s' = sy_heap s \<and> sy_send_list s' = sy_send_list s \<and>
     (if \<not> ping_due ctx s
      then ret = MQTT_SUCCESS \<and> trace (sy_os s') = Unlock # locked ctx s \<and> sy_keep_alive_timestamp s' = sy_keep_alive_timestamp s
      else if replied s (pinged ctx s) = -1
      then ret = MQTT_MESSAGE_SEND_ERROR \<and> trace (sy_os s') = Unlock # pinged ctx s \<and>
           sy_keep_alive_timestamp s' = sy_keep_alive_timestamp s
      else ret = MQTT_SUCCESS \<and> trace (sy_os s') = Unlock # Time # pinged ctx s \<and>
           sy_keep_alive_timestamp s' = replied s (Time # pinged ctx s))"
proof -
  from assms(2) obtain as where list: "send_list (sy_heap s) (sy_send_list s) as qs" by (auto simp: queue_def)
  from assms(1) show ?thesis
  proof (rule process_timer_event_split [of s ctx cb])
    fix ret s1
    assume event: "process_timer_event ctx cb s =
        obind (if ret \<noteq> MQTT_SUCCESS then Some (Inr s1) else timer_loop ctx cb (timer_now ctx s) (sy_send_list s1) s1) (\<lambda>s.
          Some (Inr (ret_code ret, snd (call_sys Unlock s))))"
      and same: "sy_heap s1 = sy_heap s" "sy_send_list s1 = sy_send_list s"
      and rest: "\<not> ping_due ctx s \<Longrightarrow> ret = MQTT_SUCCESS \<and> trace (sy_os s1) = locked ctx s \<and>
          sy_keep_alive_timestamp s1 = sy_keep_alive_timestamp s"
        "ping_due ctx s \<Longrightarrow> replied s (pinged ctx s) = -1 \<Longrightarrow> ret = MQTT_MESSAGE_SEND_ERROR \<and>
          trace (sy_os s1) = pinged ctx s \<and> sy_keep_alive_timestamp s1 = sy_keep_alive_timestamp s"
        "ping_due ctx s \<Longrightarrow> replied s (pinged ctx s) \<noteq> -1 \<Longrightarrow> ret = MQTT_SUCCESS \<and>
          trace (sy_os s1) = Time # pinged ctx s \<and> sy_keep_alive_timestamp s1 = replied s (Time # pinged ctx s)"
    have "timer_loop ctx cb (timer_now ctx s) (sy_send_list s1) s1 = Some (Inr s1)"
    proof (cases "qs = []")
      case True
      with list same show ?thesis by (cases as) (simp_all add: timer_loop.simps)
    next
      case False
      with list same assms(3) show ?thesis by (intro timer_loop_quiet [of s1 _ as qs]) simp_all
    qed
    then have "process_timer_event ctx cb s = Some (Inr (ret_code ret, snd (call_sys Unlock s1)))" unfolding event by simp
    then show ?thesis
      using same rest by (intro exI [of _ ret] exI [of _ "snd (call_sys Unlock s1)"]) (auto simp: call_sys_state)
  qed
qed

theorem timer_event_keeps_alive_witness:
  fixes ctx :: deamon_context_t and s :: sys
  defines "ctx \<equiv> \<lparr>dc_client = \<lparr>mc_state = MQTT_CLIENT_STATE_CONNECTED, mc_conn = \<lparr>socket_fd = 3\<rparr>, mc_keep_alive = 60,
      mc_timeout_sec = 5, mc_client_id = NULL, mc_client_id_len = 0, mc_sp = 0, mc_packet_id_next = 1\<rparr>,
      dc_sock_fd = 3, dc_timer_fd = 4, dc_epoll_fd = 5\<rparr>"
    and "s \<equiv> \<lparr>sy_heap = \<lparr>cells = [], fresh = 0, oom = \<lambda>_. False, junk = \<lambda>_. 0\<rparr>,
      sy_os = \<lparr>trace = [], errno = 0, int_reply = \<lambda>_. Inr 100, recv_reply = \<lambda>_. Inr [], wait_reply = \<lambda>_. Inr []\<rparr>,
      sy_keep_alive_timestamp = 10, sy_send_list = NULL, sy_buffer = []\<rparr>"
  shows "\<forall>cb. \<exists>ret s'. process_timer_event ctx cb s = Some (Inr (ret_code ret, s')) \<and>
     sy_heap s' = sy_heap s \<and> sy_send_list s' = sy_send_list s \<and>
     (if \<not> ping_due ctx s
      then ret = MQTT_SUCCESS \<and> trace (sy_os s') = Unlock # locked ctx s \<and> sy_keep_alive_timestamp s' = sy_keep_alive_timestamp s
      else if replied s (pinged ctx s) = -1
      then ret = MQTT_MESSAGE_SEND_ERROR \<and> trace (sy_os s') = Unlock # pinged ctx s \<and>
           sy_keep_alive_timestamp s' = sy_keep_alive_timestamp s
      else ret = MQTT_SUCCESS \<and> trace (sy_os s') = Unlock # Time # pinged ctx s \<and>
           sy_keep_alive_timestamp s' = replied s (Time # pinged ctx s))"
proof
  fix cb
  have 1: "replied s (Timer_Read (dc_timer_fd ctx) # trace (sy_os s)) \<noteq> -1" by (simp add: replied_def s_def)
  have 2: "queue (sy_heap s) (sy_send_list s) []" by (simp add: s_def queue_def heap_ok_def live_def)
  show "\<exists>ret s'. process_timer_event ctx cb s = Some (Inr (ret_code ret, s')) \<and>
     sy_heap s' = sy_heap s \<and> sy_send_list s' = sy_send_list s \<and>
     (if \<not> ping_due ctx s
      then ret = MQTT_SUCCESS \<and> trace (sy_os s') = Unlock # locked ctx s \<and> sy_keep_alive_timestamp s' = sy_keep_alive_timestamp s
      else if replied s (pinged ctx s) = -1
      then ret = MQTT_MESSAGE_SEND_ERROR \<and> trace (sy_os s') = Unlock # pinged ctx s \<and>
           sy_keep_alive_timestamp s' = sy_keep_alive_timestamp s
      else ret = MQTT_SUCCESS \<and> trace (sy_os s') = Unlock # Time # pinged ctx s \<and>
           sy_keep_alive_timestamp s' = replied s (Time # pinged ctx s))"
    by (rule timer_event_keeps_alive [OF 1 2]) simp
qed

text \<open>
  C22. The lock is released on every path. For every state, every answer of the system and every
  timeout callback that leaves the lock as it was, a timer event that returns has released the
  lock as often as it has taken it, errors included.
\<close>

theorem timer_event_releases_lock:
  assumes "callback_unlocks cb" and "process_timer_event ctx cb s = Some (Inr (ret, s'))"
  shows "lock_depth (trace (sy_os s')) = lock_depth (trace (sy_os s))"
proof (cases "replied s (Timer_Read (dc_timer_fd ctx) # trace (sy_os s)) = -1")
  case True
  then have "fst (call_sys (Timer_Read (dc_timer_fd ctx)) s) = -1" by (simp add: replied_def call_sys_state)
  with assms(2) have "s' = snd (call_sys (Timer_Read (dc_timer_fd ctx)) s)"
    by (simp add: process_timer_event_def split_beta)
  then show ?thesis by (simp add: call_sys_state)
next
  case False
  obtain r s1 where event: "process_timer_event ctx cb s =
      obind (if r \<noteq> MQTT_SUCCESS then Some (Inr s1) else timer_loop ctx cb (timer_now ctx s) (sy_send_list s1) s1) (\<lambda>s.
        Some (Inr (ret_code r, snd (call_sys Unlock s))))"
    and d: "depth s1 = depth s + 1"
    by (rule process_timer_event_split [OF False, of cb]) (rule that)
  from assms(2) event obtain s2
    where s2: "(if r \<noteq> MQTT_SUCCESS then Some (Inr s1) else timer_loop ctx cb (timer_now ctx s) (sy_send_list s1) s1) = Some (Inr s2)"
      and s': "s' = snd (call_sys Unlock s2)"
    by (auto simp: obind_eq_Some_Inr simp del: obind.simps)
  from s2 timer_loop_depth [OF assms(1)] have "depth s2 = depth s1" by (auto split: if_splits)
  then show ?thesis using d s' by (simp add: call_sys_state)
qed

theorem timer_event_releases_lock_witness:
  fixes s :: sys
  defines "s \<equiv> \<lparr>sy_heap = \<lparr>cells = [], fresh = 0, oom = \<lambda>_. False, junk = \<lambda>_. 0\<rparr>,
      sy_os = \<lparr>trace = [], errno = 0, int_reply = \<lambda>_. Inl 11, recv_reply = \<lambda>_. Inr [], wait_reply = \<lambda>_. Inr []\<rparr>,
      sy_keep_alive_timestamp = 90, sy_send_list = NULL, sy_buffer = []\<rparr>"
  shows "\<forall>ctx :: deamon_context_t. lock_depth (trace (sy_os (snd (call_sys (Timer_Read (dc_timer_fd ctx)) s)))) = lock_depth (trace (sy_os s))"
proof
  fix ctx :: deamon_context_t
  have event: "process_timer_event ctx callbacks_default s = Some (Inr (-1, snd (call_sys (Timer_Read (dc_timer_fd ctx)) s)))"
    by (simp add: process_timer_event_def split_beta call_sys_state(6) s_def)
  have "callback_unlocks callbacks_default"
    by (auto simp: callback_unlocks_def callbacks_default_def timeout_cb_default_def fbind_eq_Inr)
  then show "lock_depth (trace (sy_os (snd (call_sys (Timer_Read (dc_timer_fd ctx)) s)))) = lock_depth (trace (sy_os s))"
    using event by (rule timer_event_releases_lock)
qed

text \<open>
  C14. The creation of the deamon never succeeds. If there is memory for the context and every call
  up to and including \<^verbatim>\<open>pthread_create\<close> succeeds, the thread runs, with a context that
  is in memory and the two descriptors open; then the function waits for a thread named 0, the
  return code of \<^verbatim>\<open>pthread_create\<close>, which is undefined and reads through
  \<^verbatim>\<open>NULL\<close>. In every other case it returns an error, without a thread, and has given
  everything back: each descriptor it obtained is closed as often as it was obtained, and the heap
  holds what it held before.
\<close>

theorem client_deamon_create_never_succeeds:
  assumes "heap_ok (sy_heap s)"
  shows "if ph \<and> \<not> oom (sy_heap s) (fresh (sy_heap s)) \<and> launches client s
     then (\<exists>p ctx s'. deamon_launch client ph s = Inr (0, Some (p, ctx), s') \<and>
         p \<noteq> NULL \<and> (\<exists>b. load p (sy_heap s') = Inr b) \<and>
         trace (sy_os s') = launch_calls client (dc_timer_fd ctx) (dc_epoll_fd ctx) @ trace (sy_os s)) \<and>
       client_deamon_create client ph s = Inl Null_Deref
     else \<exists>ret s'. client_deamon_create client ph s = Inr (ret, s') \<and> ret \<noteq> ret_code MQTT_SUCCESS \<and>
       deamon_launch client ph s = Inr (ret, None, s') \<and> cells (sy_heap s') = cells (sy_heap s) \<and>
       (\<forall>v. fd_balance (int_reply (sy_os s')) v (trace (sy_os s')) = fd_balance (int_reply (sy_os s)) v (trace (sy_os s)))"
proof (cases "ph \<and> \<not> oom (sy_heap s) (fresh (sy_heap s))")
  case False
  then show ?thesis by (auto simp: client_deamon_create_def deamon_launch_def malloc_def Let_def)
next
  case True
  let ?h = "sy_heap s" and ?k = "fresh (sy_heap s)"
  let ?s = "s\<lparr>sy_heap := ?h\<lparr>cells := (?k, junk_bytes ?h 24) # cells ?h, fresh := Suc ?k\<rparr>\<rparr>"
  obtain ret started s1 where d: "deamon_descriptors client ?s = (ret, started, s1)" by (metis prod_cases3)
  note d1 = deamon_descriptors_fds [OF d]
  have same: "launches client ?s = launches client s" by (simp add: launches_def replied_def)
  have launch: "deamon_launch client ph s = (case started of
       None \<Rightarrow> fbind (free (Addr ?k) (sy_heap s1)) (\<lambda>h. Inr (ret, None, s1\<lparr>sy_heap := h\<rparr>))
     | Some c \<Rightarrow> Inr (ret, Some (Addr ?k, c), s1))"
    using True d by (simp add: deamon_launch_def malloc_def Let_def)
  show ?thesis
  proof (cases started)
    case None
    have "AList.delete ?k (cells ?h) = cells ?h"
      using heap_ok_fresh [OF assms] by (simp add: AList.delete_id map_of_eq_None_iff)
    then have "free (Addr ?k) (sy_heap s1) = Inr (?h\<lparr>fresh := Suc ?k\<rparr>)" by (simp add: d1(1) free_live)
    with launch None have "deamon_launch client ph s = Inr (ret, None, s1\<lparr>sy_heap := ?h\<lparr>fresh := Suc ?k\<rparr>\<rparr>)" by simp
    then show ?thesis using None d1(2,3,5) same by (simp add: client_deamon_create_def)
  next
    case (Some ctx)
    then have "ret = 0" using d1(2) by simp
    with launch Some have "deamon_launch client ph s = Inr (0, Some (Addr ?k, ctx), s1)" by simp
    moreover from this have "client_deamon_create client ph s = Inl Null_Deref"
      by (simp add: client_deamon_create_def pthread_join_def)
    ultimately show ?thesis using Some True d1(1,4,5) same by (simp add: load_Addr)
  qed
qed

theorem client_deamon_create_never_succeeds_witness:
  fixes s :: sys
  defines "s \<equiv> \<lparr>sy_heap = \<lparr>cells = [], fresh = 0, oom = \<lambda>_. False, junk = \<lambda>_. 0\<rparr>,
      sy_os = \<lparr>trace = [], errno = 0, int_reply = \<lambda>_. Inr 0, recv_reply = \<lambda>_. Inr [], wait_reply = \<lambda>_. Inr []\<rparr>,
      sy_keep_alive_timestamp = 90, sy_send_list = NULL, sy_buffer = []\<rparr>"
  shows "\<forall>client. launches client s \<and> client_deamon_create client True s = Inl Null_Deref"
proof
  fix client
  have run: "launches client s" by (simp add: launches_def replied_def s_def Let_def)
  have "heap_ok (sy_heap s)" by (simp add: s_def heap_ok_def live_def)
  from client_deamon_create_never_succeeds [OF this, of True client] run
  show "launches client s \<and> client_deamon_create client True s = Inl Null_Deref" by (simp add: s_def)
qed

text \<open>
  The thread ends in one way only: it returns when the wait for events has failed, with another
  error than an interruption, and that wait was the last thing it did. No error of a handler and
  no message of the peer ends it.
\<close>

theorem client_deamon_thread_ends:
  assumes "client_deamon_thread ctx cb s = Some (Inr s')"
  shows "\<exists>e t. trace (sy_os s') = Epoll_Wait (dc_epoll_fd ctx) # t \<and>
     wait_reply (sy_os s') (trace (sy_os s')) = Inl e \<and> errno (sy_os s') = e \<and> e \<noteq> EINTR"
proof -
  let ?Q = "\<lambda>(ctx :: deamon_context_t) (s' :: sys). \<exists>e t. trace (sy_os s') = Epoll_Wait (dc_epoll_fd ctx) # t \<and>
     wait_reply (sy_os s') (trace (sy_os s')) = Inl e \<and> errno (sy_os s') = e \<and> e \<noteq> EINTR"
  let ?P = "\<lambda>(ctx :: deamon_context_t) (cb :: callbacks) (s :: sys) (y :: sys res). \<forall>s'. y = Inr s' \<longrightarrow> ?Q ctx s'"
  have "?P ctx cb s (Inr s')"
  proof (rule client_deamon_thread.raw_induct [of ?P ctx cb s "Inr s'"])
    show "client_deamon_thread ctx cb s = Some (Inr s')" by (rule assms)
  next
    fix f and ctx :: deamon_context_t and cb :: callbacks and s :: sys and y :: "sys res"
    assume ih: "\<And>ctx cb s y. f ctx cb s = Some y \<Longrightarrow> ?P ctx cb s y"
      and step: "(case epoll_wait (dc_epoll_fd ctx) s of (reply, s) \<Rightarrow>
        (case reply of
           Inl e \<Rightarrow> if e = EINTR then f ctx cb s else Some (Inr s)
         | Inr fds \<Rightarrow> obind (handle_events ctx cb fds s) (\<lambda>s. f ctx cb s))) = Some y"
    show "?P ctx cb s y"
    proof (intro allI impI)
      fix s'
      assume y: "y = Inr s'"
      obtain reply s1 where w: "epoll_wait (dc_epoll_fd ctx) s = (reply, s1)" by fastforce
      show "?Q ctx s'"
      proof (cases reply)
        case (Inl e)
        show ?thesis
        proof (cases "e = EINTR")
          case True
          with step w Inl ih y show ?thesis by simp
        next
          case False
          with step w Inl y have "s' = s1" by simp
          with w Inl False show ?thesis by (auto simp: epoll_wait_def Let_def split: sum.splits)
        qed
      next
        case (Inr fds)
        with step w y obtain s2 where "f ctx cb s2 = Some (Inr s')"
          by (auto simp: obind_eq_Some_Inr simp del: obind.simps)
        with ih show ?thesis by blast
      qed
    qed
  qed
  then show ?thesis by simp
qed

theorem client_deamon_thread_ends_witness:
  fixes s :: sys
  defines "s \<equiv> \<lparr>sy_heap = \<lparr>cells = [], fresh = 0, oom = \<lambda>_. False, junk = \<lambda>_. 0\<rparr>,
      sy_os = \<lparr>trace = [], errno = 0, int_reply = \<lambda>_. Inr 0, recv_reply = \<lambda>_. Inr [], wait_reply = \<lambda>_. Inl 9\<rparr>,
      sy_keep_alive_timestamp = 90, sy_send_list = NULL, sy_buffer = []\<rparr>"
  shows "\<forall>ctx :: deamon_context_t. \<exists>e t. trace (sy_os (snd (epoll_wait (dc_epoll_fd ctx) s))) = Epoll_Wait (dc_epoll_fd ctx) # t \<and>
     wait_reply (sy_os (snd (epoll_wait (dc_epoll_fd ctx) s))) (trace (sy_os (snd (epoll_wait (dc_epoll_fd ctx) s)))) = Inl e \<and>
     errno (sy_os (snd (epoll_wait (dc_epoll_fd ctx) s))) = e \<and> e \<noteq> EINTR"
proof
  fix ctx :: deamon_context_t
  have "client_deamon_thread ctx callbacks_default s = Some (Inr (snd (epoll_wait (dc_epoll_fd ctx) s)))"
    by (subst client_deamon_thread.simps) (simp add: epoll_wait_def s_def)
  then show "\<exists>e t. trace (sy_os (snd (epoll_wait (dc_epoll_fd ctx) s))) = Epoll_Wait (dc_epoll_fd ctx) # t \<and>
     wait_reply (sy_os (snd (epoll_wait (dc_epoll_fd ctx) s))) (trace (sy_os (snd (epoll_wait (dc_epoll_fd ctx) s)))) = Inl e \<and>
     errno (sy_os (snd (epoll_wait (dc_epoll_fd ctx) s))) = e \<and> e \<noteq> EINTR"
    by (rule client_deamon_thread_ends)
qed




end
