(* ===== verification/Heap_Frame.thy ===== *)
theory Heap_Frame
  imports Message_Keep Msg_Suback
begin

text \<open>
  Operations that allocate, write and release blocks of their own and leave every older block as
  it was, so that whatever is kept in older blocks, such as the list of sent messages, is
  unchanged. The parser of SUBACK is one of them.
\<close>

section \<open>Operations that work on memory of their own\<close>

text \<open>
  \<open>untouched k h h'\<close>: going from \<open>h\<close> to \<open>h'\<close> left all blocks with addresses below \<open>k\<close>
  alone. \<open>young k p\<close>: a pointer to a block that is not one of them.
\<close>

definition untouched :: "nat \<Rightarrow> heap \<Rightarrow> heap \<Rightarrow> bool" where
  "untouched k h h' \<longleftrightarrow> heap_ok h' \<and> k \<le> fresh h' \<and> (\<forall>a < k. map_of (cells h') a = map_of (cells h) a)"

definition young :: "nat \<Rightarrow> link \<Rightarrow> bool" where
  "young k p \<longleftrightarrow> (\<forall>a. p = Addr a \<longrightarrow> k \<le> a)"

lemma young_NULL [simp]: "young k NULL"
  by (simp add: young_def)

lemma untouched_refl: "heap_ok h \<Longrightarrow> k \<le> fresh h \<Longrightarrow> untouched k h h"
  by (simp add: untouched_def)

lemma untouched_malloc:
  assumes "untouched k h0 h" and "malloc b h = (p, h')"
  shows "untouched k h0 h'" and "young k p"
proof -
  have "heap_ok h'" using malloc_heap_ok [of h b] assms by (simp add: untouched_def)
  with assms show "untouched k h0 h'" by (cases rule: malloc_cases [of h b]) (auto simp: untouched_def)
  show "young k p" using assms by (cases rule: malloc_cases [of h b]) (auto simp: untouched_def young_def)
qed

lemma untouched_store:
  assumes "untouched k h0 h" and "young k p" and "store p b h = Inr h'"
  shows "untouched k h0 h'"
proof -
  from assms(3) obtain a b' where a: "p = Addr a" "map_of (cells h) a = Some b'"
    by (auto simp: store_def fbind_eq_Inr load_eq_Inr)
  then have "h' = h\<lparr>cells := AList.update a b (cells h)\<rparr>" using assms(3) by (simp add: store_live)
  then show ?thesis
    using assms(1,2) a heap_ok_update [of h a b] by (auto simp: untouched_def young_def AList.update_conv' live_iff)
qed

lemma untouched_free:
  assumes "untouched k h0 h" and "young k p" and "free p h = Inr h'"
  shows "untouched k h0 h'"
proof -
  have "heap_ok h'" using assms(1) free_heap_ok [OF _ assms(3)] by (simp add: untouched_def)
  then show ?thesis
    using assms by (auto simp: free_def untouched_def young_def AList.delete_conv' split: link.splits option.splits)
qed

lemma untouched_send_list:
  assumes "send_list h p as qs" and "heap_ok h" and "untouched (fresh h) h h'"
  shows "send_list h' p as qs" and "set as \<union> copies h' as \<subseteq> {..<fresh h}"
proof -
  have below: "a < fresh h" if "map_of (cells h) a = Some b" for a b
    using assms(2) that live_iff [of a h] by (auto simp: heap_ok_def)
  have same: "map_of (cells h') a = map_of (cells h) a" if "map_of (cells h) a = Some b" for a b
    using assms(3) below [OF that] by (simp add: untouched_def)
  show "send_list h' p as qs"
    by (rule send_list_cong [OF assms(1)]) (use same send_list_live [OF assms(1)] in \<open>fastforce simp: keeps_bytes_def\<close>)+
  have "copies h' as = copies h as" by (rule copies_cong) (use same send_list_live [OF assms(1)] in fastforce)
  moreover have "c < fresh h" if "c \<in> copies h as" for c
    using that assms(1) below unfolding copies_def send_list_def
    by (fastforce simp: list_all2_conv_all_nth in_set_conv_nth holds_def load_bytes_eq_Inr)
  moreover have "a < fresh h" if "a \<in> set as" for a using send_list_live [OF assms(1) that] below by blast
  ultimately show "set as \<union> copies h' as \<subseteq> {..<fresh h}" by auto
qed

lemma untouched_queue:
  assumes "queue h p qs" and "untouched (fresh h) h h'"
  shows "queue h' p qs"
  using assms untouched_send_list(1) [OF _ _ assms(2)] by (auto simp: queue_def untouched_def)

section \<open>SUBACK\<close>

definition data_young :: "nat \<Rightarrow> suback_data_t option \<Rightarrow> bool" where
  "data_young k d \<longleftrightarrow> (\<forall>x. d = Some x \<longrightarrow> young k (sd_qos x))"

lemma realloc_untouched:
  assumes "untouched k h0 h" and "young k p" and "realloc p n h = Inr (q, h')"
  shows "untouched k h0 h' \<and> young k q"
proof (cases "p = NULL")
  case True
  with assms(3) have "malloc (junk_bytes h n) h = (q, h')" by (simp add: realloc_def)
  then show ?thesis using untouched_malloc [OF assms(1)] by blast
next
  case False
  then obtain bs where "load_bytes p h = Inr bs" using assms(3) by (auto simp: realloc_def fbind_eq_Inr)
  moreover obtain r h1 where m: "malloc (Bytes (take n bs @ map (junk h) [length bs..<n])) h = (r, h1)" by fastforce
  ultimately show ?thesis
    using assms False untouched_free [OF assms(1,2)] untouched_malloc [OF assms(1) m] untouched_free [OF _ assms(2), of h0 h1]
    by (auto simp: realloc_def fbind_eq_Inr split: if_splits)
qed

lemma suback_store_untouched:
  assumes "untouched k h0 h" and "young k (sd_qos d)" and "suback_store d q h = Inr (ret, d', h')"
  shows "untouched k h0 h' \<and> data_young k d'"
  using assms untouched_store [OF assms(1,2)] by (auto simp: suback_store_def fbind_eq_Inr data_young_def)

lemma suback_data_append_untouched:
  assumes "untouched k h0 h" and "data_young k d" and "suback_data_append d q h = Inr (ret, d', h')"
  shows "untouched k h0 h' \<and> data_young k d'"
proof (cases d)
  case None
  with assms show ?thesis by (simp add: suback_data_append_def)
next
  case (Some x)
  then have x: "young k (sd_qos x)" using assms(2) by (simp add: data_young_def)
  show ?thesis
  proof (cases "sd_size x < sd_capacity x")
    case True
    then show ?thesis
      using assms(3) suback_store_untouched [OF assms(1) x] by (simp add: Some suback_data_append_room)
  next
    case False
    then have full: "sd_capacity x \<le> sd_size x" by simp
    from assms(3) obtain p h1 where r: "realloc (sd_qos x) (unat (grown (sd_capacity x))) h = Inr (p, h1)"
      and go: "(if p = NULL then Inr (MQTT_MEMORY_NOBUFFER, Some x, h1)
        else suback_store (x\<lparr>sd_qos := p, sd_capacity := grown (sd_capacity x)\<rparr>) q h1) = Inr (ret, d', h')"
      unfolding Some suback_data_append_full [OF full] by (auto simp: fbind_eq_Inr)
    note u = realloc_untouched [OF assms(1) x r]
    show ?thesis
    proof (cases "p = NULL")
      case True
      with go u x show ?thesis by (auto simp: data_young_def)
    next
      case False
      with go suback_store_untouched [of k h0 h1 "x\<lparr>sd_qos := p, sd_capacity := grown (sd_capacity x)\<rparr>"] u
      show ?thesis by simp
    qed
  qed
qed

lemma suback_data_release_untouched:
  assumes "untouched k h0 h" and "suback_data_release d h = Inr (ret, d', h')"
  shows "untouched k h0 h' \<and> data_young k d'"
  using assms by (auto simp: suback_data_release_def data_young_def free_def fbind_eq_Inr split: option.splits if_splits)

lemma suback_parse_loop_untouched:
  "suback_parse_loop m n i d h = Inr (ret, d', h') \<Longrightarrow> untouched k h0 h \<Longrightarrow> data_young k d \<Longrightarrow>
   untouched k h0 h' \<and> data_young k d'"
proof (induction m n i d h arbitrary: ret d' h' rule: suback_parse_loop.induct)
  case (1 m n i d h)
  show ?case
  proof (cases "i < unat n")
    case False
    with "1.prems" show ?thesis by (simp add: suback_parse_loop.simps [of m n i])
  next
    case True
    with "1.prems"(1) obtain b where b: "rd m i = Inr b"
      by (subst (asm) suback_parse_loop.simps) (auto simp: fbind_eq_Inr)
    show ?thesis
    proof (cases "MQTT_QOS_MAX \<le> b \<and> b \<noteq> MQTT_QOS_REJECT")
      case bad: True
      with "1.prems" True b show ?thesis by (subst (asm) suback_parse_loop.simps) simp
    next
      case good: False
      with "1.prems"(1) True b obtain r d1 h1 where a: "suback_data_append d b h = Inr (r, d1, h1)"
        and go: "(if r \<noteq> MQTT_SUCCESS then fbind (suback_data_release d1 h1) (\<lambda>(_, data, h). Inr (r, data, h))
          else suback_parse_loop m n (i + 1) d1 h1) = Inr (ret, d', h')"
        by (subst (asm) suback_parse_loop.simps) (auto simp: fbind_eq_Inr)
      note u = suback_data_append_untouched [OF "1.prems"(2,3) a]
      show ?thesis
      proof (cases "r = MQTT_SUCCESS")
        case False
        with go u show ?thesis by (auto simp: fbind_eq_Inr dest: suback_data_release_untouched)
      next
        case ok: True
        with go have "suback_parse_loop m n (i + 1) d1 h1 = Inr (ret, d', h')" by simp
        with "1.IH" [OF True b good a] ok u show ?thesis by simp
      qed
    qed
  qed
qed

lemma suback_data_init_untouched:
  assumes "untouched k h0 h" and "suback_data_init d c h = (ret, d', h')"
  shows "untouched k h0 h' \<and> data_young k d'"
proof (cases d)
  case (Some x)
  let ?c = "if c = 0 then SUBACK_TOPIC_NUM_DEFAULT else c"
  obtain p h1 where m: "malloc (junk_bytes h (unat ?c)) h = (p, h1)" by fastforce
  with assms(2) Some have "h' = h1" "\<exists>y. d' = Some y \<and> sd_qos y = p"
    by (auto simp: suback_data_init_def Let_def split: if_splits)
  then show ?thesis using untouched_malloc [OF assms(1) m] by (auto simp: data_young_def)
qed (use assms in \<open>simp add: suback_data_init_def data_young_def\<close>)

lemma suback_message_parse_untouched:
  assumes "suback_message_parse (Some p) n (Some i) (Some d) h = Inr (ret, j, d', h')"
    and "untouched k h0 h" and "young k (sd_qos d)"
  shows "untouched k h0 h' \<and> data_young k d'"
proof -
  have d: "data_young k (Some d)" using assms(3) by (simp add: data_young_def)
  let ?i = "\<lambda>c. snd (suback_data_init (Some d) c h)"
  have "h' = h \<and> d' = Some d \<or> (\<exists>c. (d', h') = ?i c \<or> (\<exists>q l r2. suback_parse_loop q l 0 (fst (?i c)) (snd (?i c)) = Inr (r2, d', h')))"
    using assms(1)
    by (auto simp: suback_message_parse_def Let_def fbind_eq_Inr split_beta simp del: rd_0 split: if_splits) (metis prod.collapse)+
  then consider "h' = h" "d' = Some d" | c where "(d', h') = ?i c"
    | c q l r2 where "suback_parse_loop q l 0 (fst (?i c)) (snd (?i c)) = Inr (r2, d', h')" by blast
  then show ?thesis
  proof cases
    case 1
    with assms(2) d show ?thesis by simp
  next
    case (2 c)
    with suback_data_init_untouched [OF assms(2), of "Some d" c] show ?thesis by (metis prod.collapse)
  next
    case (3 c)
    from suback_data_init_untouched [OF assms(2), of "Some d" c]
    have "untouched k h0 (snd (?i c)) \<and> data_young k (fst (?i c))" by (metis prod.collapse)
    with 3 suback_parse_loop_untouched show ?thesis by blast
  qed
qed

end
