(* ===== verification/Server_Stream.thy ===== *)
theory Server_Stream
  imports Deamon_Socket Heap_Frame
begin

text \<open>
  The conversation with the server, without buffers, headers, parsers and dispatching: what the
  client does with a sequence of whole messages, as a function of the messages, and the proof
  that the socket handler of client/client_deamon.c with everything below it does just that.
\<close>

section \<open>The messages of a server\<close>

record publication =
  pb_dup :: bool
  pb_qos :: u8
  pb_retain :: bool
  pb_topic :: "u8 list"
  pb_id :: u16
  pb_payload :: "u8 list"

datatype server_message =
    Publish_Msg publication
  | Ack_Msg ack_kind u16
  | Suback_Msg u16 "u8 list"
  | Pingresp_Msg
  | Other_Msg u8 "u8 list"

definition pb_header :: "publication \<Rightarrow> u8" where
  "pb_header p = publish_flags (pb_dup p) (pb_qos p) (pb_retain p)"

definition pb_body :: "publication \<Rightarrow> u8 list" where
  "pb_body p = publish_body (pb_topic p) (if pb_qos p = 0 then None else Some (pb_id p)) (pb_payload p)"

fun sm_header :: "server_message \<Rightarrow> u8" where
  "sm_header (Publish_Msg p) = pb_header p"
| "sm_header (Ack_Msg k i) = ack_header k"
| "sm_header (Suback_Msg i codes) = 0x90"
| "sm_header Pingresp_Msg = 0xD0"
| "sm_header (Other_Msg b body) = b"

fun sm_body :: "server_message \<Rightarrow> u8 list" where
  "sm_body (Publish_Msg p) = pb_body p"
| "sm_body (Ack_Msg k i) = be16 i"
| "sm_body (Suback_Msg i codes) = be16 i @ codes"
| "sm_body Pingresp_Msg = []"
| "sm_body (Other_Msg b body) = body"

definition sm_bytes :: "server_message \<Rightarrow> u8 list" where
  "sm_bytes m = frame (sm_header m) (sm_body m)"

text \<open>
  The messages considered: those of the standard of at most 1024 bytes, with legal fields and a
  topic that is not empty, and anything of a type that only clients send.
\<close>

definition ignored_type :: "mqtt_message_type \<Rightarrow> bool" where
  "ignored_type t \<longleftrightarrow> t \<in> {MQTT_MESSAGE_TYPE_CONNECT, MQTT_MESSAGE_TYPE_CONNACK, MQTT_MESSAGE_TYPE_SUBSCRIBE,
     MQTT_MESSAGE_TYPE_UNSUBSCRIBE, MQTT_MESSAGE_TYPE_PINGREQ, MQTT_MESSAGE_TYPE_DISCONNECT}"

fun sm_legal :: "server_message \<Rightarrow> bool" where
  "sm_legal (Publish_Msg p) \<longleftrightarrow> pb_qos p < MQTT_QOS_MAX \<and> pb_topic p \<noteq> []"
| "sm_legal (Suback_Msg i codes) \<longleftrightarrow> list_all legal_code codes"
| "sm_legal (Other_Msg b body) \<longleftrightarrow> ignored_type (type_of_code (type_bits b))"
| "sm_legal _ \<longleftrightarrow> True"

definition sm_ok :: "server_message \<Rightarrow> bool" where
  "sm_ok m \<longleftrightarrow> sm_legal m \<and> length (sm_bytes m) \<le> 1024"

lemma sm_body_small: "sm_ok m \<Longrightarrow> length (sm_body m) < 1024"
  by (simp add: sm_ok_def sm_bytes_def frame_def)

section \<open>What the client does with them\<close>

text \<open>
  A PUBLISH is handed to the callback, which sees the buffer behind the topic and behind the
  payload, and answered. When a PUBACK was sent, the first packet with its identifier is taken out
  of the client's own list of sent messages, which must not be empty. The return codes of a SUBACK
  are collected in an array of their own, which nothing refers to afterwards.
\<close>

definition taken_out :: "u16 \<Rightarrow> sys \<Rightarrow> sys outcome" where
  "taken_out i s =
     (if sy_send_list s = NULL then Some (Inl Null_Deref)
      else obind (message_send_remove (Some (sy_send_list s)) i (sy_heap s)) (\<lambda>(_, list, h).
           Some (Inr (s\<lparr>sy_send_list := the list, sy_heap := h\<rparr>))))"

definition answered :: "deamon_context_t \<Rightarrow> publication \<Rightarrow> sys \<Rightarrow> (mqtt_ret \<times> sys) outcome" where
  "answered ctx p s =
     (if pb_qos p = 1
      then (case transmit ctx (frame 0x40 (be16 (pb_id p))) s of (ret, s) \<Rightarrow>
              if ret \<noteq> MQTT_SUCCESS then Some (Inr (ret, s)) else obind (taken_out (pb_id p) s) (\<lambda>s. Some (Inr (MQTT_SUCCESS, s))))
      else if pb_qos p = 2 then Some (Inr (transmit ctx (frame 0x50 (be16 (pb_id p))) s))
      else Some (Inr (MQTT_SUCCESS, s)))"

definition handed_over :: "publish_callback \<Rightarrow> publication \<Rightarrow> sys \<Rightarrow> sys res" where
  "handed_over pub p s =
     (let behind = replicate (BUFFER_SIZE - length (sm_bytes (Publish_Msg p))) 0
      in pub (pb_topic p @ (if pb_qos p = 0 then [] else be16 (pb_id p)) @ pb_payload p @ behind)
           (of_nat (length (pb_topic p))) (pb_payload p @ behind) (of_nat (length (pb_payload p))) s)"

definition collected :: "u8 list \<Rightarrow> heap \<Rightarrow> heap res" where
  "collected codes h =
     (case suback_data_init (Some \<lparr>sd_qos = NULL, sd_size = 0, sd_capacity = 0\<rparr>) (of_nat (length codes)) h of
        (_, data, h) \<Rightarrow> fbind (codes.push_all data codes h) (\<lambda>(_, _, h). Inr h))"

fun react :: "deamon_context_t \<Rightarrow> publish_callback \<Rightarrow> server_message \<Rightarrow> sys \<Rightarrow> (mqtt_ret \<times> sys) outcome" where
  "react ctx pub (Publish_Msg p) s = obind (Some (handed_over pub p s)) (answered ctx p)"
| "react ctx pub (Ack_Msg k i) s =
     Some (Inr (if k = Pubrec then transmit ctx (frame 0x60 (be16 i)) s else (MQTT_SUCCESS, s)))"
| "react ctx pub (Suback_Msg i codes) s =
     Some (fbind (collected codes (sy_heap s)) (\<lambda>h. Inr (MQTT_SUCCESS, s\<lparr>sy_heap := h\<rparr>)))"
| "react ctx pub Pingresp_Msg s = Some (Inr (MQTT_SUCCESS, s))"
| "react ctx pub (Other_Msg b body) s = Some (Inr (MQTT_SUCCESS, s))"

definition handle_one :: "deamon_context_t \<Rightarrow> publish_callback \<Rightarrow> server_message \<Rightarrow> sys \<Rightarrow> sys outcome" where
  "handle_one ctx pub m s = obind (react ctx pub m (arrived ctx (sm_bytes m) s)) (\<lambda>(_, s). Some (Inr s))"

primrec converse :: "deamon_context_t \<Rightarrow> publish_callback \<Rightarrow> server_message list \<Rightarrow> sys \<Rightarrow> sys outcome" where
  "converse ctx pub [] s = Some (Inr s)"
| "converse ctx pub (m # ms) s = obind (handle_one ctx pub m s) (converse ctx pub ms)"

text \<open>
  The messages come one after the other, each in the pieces that are asked for, and there is
  memory for the array of a SUBACK.
\<close>

fun memory_for :: "server_message \<Rightarrow> heap \<Rightarrow> bool" where
  "memory_for (Suback_Msg i codes) h \<longleftrightarrow> heap_ok h \<and> (\<forall>k. \<not> oom h k)"
| "memory_for _ h \<longleftrightarrow> True"

primrec stream :: "deamon_context_t \<Rightarrow> publish_callback \<Rightarrow> server_message list \<Rightarrow> sys \<Rightarrow> bool" where
  "stream ctx pub [] s \<longleftrightarrow> True"
| "stream ctx pub (m # ms) s \<longleftrightarrow> comes ctx (sm_bytes m) s \<and> memory_for m (sy_heap s) \<and>
     (case handle_one ctx pub m s of Some (Inr s') \<Rightarrow> stream ctx pub ms s' | _ \<Rightarrow> True)"

section \<open>Lemmas: one message\<close>

lemma publish_type: "q < MQTT_QOS_MAX \<Longrightarrow> type_of_code (type_bits (publish_flags d q r)) = MQTT_MESSAGE_TYPE_PUBLISH"
  using publish_flags_decode(1) [of q d r] unfolding and_type_mask_eq_encode by (metis type_of_code_type_code)

lemma puback_msg_sent_taken_out:
  "puback_msg_sent ctx i s =
     (case transmit ctx (frame 0x40 (be16 i)) s of (ret, s) \<Rightarrow>
        if ret \<noteq> MQTT_SUCCESS then Some (Inr (ret, s)) else obind (taken_out i s) (\<lambda>s. Some (Inr (MQTT_SUCCESS, s))))"
proof -
  obtain r s1 where t: "transmit ctx (frame 0x40 (be16 i)) s = (r, s1)" by fastforce
  with transmit_rest(1,2) [of ctx "frame 0x40 (be16 i)" s]
  have "sy_heap s1 = sy_heap s" "sy_send_list s1 = sy_send_list s" by simp_all
  with t show ?thesis
    by (simp add: puback_msg_sent_eq ack_bytes_frame taken_out_def obind_assoc case_prod_unfold obind_Inr del: obind.simps)
      (simp add: message_send_remove_def load_NULL)
qed

lemma answered_eq:
  "answered ctx p s =
     (if pb_qos p = 1 then puback_msg_sent ctx (pb_id p) s
      else if pb_qos p = 2 then Some (Inr (transmit ctx (frame 0x50 (be16 (pb_id p))) s))
      else Some (Inr (MQTT_SUCCESS, s)))"
  by (simp only: answered_def puback_msg_sent_taken_out)

lemma publish_msg_process_react:
  assumes "sm_ok (Publish_Msg p)"
  shows "publish_msg_process ctx (padded (sm_bytes (Publish_Msg p))) (of_nat (length (sm_bytes (Publish_Msg p)))) (Some pub) s =
     react ctx pub (Publish_Msg p) s"
proof -
  have small: "length (pb_body p) < 1024" using sm_body_small [OF assms] by simp
  have legal: "pb_qos p < MQTT_QOS_MAX" using assms by (simp add: sm_ok_def)
  from small have "length (pb_topic p) < 65536" "length (pb_body p) < 268435456"
    by (simp_all add: pb_body_def length_publish_body)
  from publish_msg_process_frame [OF this(1) this(2) [unfolded pb_body_def] legal] show ?thesis
    by (simp add: sm_bytes_def pb_header_def pb_body_def padded_def handed_over_def answered_eq [abs_def] Let_def)
qed

lemma suback_parse_loop_pushes:
  "codes.push_all d rs h = Inr (MQTT_SUCCESS, d', h') \<Longrightarrow> drop i p = rs @ tail \<Longrightarrow> unat n = i + length rs \<Longrightarrow>
   list_all legal_code rs \<Longrightarrow> suback_parse_loop p n i d h = Inr (MQTT_SUCCESS, d', h')"
proof (induction rs arbitrary: i d h)
  case Nil
  then show ?case by (simp add: suback_parse_loop.simps [of p n i])
next
  case (Cons r rs)
  have "i < unat n" using Cons.prems(3) by simp
  have "i < length p" using Cons.prems(2) by (cases "i < length p") auto
  then have "p ! i # drop (Suc i) p = r # rs @ tail" using Cons.prems(2) by (simp add: Cons_nth_drop_Suc)
  with \<open>i < length p\<close> have rd: "rd p i = Inr r" and rest: "drop (Suc i) p = rs @ tail" by (simp_all add: rd_def)
  from Cons.prems(1) obtain d1 h1 where one: "suback_data_append d r h = Inr (MQTT_SUCCESS, d1, h1)"
    and go: "codes.push_all d1 rs h1 = Inr (MQTT_SUCCESS, d', h')"
    by (auto simp: fbind_eq_Inr split: if_splits)
  have "suback_parse_loop p n (Suc i) d1 h1 = Inr (MQTT_SUCCESS, d', h')"
    by (rule Cons.IH [OF go rest]) (use Cons.prems in simp_all)
  moreover have "\<not> (MQTT_QOS_MAX \<le> r \<and> r \<noteq> MQTT_QOS_REJECT)" using Cons.prems(4) by (auto simp: legal_code_def)
  ultimately show ?case
    using \<open>i < unat n\<close> rd one by (subst suback_parse_loop.simps) (simp only: fbind.simps if_True if_False prod.case simp_thms Suc_eq_plus1)
qed

lemma suback_msg_process_react:
  assumes "sm_ok (Suback_Msg i codes)" and "memory_for (Suback_Msg i codes) (sy_heap s)"
  shows "suback_msg_process ctx (padded (sm_bytes (Suback_Msg i codes))) (of_nat (length (sm_bytes (Suback_Msg i codes)))) s =
       fbind (collected codes (sy_heap s)) (\<lambda>h. Inr (MQTT_SUCCESS, s\<lparr>sy_heap := h\<rparr>)) \<and>
     (\<exists>h. collected codes (sy_heap s) = Inr h)"
proof -
  let ?m = "sm_bytes (Suback_Msg i codes)" and ?d = "\<lparr>sd_qos = NULL, sd_size = 0, sd_capacity = 0\<rparr>"
  have h: "heap_ok (sy_heap s)" "\<forall>k. \<not> oom (sy_heap s) k" using assms(2) by simp_all
  have few: "length codes \<le> 65526" and legal: "list_all legal_code codes"
    using sm_body_small [OF assms(1)] assms(1) by (simp_all add: sm_ok_def)
  have len: "unat (of_nat (length ?m) :: u32) = length (frame 0x90 (be16 i @ codes))"
    using assms(1) by (simp add: sm_ok_def sm_bytes_def unat_u32_of_nat)
  obtain d1 h1 where init: "suback_data_init (Some ?d) (of_nat (length codes)) (sy_heap s) = (MQTT_SUCCESS, Some d1, h1)"
    "suback_repr h1 d1 []" "oom h1 = oom (sy_heap s)"
    using suback_data_init_repr [OF h] by blast
  from codes.push_all_repr [OF init(2), of codes] few init(3) h(2) obtain d2 h2
    where push: "codes.push_all (Some d1) codes h1 = Inr (MQTT_SUCCESS, Some d2, h2)" by auto
  let ?rest = "replicate (BUFFER_SIZE - length ?m) 0"
  have "suback_parse_loop (codes @ ?rest) (of_nat (length codes)) 0 (Some d1) h1 = Inr (MQTT_SUCCESS, Some d2, h2)"
    by (rule suback_parse_loop_pushes [OF push]) (use few legal in \<open>simp_all add: unat_u32_of_nat\<close>)
  then have "suback_message_parse (Some (frame 0x90 (be16 i @ codes) @ ?rest)) (of_nat (length ?m)) (Some 0) (Some ?d) (sy_heap s) =
      Inr (MQTT_SUCCESS, Some i, Some d2, h2)"
    by (simp add: suback_message_parse_frame [OF few len] init(1))
  moreover have "collected codes (sy_heap s) = Inr h2" by (simp add: collected_def init(1) push)
  ultimately show ?thesis by (simp add: suback_msg_process_def padded_def sm_bytes_def)
qed

definition ack_msg_process :: "ack_kind \<Rightarrow> deamon_context_t \<Rightarrow> u8 list \<Rightarrow> u32 \<Rightarrow> sys \<Rightarrow> (mqtt_ret \<times> sys) res" where
  "ack_msg_process k = (case k of Puback \<Rightarrow> puback_msg_process | Pubrec \<Rightarrow> pubrec_msg_process | Pubrel \<Rightarrow> pubrel_msg_process
     | Pubcomp \<Rightarrow> pubcomp_msg_process | Unsuback \<Rightarrow> unsuback_msg_process)"

lemma ack_msg_process_react:
  "Some (ack_msg_process k ctx (padded (sm_bytes (Ack_Msg k i))) 4 s) = react ctx pub (Ack_Msg k i) s"
proof -
  note parsers = puback.parse_ok pubrec.parse_ok pubrel.parse_ok pubcomp.parse_ok unsuback.parse_ok
  show ?thesis
    by (cases k) (simp_all add: ack_msg_process_def sm_bytes_def padded_def ack_bytes_frame [symmetric] parsers acks_sent
        puback_msg_process_def pubrec_msg_process_def pubrel_msg_process_def pubcomp_msg_process_def unsuback_msg_process_def)
qed

lemma dispatch_ack:
  "dispatch_message ctx cb (type_of_code (type_bits (ack_header k))) n r s = ret_of (Some (ack_msg_process k ctx (sy_buffer s) n s))"
  by (cases k) (simp_all add: dispatch_message_def ack_msg_process_def type_bits_def type_of_code_def all_types_def)

text \<open>One turn of the handler for each message.\<close>

lemma server_message_turn:
  assumes "sm_ok m" and "comes ctx (sm_bytes m) s" and "memory_for m (sy_heap s)" and "publish_cb cb = Some pub"
  shows "process_socket_event ctx cb s = obind (handle_one ctx pub m s) (process_socket_event ctx cb)"
proof -
  let ?m = "sm_bytes m" and ?s = "arrived ctx (sm_bytes m) s"
  have small: "length (sm_body m) < 268435456" using sm_body_small [OF assms(1)] by simp
  have fits: "length ?m \<le> 1024" using assms(1) by (simp add: sm_ok_def)
  obtain r where r: "r \<le> 1024"
    and turn: "socket_turn ctx cb s = dispatch_message ctx cb (type_of_code (type_bits (sm_header m))) (of_nat (length ?m)) r ?s"
    using socket_turn_message [OF small sm_bytes_def fits assms(2)] by blast
  have again: ?thesis if "socket_turn ctx cb s = ret_of (react ctx pub m ?s)"
    using process_socket_event_again [OF that] unfolding handle_one_def
    by (simp add: obind_assoc case_prod_unfold obind_Inr)
  show ?thesis
  proof (cases m)
    case (Publish_Msg p)
    then have "type_of_code (type_bits (sm_header m)) = MQTT_MESSAGE_TYPE_PUBLISH"
      using assms(1) by (simp add: sm_ok_def pb_header_def publish_type)
    with turn assms(1,4) show ?thesis
      by (intro again) (simp add: dispatch_message_def arrived_state publish_msg_process_react Publish_Msg del: react.simps)
  next
    case (Ack_Msg k i)
    have "length ?m = 4" by (simp add: Ack_Msg sm_bytes_def flip: ack_bytes_frame)
    with turn show ?thesis
      by (intro again) (simp add: Ack_Msg dispatch_ack arrived_state ack_msg_process_react [symmetric] del: react.simps)
  next
    case (Suback_Msg i codes)
    from suback_msg_process_react [of i codes ?s ctx] assms(1,3) turn show ?thesis
      by (intro again) (simp add: Suback_Msg dispatch_message_def arrived_state type_bits_def type_of_code_def all_types_def)
  next
    case Pingresp_Msg
    with turn show ?thesis
      by (intro again) (simp add: dispatch_message_def pingresp_msg_process_def type_bits_def type_of_code_def all_types_def)
  next
    case (Other_Msg b body)
    then have "socket_turn ctx cb s = Some (Inr (Next r, ?s))"
      using turn assms(1) by (auto simp: dispatch_message_def sm_ok_def ignored_type_def)
    from process_socket_event_next [OF this r] show ?thesis by (simp add: handle_one_def Other_Msg)
  qed
qed

lemma process_socket_event_converse:
  "stream ctx pub ms s \<Longrightarrow> list_all sm_ok ms \<Longrightarrow> publish_cb cb = Some pub \<Longrightarrow>
   process_socket_event ctx cb s = obind (converse ctx pub ms s) (process_socket_event ctx cb)"
proof (induction ms arbitrary: s)
  case (Cons m ms)
  then have turn: "process_socket_event ctx cb s = obind (handle_one ctx pub m s) (process_socket_event ctx cb)"
    by (intro server_message_turn) simp_all
  show ?case
  proof (cases "handle_one ctx pub m s")
    case (Some x)
    then show ?thesis using turn Cons by (cases x) simp_all
  qed (simp add: turn)
qed simp

section \<open>What is sent, and the queue\<close>

text \<open>What the calls handed to the network, the first one first.\<close>

fun sends :: "syscall list \<Rightarrow> (int \<times> u8 list) list" where
  "sends [] = []"
| "sends (Send fd bytes # t) = sends t @ [(fd, bytes)]"
| "sends (_ # t) = sends t"

definition reply :: "server_message \<Rightarrow> u8 list list" where
  "reply m = (case m of
     Publish_Msg p \<Rightarrow> if pb_qos p = 1 then [frame 0x40 (be16 (pb_id p))]
       else if pb_qos p = 2 then [frame 0x50 (be16 (pb_id p))] else []
   | Ack_Msg k i \<Rightarrow> if k = Pubrec then [frame 0x60 (be16 i)] else []
   | _ \<Rightarrow> [])"

definition settling :: "server_message \<Rightarrow> bool" where
  "settling m \<longleftrightarrow> (\<exists>p. m = Publish_Msg p \<and> pb_qos p = 1)"

text \<open>A callback that sends nothing and does not touch the queue.\<close>

definition observes :: "publish_callback \<Rightarrow> bool" where
  "observes pub \<longleftrightarrow> (\<forall>t n p k s s'. pub t n p k s = Inr s' \<longrightarrow>
     sends (trace (sy_os s')) = sends (trace (sy_os s)) \<and> sy_send_list s' = sy_send_list s \<and>
     (\<forall>qs. queue (sy_heap s) (sy_send_list s) qs \<longrightarrow> queue (sy_heap s') (sy_send_list s) qs))"

lemma observes_default: "observes publish_cb_default"
  by (auto simp: observes_def publish_cb_default_def fbind_eq_Inr)

lemma sends_arrived: "sends (trace (sy_os (arrived ctx m s))) = sends (trace (sy_os s))"
  by (simp add: arrived_def heard_def Let_def)

lemma sends_transmit:
  "transmit ctx bytes s = (r, s') \<Longrightarrow> sends (trace (sy_os s')) = sends (trace (sy_os s)) @ [(deamon_fd ctx, bytes)]"
  using transmit_trace [of ctx bytes s] by (simp add: deamon_fd_def)

lemma taken_out_os: "taken_out i s = Some (Inr s') \<Longrightarrow> sy_os s' = sy_os s"
  by (auto simp: taken_out_def obind_eq_Some_Inr simp del: obind.simps split: if_splits)

lemma queue_transmit:
  "transmit ctx bytes s = (r, s') \<Longrightarrow> sy_heap s' = sy_heap s \<and> sy_send_list s' = sy_send_list s"
  using transmit_rest(1,2) [of ctx bytes s] by simp

lemma collected_untouched:
  assumes "heap_ok h" and "collected codes h = Inr h'"
  shows "untouched (fresh h) h h'"
proof -
  have start: "untouched (fresh h) h h" using assms(1) by (simp add: untouched_refl)
  have push: "untouched k h0 h' \<and> data_young k d'"
    if "codes.push_all d rs h = Inr (r, d', h')" "untouched k h0 h" "data_young k d" for rs k h0 h h' d d' r
    using that
  proof (induction rs arbitrary: d h)
    case (Cons q rs)
    from Cons.prems(1) obtain r1 d1 h1 where one: "suback_data_append d q h = Inr (r1, d1, h1)"
      and go: "(if r1 \<noteq> MQTT_SUCCESS then Inr (r1, d1, h1) else codes.push_all d1 rs h1) = Inr (r, d', h')"
      by (auto simp: fbind_eq_Inr)
    from suback_data_append_untouched [OF Cons.prems(2,3) one] go Cons.IH [of d1 h1] show ?case
      by (auto split: if_splits)
  qed simp
  obtain r d1 h1 where i: "suback_data_init (Some \<lparr>sd_qos = NULL, sd_size = 0, sd_capacity = 0\<rparr>) (of_nat (length codes)) h = (r, d1, h1)"
    by (metis prod.collapse)
  with assms(2) obtain r2 d2 where "codes.push_all d1 codes h1 = Inr (r2, d2, h')"
    by (auto simp: collected_def fbind_eq_Inr)
  with suback_data_init_untouched [OF start i] push show ?thesis by blast
qed

locale observer =
  fixes pub :: publish_callback
  assumes observes: "observes pub"
begin

lemma handed_over_keeps:
  assumes "handed_over pub p s = Inr s'"
  shows "sends (trace (sy_os s')) = sends (trace (sy_os s))"
    and "queue (sy_heap s) (sy_send_list s) qs \<Longrightarrow> queue (sy_heap s') (sy_send_list s') qs"
proof -
  from assms observes have *: "sends (trace (sy_os s')) = sends (trace (sy_os s)) \<and> sy_send_list s' = sy_send_list s \<and>
     (\<forall>qs. queue (sy_heap s) (sy_send_list s) qs \<longrightarrow> queue (sy_heap s') (sy_send_list s) qs)"
    unfolding handed_over_def observes_def Let_def by blast
  then show "sends (trace (sy_os s')) = sends (trace (sy_os s))" by blast
  from * show "queue (sy_heap s) (sy_send_list s) qs \<Longrightarrow> queue (sy_heap s') (sy_send_list s') qs" by simp
qed

lemma react_sends:
  assumes "react ctx pub m s = Some (Inr (r, s'))"
  shows "sends (trace (sy_os s')) = sends (trace (sy_os s)) @ map (Pair (deamon_fd ctx)) (reply m)"
proof (cases m)
  case (Publish_Msg p)
  with assms obtain s1 where s1: "handed_over pub p s = Inr s1" and go: "answered ctx p s1 = Some (Inr (r, s'))"
    by (auto simp: obind_eq_Some_Inr simp del: obind.simps)
  show ?thesis
    using go handed_over_keeps(1) [OF s1]
    by (auto simp: Publish_Msg reply_def answered_def obind_eq_Some_Inr simp del: obind.simps
        dest!: sends_transmit taken_out_os split: if_splits prod.splits)
qed (use assms in \<open>auto simp: reply_def fbind_eq_Inr dest!: sends_transmit split: if_splits\<close>)

lemma react_queue:
  assumes "react ctx pub m s = Some (Inr (r, s'))" and "\<not> settling m" and "queue (sy_heap s) (sy_send_list s) qs"
  shows "queue (sy_heap s') (sy_send_list s') qs"
proof (cases m)
  case (Publish_Msg p)
  with assms(1) obtain s1 where s1: "handed_over pub p s = Inr s1" and go: "answered ctx p s1 = Some (Inr (r, s'))"
    by (auto simp: obind_eq_Some_Inr simp del: obind.simps)
  show ?thesis
    using go assms(2) handed_over_keeps(2) [OF s1 assms(3)]
    by (auto simp: Publish_Msg settling_def answered_def dest!: queue_transmit split: if_splits)
next
  case (Suback_Msg i codes)
  with assms(1) obtain h where "collected codes (sy_heap s) = Inr h" "s' = s\<lparr>sy_heap := h\<rparr>"
    by (auto simp: fbind_eq_Inr)
  moreover have "heap_ok (sy_heap s)" using assms(3) by (auto simp: queue_def)
  ultimately show ?thesis using untouched_queue [OF assms(3)] collected_untouched by simp
qed (use assms in \<open>auto dest!: queue_transmit split: if_splits\<close>)

lemma handle_one_keeps:
  assumes "handle_one ctx pub m s = Some (Inr s')"
  shows "sends (trace (sy_os s')) = sends (trace (sy_os s)) @ map (Pair (deamon_fd ctx)) (reply m)"
    and "\<not> settling m \<Longrightarrow> queue (sy_heap s) (sy_send_list s) qs \<Longrightarrow> queue (sy_heap s') (sy_send_list s') qs"
proof -
  from assms obtain r where r: "react ctx pub m (arrived ctx (sm_bytes m) s) = Some (Inr (r, s'))"
    by (auto simp: handle_one_def obind_eq_Some_Inr simp del: obind.simps)
  from react_sends [OF r] show "sends (trace (sy_os s')) = sends (trace (sy_os s)) @ map (Pair (deamon_fd ctx)) (reply m)"
    by (simp add: sends_arrived)
  show "\<not> settling m \<Longrightarrow> queue (sy_heap s) (sy_send_list s) qs \<Longrightarrow> queue (sy_heap s') (sy_send_list s') qs"
    using react_queue [OF r] by (simp add: arrived_state)
qed

lemma converse_sends:
  "converse ctx pub ms s = Some (Inr s') \<Longrightarrow>
   sends (trace (sy_os s')) = sends (trace (sy_os s)) @ map (Pair (deamon_fd ctx)) (concat (map reply ms))"
proof (induction ms arbitrary: s)
  case (Cons m ms)
  then obtain s1 where "handle_one ctx pub m s = Some (Inr s1)" "converse ctx pub ms s1 = Some (Inr s')"
    by (auto simp: obind_eq_Some_Inr simp del: obind.simps)
  with Cons.IH [of s1] handle_one_keeps(1) show ?case by simp
qed simp

lemma converse_queue:
  "converse ctx pub ms s = Some (Inr s') \<Longrightarrow> \<not> list_ex settling ms \<Longrightarrow>
   queue (sy_heap s) (sy_send_list s) qs \<Longrightarrow> queue (sy_heap s') (sy_send_list s') qs"
proof (induction ms arbitrary: s)
  case (Cons m ms)
  then obtain s1 where "handle_one ctx pub m s = Some (Inr s1)" "converse ctx pub ms s1 = Some (Inr s')"
    by (auto simp: obind_eq_Some_Inr simp del: obind.simps)
  with Cons.IH [of s1] Cons.prems handle_one_keeps(2) show ?case by simp
qed simp

end

interpretation default_observer: observer publish_cb_default
  by unfold_locales (rule observes_default)

section \<open>The queue after a conversation\<close>

text \<open>
  What the messages of a server mean for the queue of the client's own packets: each PUBLISH of
  quality of service 1 takes one out; \<open>None\<close> when there is none to take.
\<close>

definition settle :: "server_message \<Rightarrow> packet list \<Rightarrow> packet list option" where
  "settle m qs = (case m of
     Publish_Msg p \<Rightarrow> if pb_qos p = 1 then if qs = [] then None else Some (remove_packet (pb_id p) qs) else Some qs
   | _ \<Rightarrow> Some qs)"

primrec settles :: "server_message list \<Rightarrow> packet list \<Rightarrow> packet list option" where
  "settles [] qs = Some qs"
| "settles (m # ms) qs = Option.bind (settle m qs) (settles ms)"

text \<open>
  A callback that returns when a 0 is behind its arguments and leaves the client's memory and the
  system's answers alone; and a network that takes what the client sends.
\<close>

definition listens :: "publish_callback \<Rightarrow> bool" where
  "listens pub \<longleftrightarrow> (\<forall>t n p k s. 0 \<in> set t \<longrightarrow> 0 \<in> set p \<longrightarrow>
     (\<exists>s'. pub t n p k s = Inr s' \<and> int_reply (sy_os s') = int_reply (sy_os s) \<and>
       sy_send_list s' = sy_send_list s \<and> sy_heap s' = sy_heap s))"

definition accepting :: "deamon_context_t \<Rightarrow> sys \<Rightarrow> bool" where
  "accepting ctx s \<longleftrightarrow> (\<forall>bytes t. \<exists>v. int_reply (sy_os s) (Send (deamon_fd ctx) bytes # t) = Inr v \<and> v \<noteq> -1)"

lemma transmit_accepted:
  assumes "accepting ctx s"
  obtains s' where "transmit ctx bytes s = (MQTT_SUCCESS, s')" and "accepting ctx s'"
    and "sy_heap s' = sy_heap s" and "sy_send_list s' = sy_send_list s"
proof -
  obtain v where v: "int_reply (sy_os s) (Send (deamon_fd ctx) bytes # trace (sy_os s)) = Inr v" "v \<noteq> -1"
    using assms unfolding accepting_def by blast
  from call_int_Inr [OF v(1)] v(2)
  have "transmit ctx bytes s = (MQTT_SUCCESS, s\<lparr>sy_os := (sy_os s)\<lparr>trace := Send (deamon_fd ctx) bytes # trace (sy_os s)\<rparr>\<rparr>)"
    by (simp add: transmit_def deamon_fd_def)
  then show thesis by (rule that) (use assms in \<open>simp_all add: accepting_def\<close>)
qed

lemma taken_out_queue:
  assumes "queue (sy_heap s) (sy_send_list s) qs"
  shows "if qs = [] then taken_out i s = Some (Inl Null_Deref)
     else \<exists>s'. taken_out i s = Some (Inr s') \<and> sy_os s' = sy_os s \<and> queue (sy_heap s') (sy_send_list s') (remove_packet i qs)"
proof (cases "qs = []")
  case True
  with assms have "sy_send_list s = NULL" by (auto simp: queue_def send_list_def)
  with True show ?thesis by (simp add: taken_out_def)
next
  case False
  then have "sy_send_list s \<noteq> NULL" using assms by (auto simp: queue_def)
  with message_send_remove_ok [OF assms False, of i] False show ?thesis by (auto simp: taken_out_def)
qed

locale listener =
  fixes pub :: publish_callback
  assumes listens: "listens pub"
begin

lemma handed_over_returns:
  assumes "length (sm_bytes (Publish_Msg p)) < 1024" and "accepting ctx s"
  obtains s' where "handed_over pub p s = Inr s'" and "accepting ctx s'"
    and "sy_heap s' = sy_heap s" and "sy_send_list s' = sy_send_list s"
proof -
  let ?z = "replicate (BUFFER_SIZE - length (sm_bytes (Publish_Msg p))) 0 :: u8 list"
  let ?t = "pb_topic p @ (if pb_qos p = 0 then [] else be16 (pb_id p)) @ pb_payload p @ ?z" and ?p = "pb_payload p @ ?z"
  have "0 \<in> set ?z" using assms(1) by (simp add: in_set_replicate)
  then have "0 \<in> set ?t" "0 \<in> set ?p" by simp_all
  then obtain s' where s': "pub ?t (of_nat (length (pb_topic p))) ?p (of_nat (length (pb_payload p))) s = Inr s'"
    "int_reply (sy_os s') = int_reply (sy_os s)" "sy_send_list s' = sy_send_list s" "sy_heap s' = sy_heap s"
    using listens unfolding listens_def by blast
  show thesis by (rule that [of s']) (use s' assms(2) in \<open>simp_all add: handed_over_def accepting_def Let_def\<close>)
qed

lemma answered_queue:
  assumes "accepting ctx s" and q: "queue (sy_heap s) (sy_send_list s) qs"
  shows "case settle (Publish_Msg p) qs of None \<Rightarrow> answered ctx p s = Some (Inl Null_Deref)
     | Some qs' \<Rightarrow> \<exists>r s'. answered ctx p s = Some (Inr (r, s')) \<and> accepting ctx s' \<and> queue (sy_heap s') (sy_send_list s') qs'"
proof (cases "pb_qos p = 1")
  case True
  obtain s1 where t: "transmit ctx (frame 0x40 (be16 (pb_id p))) s = (MQTT_SUCCESS, s1)" "accepting ctx s1"
    "sy_heap s1 = sy_heap s" "sy_send_list s1 = sy_send_list s"
    by (rule transmit_accepted [OF assms(1)])
  then have "queue (sy_heap s1) (sy_send_list s1) qs" using q by simp
  from taken_out_queue [OF this, of "pb_id p"] t(1,2) True show ?thesis
    by (cases "qs = []") (auto simp: settle_def answered_def accepting_def)
next
  case False
  obtain s1 where "transmit ctx (frame 0x50 (be16 (pb_id p))) s = (MQTT_SUCCESS, s1)" "accepting ctx s1"
    "sy_heap s1 = sy_heap s" "sy_send_list s1 = sy_send_list s"
    by (rule transmit_accepted [OF assms(1)])
  with False assms show ?thesis by (simp add: settle_def answered_def)
qed

lemma handle_one_settle:
  assumes ok: "sm_ok m" "length (sm_bytes m) < 1024" and "memory_for m (sy_heap s)" and "accepting ctx s"
    and q: "queue (sy_heap s) (sy_send_list s) qs"
  shows "case settle m qs of None \<Rightarrow> handle_one ctx pub m s = Some (Inl Null_Deref)
     | Some qs' \<Rightarrow> \<exists>s'. handle_one ctx pub m s = Some (Inr s') \<and> accepting ctx s' \<and> queue (sy_heap s') (sy_send_list s') qs'"
proof -
  let ?s = "arrived ctx (sm_bytes m) s"
  have s: "accepting ctx ?s" "queue (sy_heap ?s) (sy_send_list ?s) qs" "memory_for m (sy_heap ?s)"
    using assms(3,4) q by (simp_all add: arrived_state) (simp add: accepting_def arrived_def heard_def Let_def)
  have other: ?thesis if "settle m qs = Some qs" "react ctx pub m ?s = Some (Inr (r, s'))" "accepting ctx s'"
    "queue (sy_heap s') (sy_send_list s') qs" for r s'
    using that by (simp add: handle_one_def)
  show ?thesis
  proof (cases m)
    case (Publish_Msg p)
    then obtain s1 where s1: "handed_over pub p ?s = Inr s1" "accepting ctx s1"
      "sy_heap s1 = sy_heap ?s" "sy_send_list s1 = sy_send_list ?s"
      using handed_over_returns [of p ctx ?s] ok(2) s(1) by auto
    with answered_queue [OF s1(2), of qs p] s(2) show ?thesis
      by (auto simp: Publish_Msg handle_one_def split: option.splits)
  next
    case (Ack_Msg k i)
    obtain s1 where "transmit ctx (frame 0x60 (be16 i)) ?s = (MQTT_SUCCESS, s1)" "accepting ctx s1"
      "sy_heap s1 = sy_heap ?s" "sy_send_list s1 = sy_send_list ?s"
      by (rule transmit_accepted [OF s(1)])
    with s show ?thesis by (cases "k = Pubrec") (simp_all add: Ack_Msg settle_def handle_one_def)
  next
    case (Suback_Msg i codes)
    then obtain h where h: "collected codes (sy_heap ?s) = Inr h"
      using suback_msg_process_react [of i codes ?s] ok(1) s(3) by blast
    moreover have "heap_ok (sy_heap ?s)" using s(2) by (auto simp: queue_def)
    ultimately have "queue h (sy_send_list ?s) qs" using untouched_queue [OF s(2)] collected_untouched by blast
    with h s(1) show ?thesis
      using other [of MQTT_SUCCESS "?s\<lparr>sy_heap := h\<rparr>"] by (simp add: Suback_Msg settle_def accepting_def)
  qed (use s other in \<open>auto simp: settle_def\<close>)
qed

lemma converse_settles:
  "stream ctx pub ms s \<Longrightarrow> list_all (\<lambda>m. sm_ok m \<and> length (sm_bytes m) < 1024) ms \<Longrightarrow> accepting ctx s \<Longrightarrow>
   queue (sy_heap s) (sy_send_list s) qs \<Longrightarrow>
   case settles ms qs of None \<Rightarrow> converse ctx pub ms s = Some (Inl Null_Deref)
   | Some qs' \<Rightarrow> \<exists>s'. converse ctx pub ms s = Some (Inr s') \<and> queue (sy_heap s') (sy_send_list s') qs'"
proof (induction ms arbitrary: s qs)
  case (Cons m ms)
  have one: "case settle m qs of None \<Rightarrow> handle_one ctx pub m s = Some (Inl Null_Deref)
     | Some qs' \<Rightarrow> \<exists>s'. handle_one ctx pub m s = Some (Inr s') \<and> accepting ctx s' \<and> queue (sy_heap s') (sy_send_list s') qs'"
    by (rule handle_one_settle) (use Cons.prems in simp_all)
  show ?case
  proof (cases "settle m qs")
    case (Some qs1)
    with one obtain s1 where "handle_one ctx pub m s = Some (Inr s1)" "accepting ctx s1" "queue (sy_heap s1) (sy_send_list s1) qs1"
      by auto
    with Cons.IH [of s1 qs1] Cons.prems Some show ?thesis by (cases "settles ms qs1") simp_all
  qed (use one in simp)
qed simp

end

lemma listens_default: "listens publish_cb_default"
  by (simp add: listens_def publish_cb_default_def c_string_def)

interpretation default_listener: listener publish_cb_default
  by unfold_locales (rule listens_default)

section \<open>An example\<close>

text \<open>A server that sends a message of quality of service 2, releases it, and answers twice.\<close>

definition example_context :: deamon_context_t where
  "example_context = \<lparr>dc_client = \<lparr>mc_state = MQTT_CLIENT_STATE_CONNECTED, mc_conn = \<lparr>socket_fd = 3\<rparr>, mc_keep_alive = 60,
      mc_timeout_sec = 5, mc_client_id = NULL, mc_client_id_len = 0, mc_sp = 0, mc_packet_id_next = 1\<rparr>,
      dc_sock_fd = 3, dc_timer_fd = 4, dc_epoll_fd = 5\<rparr>"

definition example_publication :: publication where
  "example_publication = \<lparr>pb_dup = False, pb_qos = 2, pb_retain = False, pb_topic = [116], pb_id = 7, pb_payload = [72, 105]\<rparr>"

definition example_messages :: "server_message list" where
  "example_messages = [Publish_Msg example_publication, Ack_Msg Pubrel 7, Suback_Msg 9 [1], Pingresp_Msg]"

definition example_server :: sys where
  "example_server = \<lparr>sy_heap = \<lparr>cells = [], fresh = 0, oom = \<lambda>_. False, junk = \<lambda>_. 0\<rparr>,
      sy_os = \<lparr>trace = [], errno = 0, int_reply = \<lambda>_. Inr 4,
        recv_reply = \<lambda>t. Inr ([[0x34, 7, 0, 1, 116], [0, 7, 72, 105], [], [0x60, 2, 0, 7], [0x90, 3, 0, 9, 1], [0xD0, 0]] ! (length t - 1)),
        wait_reply = \<lambda>_. Inr []\<rparr>, sy_keep_alive_timestamp = 0, sy_send_list = NULL, sy_buffer = []\<rparr>"

lemma example_bytes:
  "sm_bytes (Publish_Msg example_publication) = [0x34, 7, 0, 1, 116, 0, 7, 72, 105]"
  "sm_bytes (Ack_Msg Pubrel 7) = [0x60, 2, 0, 7]" "sm_bytes (Suback_Msg 9 [1]) = [0x90, 3, 0, 9, 1]"
  "sm_bytes Pingresp_Msg = [0xD0, 0]"
  by (simp_all add: sm_bytes_def pb_header_def pb_body_def example_publication_def publish_flags_def publish_body_def frame_def
      field_def be16_def varint_small)

lemma example_messages_ok: "list_all sm_ok example_messages"
  by (simp add: example_messages_def sm_ok_def example_bytes) (simp add: example_publication_def legal_code_def)

lemma example_stream:
  "stream example_context publish_cb_default example_messages example_server \<and>
   (\<exists>s'. converse example_context publish_cb_default example_messages example_server = Some (Inr s'))"
proof -
  note data = example_context_def example_server_def deamon_fd_def
  have fd: "deamon_fd example_context = 3" "socket_fd (mc_conn (dc_client example_context)) = 3" by (simp_all add: data)
  have over: "handed_over publish_cb_default example_publication s = Inr s" for s
    by (simp add: handed_over_def publish_cb_default_def c_string_def Let_def example_bytes)
  let ?s1 = "heard [0x34, 7, 0, 1, 116, 0, 7, 72, 105] [Send 3 (frame 0x50 (be16 7)), Recv 3 4, Recv 3 5] example_server"
  let ?s2 = "heard [0x60, 2, 0, 7] [Recv 3 5] ?s1" and ?s3 = "heard [0x90, 3, 0, 9, 1] [Recv 3 5] (heard [0x60, 2, 0, 7] [Recv 3 5] ?s1)"
  have 1: "handle_one example_context publish_cb_default (Publish_Msg example_publication) example_server = Some (Inr ?s1)"
    by (simp add: handle_one_def over answered_def example_bytes arrived_def heard_def fd transmit_def)
      (simp add: example_publication_def example_server_def call_int_def)
  have 2: "handle_one example_context publish_cb_default (Ack_Msg Pubrel 7) ?s1 = Some (Inr ?s2)"
    by (simp add: handle_one_def example_bytes arrived_def fd Let_def)
  have mem: "memory_for (Suback_Msg 9 [1]) (sy_heap ?s3)"
    by (simp add: heard_def example_server_def heap_ok_def live_def)
  obtain h where "collected [1] (sy_heap ?s3) = Inr h"
    using suback_msg_process_react [OF _ mem] example_messages_ok by (auto simp: example_messages_def)
  then have 3: "handle_one example_context publish_cb_default (Suback_Msg 9 [1]) ?s2 = Some (Inr (?s3\<lparr>sy_heap := h\<rparr>))"
    by (simp add: handle_one_def example_bytes arrived_def fd Let_def)
  obtain s4 where 4: "handle_one example_context publish_cb_default Pingresp_Msg (?s3\<lparr>sy_heap := h\<rparr>) = Some (Inr s4)"
    by (simp add: handle_one_def)
  have comes: "comes example_context (sm_bytes (Publish_Msg example_publication)) example_server"
    "comes example_context (sm_bytes (Ack_Msg Pubrel 7)) ?s1" "comes example_context (sm_bytes (Suback_Msg 9 [1])) ?s2"
    "comes example_context (sm_bytes Pingresp_Msg) (?s3\<lparr>sy_heap := h\<rparr>)"
    by (simp_all add: comes_def answers_def example_bytes fd heard_def) (simp_all add: example_server_def)
  have "memory_for (Suback_Msg 9 [1]) (sy_heap ?s2)"
    by (simp add: heard_def example_server_def heap_ok_def live_def)
  with comes show ?thesis by (simp add: example_messages_def 1 2 3 4)
qed

section \<open>Properties\<close>

text \<open>
  C1. The client treats the messages of a server in order and completely. Let the network bring
  messages of the standard of at most 1024 bytes (PUBLISH with a topic of at least one byte, the
  five acknowledgements, SUBACK, PINGRESP, and anything of a type that the client ignores) one
  after the other and in the pieces the handler asks for, and let no allocation fail when a SUBACK
  arrives. Then the handler does exactly what \<open>converse\<close> says of the list of messages, whatever
  the callback does: each PUBLISH is handed to the callback once, with its topic and payload, and
  answered with the PUBACK or PUBREC of its quality of service; when a PUBACK was sent, the packet
  with its identifier is taken out of the client's own list, and if that list is empty the handler
  ends there, reading through \<^verbatim>\<open>NULL\<close>; each PUBREC is answered; the codes of each SUBACK
  are collected in a new array; other messages are only received. If the callback faults, so does
  the handler. Otherwise it goes on after the last message from
  the state reached.
\<close>

theorem deamon_delivers_stream:
  assumes "stream ctx pub ms s" and "list_all sm_ok ms" and "publish_cb cb = Some pub"
  shows "process_socket_event ctx cb s = obind (converse ctx pub ms s) (process_socket_event ctx cb)"
  using assms by (rule process_socket_event_converse)

theorem deamon_delivers_stream_witness:
  "process_socket_event example_context callbacks_default example_server =
     obind (converse example_context publish_cb_default example_messages example_server)
       (process_socket_event example_context callbacks_default)"
  by (rule deamon_delivers_stream)
    (use example_stream in \<open>simp_all add: example_messages_ok callbacks_default_def\<close>)

text \<open>
  C4. What goes out is determined by what comes in. While the handler works on a sequence of
  messages with a callback that sends nothing, the client sends exactly the replies to these
  messages, in their order and on the connection: a PUBACK for each PUBLISH of quality of service
  1, a PUBREC for each of quality of service 2, a PUBREL for each PUBREC, each with the identifier
  of the message it answers, and nothing else. In particular a PUBREL is never answered, so the
  exchange of a message of quality of service 2 is not completed, and nothing is answered twice.
\<close>

theorem deamon_replies_in_order:
  assumes "stream ctx pub ms s" and "list_all sm_ok ms" and "publish_cb cb = Some pub" and "observes pub"
    and "converse ctx pub ms s = Some (Inr s')"
  shows "process_socket_event ctx cb s = process_socket_event ctx cb s' \<and>
     sends (trace (sy_os s')) = sends (trace (sy_os s)) @ map (Pair (deamon_fd ctx)) (concat (map reply ms)) \<and>
     (\<forall>i. frame 0x70 (be16 i) \<notin> set (concat (map reply ms)))"
proof (intro conjI allI)
  show "process_socket_event ctx cb s = process_socket_event ctx cb s'"
    using process_socket_event_converse [OF assms(1-3)] assms(5) by simp
  show "sends (trace (sy_os s')) = sends (trace (sy_os s)) @ map (Pair (deamon_fd ctx)) (concat (map reply ms))"
    by (rule observer.converse_sends [OF observer.intro [OF assms(4)] assms(5)])
  show "frame 0x70 (be16 i) \<notin> set (concat (map reply ms))" for i
    by (auto simp: reply_def frame_def split: server_message.splits if_splits)
qed

theorem deamon_replies_in_order_witness:
  "\<exists>s'. process_socket_event example_context callbacks_default example_server =
       process_socket_event example_context callbacks_default s' \<and>
     sends (trace (sy_os s')) = sends (trace (sy_os example_server)) @
       map (Pair (deamon_fd example_context)) (concat (map reply example_messages)) \<and>
     (\<forall>i. frame 0x70 (be16 i) \<notin> set (concat (map reply example_messages)))"
proof -
  obtain s' where "converse example_context publish_cb_default example_messages example_server = Some (Inr s')"
    using example_stream by blast
  from deamon_replies_in_order [OF _ example_messages_ok _ observes_default this, of callbacks_default] example_stream
  show ?thesis by (intro exI [of _ s']) (simp only: callbacks_default_def callbacks.simps simp_thms)
qed

text \<open>
  A client that waits for the acknowledgement of its packet 9, and a server that sends a message
  of quality of service 1 under the same number.
\<close>

definition example_number :: publication where
  "example_number = \<lparr>pb_dup = False, pb_qos = 1, pb_retain = False, pb_topic = [116], pb_id = 9, pb_payload = []\<rparr>"

definition example_waiting :: sys where
  "example_waiting = example_server\<lparr>sy_heap := \<lparr>cells = [(0, Msg \<lparr>ms_packet_id = 9, ms_message = Addr 1, ms_len = 1, ms_qos = 1,
      ms_timestamp = 0, ms_next = NULL\<rparr>), (1, Bytes [8])], fresh = 2, oom = \<lambda>_. False, junk = \<lambda>_. 0\<rparr>, sy_send_list := Addr 0,
      sy_os := (sy_os example_server)\<lparr>recv_reply := \<lambda>t. if length t = 1 then Inr [0x32, 5, 0, 1, 116] else Inr [0, 9]\<rparr>\<rparr>"

text \<open>
  C13. The server's messages settle the client's packets. In a conversation as in C1 with messages
  of less than 1024 bytes, over a network that takes what the client sends and with a callback
  that returns and leaves the client's memory alone, as the default one does: each PUBLISH of quality of
  service 1 takes the first packet with the identifier that the server chose for it out of the
  queue of packets the client itself waits for, although it acknowledges none of them; nothing
  else does, the acknowledgements of the server included. The handler goes on with that queue,
  or, when such a PUBLISH finds the queue empty, reads through \<^verbatim>\<open>NULL\<close>.
\<close>

theorem deamon_settles_own_queue:
  assumes "stream ctx pub ms s" and "list_all (\<lambda>m. sm_ok m \<and> length (sm_bytes m) < 1024) ms" and "publish_cb cb = Some pub"
    and "listens pub" and "accepting ctx s" and "queue (sy_heap s) (sy_send_list s) qs"
  shows "case settles ms qs of
       None \<Rightarrow> process_socket_event ctx cb s = Some (Inl Null_Deref)
     | Some qs' \<Rightarrow> \<exists>s'. converse ctx pub ms s = Some (Inr s') \<and> queue (sy_heap s') (sy_send_list s') qs' \<and>
         process_socket_event ctx cb s = process_socket_event ctx cb s'"
proof -
  have "list_all sm_ok ms" using assms(2) by (simp add: list_all_iff)
  from process_socket_event_converse [OF assms(1) this assms(3)]
    listener.converse_settles [OF listener.intro [OF assms(4)] assms(1,2,5,6)]
  show ?thesis by (auto split: option.splits)
qed

theorem deamon_settles_own_queue_witness:
  "\<exists>s'. converse example_context publish_cb_default [Publish_Msg example_number] example_waiting = Some (Inr s') \<and>
     queue (sy_heap s') (sy_send_list s') [] \<and>
     process_socket_event example_context callbacks_default example_waiting = process_socket_event example_context callbacks_default s'"
proof -
  let ?m = "Publish_Msg example_number"
  have bytes: "sm_bytes ?m = [0x32, 5, 0, 1, 116, 0, 9]"
    by (simp add: sm_bytes_def pb_header_def pb_body_def example_number_def publish_flags_def publish_body_def frame_def
        field_def be16_def varint_small)
  then have ok: "list_all (\<lambda>m. sm_ok m \<and> length (sm_bytes m) < 1024) [?m]" by (simp add: sm_ok_def) (simp add: example_number_def)
  have "comes example_context (sm_bytes ?m) example_waiting"
    by (simp add: comes_def answers_def bytes) (simp add: example_waiting_def example_server_def)
  then have stream: "stream example_context publish_cb_default [?m] example_waiting" by (simp split: option.splits sum.splits)
  have acc: "accepting example_context example_waiting" by (simp add: accepting_def example_waiting_def example_server_def)
  have "send_list (sy_heap example_waiting) (sy_send_list example_waiting) [0] [(9, [8], 1)]"
    by (simp add: example_waiting_def send_list_Cons holds_def load_bytes_def load_Addr)
  then have "queue (sy_heap example_waiting) (sy_send_list example_waiting) [(9, [8], 1)]"
    by (auto simp: queue_def example_waiting_def heap_ok_def live_def)
  from deamon_settles_own_queue [OF stream ok _ listens_default acc this, of callbacks_default] show ?thesis
    by (simp add: callbacks_default_def settle_def example_number_def del: converse.simps)
qed

end
