(* ===== verification/Subscription_Timeout.thy ===== *)
theory Subscription_Timeout
  imports Server_Stream Client_Deamon
begin

text \<open>
  A subscription from the call of the application (client.c) over the messages of the server
  (client_message_process.c) to the next timer event (client_deamon.c).
\<close>

section \<open>A timer event after the messages of a server\<close>


section \<open>An example\<close>





section \<open>Properties\<close>



end
