(* ===== verification/Client_Invariant.thy ===== *)
theory Client_Invariant
  imports Client_Deamon Heap_Frame
begin

text \<open>
  The invariant of the state the client's parts share, and that each operation that runs while a
  session is open keeps it on all its paths, whatever memory and network do: the handlers of the
  deamon with everything they call, and a subscription.
\<close>

section \<open>The invariant of the shared state\<close>

text \<open>
  \<open>sys_ok K d s\<close>: the lock is taken \<open>d\<close> times, the receive buffer has its size, the blocks \<open>K\<close> of
  somebody else are as they were, and the list is a queue of messages each of which was handed to
  the network, with an identifier other than 0.
\<close>

definition was_sent :: "sys \<Rightarrow> packet \<Rightarrow> bool" where
  "was_sent s q \<longleftrightarrow> fst q \<noteq> 0 \<and> (\<exists>fd. Send fd (fst (snd q)) \<in> set (trace (sy_os s)))"

definition keeps_blocks :: "(nat \<rightharpoonup> u8 list) \<Rightarrow> heap \<Rightarrow> bool" where
  "keeps_blocks K h \<longleftrightarrow> (\<forall>a bs. K a = Some bs \<longrightarrow> map_of (cells h) a = Some (Bytes bs))"

definition sys_ok :: "(nat \<rightharpoonup> u8 list) \<Rightarrow> int \<Rightarrow> sys \<Rightarrow> bool" where
  "sys_ok K d s \<longleftrightarrow> depth s = d \<and> length (sy_buffer s) = BUFFER_SIZE \<and> keeps_blocks K (sy_heap s) \<and> (\<exists>qs. queue (sy_heap s) (sy_send_list s) qs \<and> list_all (was_sent s) qs)"

lemma keeps_blocks_bytes: "keeps_blocks K h \<Longrightarrow> keeps_bytes h h' \<Longrightarrow> keeps_blocks K h'"
  by (auto simp: keeps_blocks_def keeps_bytes_def)

lemma keeps_blocks_untouched:
  assumes "keeps_blocks K h" and "heap_ok h" and "untouched (fresh h) h h'"
  shows "keeps_blocks K h'"
proof -
  have "a < fresh h" if "map_of (cells h) a = Some b" for a b
    using assms(2) that live_iff [of a h] by (auto simp: heap_ok_def)
  then show ?thesis using assms(1,3) unfolding keeps_blocks_def untouched_def by simp
qed

lemma was_sent_more: "was_sent s q \<Longrightarrow> set (trace (sy_os s)) \<subseteq> set (trace (sy_os s')) \<Longrightarrow> was_sent s' q"
  by (auto simp: was_sent_def)

lemma sys_ok_untouched:
  assumes "sys_ok K d s" and "untouched (fresh (sy_heap s)) (sy_heap s) (sy_heap s')" and "sy_send_list s' = sy_send_list s"
    and "set (trace (sy_os s)) \<subseteq> set (trace (sy_os s'))" and "depth s' = e" and "length (sy_buffer s') = length (sy_buffer s)"
  shows "sys_ok K e s'"
proof -
  from assms(1) obtain qs where q: "queue (sy_heap s) (sy_send_list s) qs" "list_all (was_sent s) qs"
    by (auto simp: sys_ok_def)
  have "list_all (was_sent s') qs" using q(2) was_sent_more [OF _ assms(4)] by (simp add: list_all_iff)
  moreover have "keeps_blocks K (sy_heap s')"
    using assms(1) q(1) keeps_blocks_untouched [OF _ _ assms(2)] by (auto simp: sys_ok_def queue_def)
  ultimately show ?thesis using untouched_queue [OF q(1) assms(2)] assms(1,3,5,6) by (auto simp: sys_ok_def)
qed

lemma sys_ok_heap: "sys_ok K d s \<Longrightarrow> untouched (fresh (sy_heap s)) (sy_heap s) (sy_heap s)"
  by (auto simp: sys_ok_def queue_def untouched_def)

text \<open>System calls that leave the lock alone.\<close>

definition lock_free_calls :: "os \<Rightarrow> os \<Rightarrow> bool" where
  "lock_free_calls w w' \<longleftrightarrow> set (trace w) \<subseteq> set (trace w') \<and> lock_depth (trace w') = lock_depth (trace w)"

lemma lock_free_calls_refl: "lock_free_calls w w"
  by (simp add: lock_free_calls_def)

lemma lock_free_calls_trans: "lock_free_calls w w' \<Longrightarrow> lock_free_calls w' w'' \<Longrightarrow> lock_free_calls w w''"
  by (auto simp: lock_free_calls_def)

lemma lock_free_calls_cons:
  "trace w' = c # trace w \<Longrightarrow> lock_depth [c] = 0 \<Longrightarrow> lock_free_calls w w'"
  by (cases c) (auto simp: lock_free_calls_def)

lemma lock_free_call_int: "call_int c w = (r, w') \<Longrightarrow> lock_depth [c] = 0 \<Longrightarrow> lock_free_calls w w'"
  using call_int_trace [of c w] by (intro lock_free_calls_cons [of w' c]) simp_all

text \<open>
  \<open>aside s0 s\<close>: what happened from \<open>s0\<close> to \<open>s\<close> worked on new blocks only and left the list and
  the lock alone.
\<close>

definition aside :: "sys \<Rightarrow> sys \<Rightarrow> bool" where
  "aside s0 s \<longleftrightarrow> untouched (fresh (sy_heap s0)) (sy_heap s0) (sy_heap s) \<and> sy_send_list s = sy_send_list s0 \<and>
     length (sy_buffer s) = length (sy_buffer s0) \<and> lock_free_calls (sy_os s0) (sy_os s)"

lemma aside_sys_ok: "sys_ok K d s0 \<Longrightarrow> aside s0 s \<Longrightarrow> sys_ok K d s"
  by (rule sys_ok_untouched [of K d s0]) (auto simp: aside_def lock_free_calls_def sys_ok_def)

lemma aside_heap:
  "aside s0 s \<Longrightarrow> untouched (fresh (sy_heap s0)) (sy_heap s0) h \<Longrightarrow> aside s0 (s\<lparr>sy_heap := h\<rparr>)"
  by (simp add: aside_def)

lemma aside_os: "aside s0 s \<Longrightarrow> lock_free_calls (sy_os s) w \<Longrightarrow> aside s0 (s\<lparr>sy_os := w\<rparr>)"
  by (auto simp: aside_def intro: lock_free_calls_trans)

text \<open>The callbacks of the application leave the client's memory and the lock alone.\<close>

definition callbacks_good :: "callbacks \<Rightarrow> bool" where
  "callbacks_good cb \<longleftrightarrow>
     (\<forall>f a b c e s s'. publish_cb cb = Some f \<longrightarrow> heap_ok (sy_heap s) \<longrightarrow> f a b c e s = Inr s' \<longrightarrow> aside s s') \<and>
     (\<forall>f p s s'. timeout_cb cb = Some f \<longrightarrow> heap_ok (sy_heap s) \<longrightarrow> f p s = Inr s' \<longrightarrow> aside s s')"

lemma callbacks_default_good: "callbacks_good callbacks_default"
  by (auto simp: callbacks_good_def callbacks_default_def publish_cb_default_def timeout_cb_default_def fbind_eq_Inr
      aside_def untouched_refl lock_free_calls_refl)

locale application =
  fixes cb :: callbacks
  assumes good: "callbacks_good cb"
begin

lemma publish_cb_ok:
  "sys_ok K d s \<Longrightarrow> publish_cb cb = Some f \<Longrightarrow> f a b c e s = Inr s' \<Longrightarrow> sys_ok K d s'"
  using good aside_sys_ok [of K d s s'] unfolding callbacks_good_def by (auto simp: sys_ok_def queue_def)

lemma timeout_cb_ok: "sys_ok K d s \<Longrightarrow> timeout_cb cb = Some f \<Longrightarrow> f p s = Inr s' \<Longrightarrow> sys_ok K d s'"
  using good aside_sys_ok [of K d s s'] unfolding callbacks_good_def by (auto simp: sys_ok_def queue_def)

end

interpretation default_app: application callbacks_default
  by unfold_locales (rule callbacks_default_good)

text \<open>A step that makes system calls only.\<close>

lemma sys_ok_calls:
  assumes "sys_ok K d s" and "sy_heap s' = sy_heap s" and "sy_send_list s' = sy_send_list s"
    and "trace (sy_os s') = calls @ trace (sy_os s)" and "depth s' = e" and "length (sy_buffer s') = length (sy_buffer s)"
  shows "sys_ok K e s'"
  by (rule sys_ok_untouched [OF assms(1)]) (use assms sys_ok_heap [OF assms(1)] in auto)

lemma sys_ok_transmit: "sys_ok K d s \<Longrightarrow> sys_ok K d (snd (transmit ctx bytes s))"
  by (rule sys_ok_calls [where calls = "[Send (socket_fd (mc_conn (dc_client ctx))) bytes]"])
    (auto simp: transmit_trace transmit_rest sys_ok_def)

lemma set_remove_packet: "set (remove_packet i qs) \<subseteq> set qs"
  by (induction qs) auto

lemma sys_ok_remove:
  assumes "sys_ok K d s" and "message_send_remove (Some (sy_send_list s)) i (sy_heap s) = Some (Inr (r, list, h))"
  shows "sys_ok K d (s\<lparr>sy_send_list := the list, sy_heap := h\<rparr>)"
proof -
  from assms(1) obtain qs where q: "queue (sy_heap s) (sy_send_list s) qs" "list_all (was_sent s) qs" "depth s = d"
    and K: "keeps_blocks K (sy_heap s)" and buf: "length (sy_buffer s) = BUFFER_SIZE" by (auto simp: sys_ok_def)
  have "qs \<noteq> []"
  proof
    assume "qs = []"
    with q(1) have "sy_send_list s = NULL" by (auto simp: queue_def send_list_def)
    with assms(2) show False by (simp add: message_send_remove_def load_NULL)
  qed
  from message_send_remove_ok [OF q(1) this, of i] assms(2)
  have "queue h (the list) (remove_packet i qs)" "keeps_bytes (sy_heap s) h" by auto
  moreover have "list_all (was_sent s) (remove_packet i qs)"
    using q(2) set_remove_packet [of i qs] by (auto simp: list_all_iff)
  moreover have "was_sent (s\<lparr>sy_send_list := the list, sy_heap := h\<rparr>) = was_sent s" by (auto simp: was_sent_def)
  ultimately show ?thesis using q(3) buf keeps_blocks_bytes [OF K] by (auto simp: sys_ok_def)
qed

section \<open>The handlers keep the invariant\<close>

lemma puback_msg_sent_ok: "sys_ok K d s \<Longrightarrow> puback_msg_sent ctx i s = Some (Inr (r, s')) \<Longrightarrow> sys_ok K d s'"
proof -
  assume ok: "sys_ok K d s" and run: "puback_msg_sent ctx i s = Some (Inr (r, s'))"
  obtain q t where t: "transmit ctx (ack_bytes 0x40 i) s = (q, t)" by fastforce
  have t_ok: "sys_ok K d t" using sys_ok_transmit [OF ok, of ctx "ack_bytes 0x40 i"] t by simp
  have same: "sy_heap t = sy_heap s" "sy_send_list t = sy_send_list s"
    using transmit_rest(1,2) [of ctx "ack_bytes 0x40 i" s] t by simp_all
  show "sys_ok K d s'"
  proof (cases "q = MQTT_SUCCESS")
    case True
    with run t obtain r' l h where "message_send_remove (Some (sy_send_list t)) i (sy_heap t) = Some (Inr (r', l, h))"
      "s' = t\<lparr>sy_send_list := the l, sy_heap := h\<rparr>"
      unfolding puback_msg_sent_eq same by (auto simp: obind_eq_Some_Inr simp del: obind.simps)
    with sys_ok_remove [OF t_ok] show ?thesis by blast
  qed (use run t t_ok in \<open>simp add: puback_msg_sent_eq\<close>)
qed

lemma transmitted_ok: "sys_ok K d s \<Longrightarrow> transmit ctx bytes s = (r, s') \<Longrightarrow> sys_ok K d s'"
  using sys_ok_transmit [of K d s ctx bytes] by simp

context application
begin

lemma publish_msg_process_ok:
  assumes "sys_ok K d s" and "publish_msg_process ctx m n (publish_cb cb) s = Some (Inr (r, s'))"
  shows "sys_ok K d s'"
proof -
  let ?called = "\<lambda>out. case publish_cb cb of None \<Rightarrow> Inr s
     | Some f \<Rightarrow> fbind (deref (pub_topic out)) (\<lambda>topic. fbind (deref (pub_payload out)) (\<lambda>payload.
          f topic (pub_topic_len out) payload (ucast (pub_payload_len out)) s))"
  let ?answer = "\<lambda>(out :: publish_out) s1. if pub_qos out = MQTT_QOS_1 then puback_msg_sent ctx (pub_packet_id out) s1
     else if pub_qos out = MQTT_QOS_2 then Some (pubrec_msg_sent ctx (pub_packet_id out) s1)
     else Some (Inr (MQTT_SUCCESS, s1))"
  obtain q b where p: "publish_message_parse (Some m) n (Some no_publish) = Inr (q, b)"
    using assms(2) by (auto simp: publish_msg_process_def obind_eq_Some_Inr simp del: obind.simps)
  show ?thesis
  proof (cases "q = MQTT_SUCCESS")
    case False
    with assms(1,2) p show ?thesis by (simp add: publish_msg_process_def)
  next
    case True
    then have run: "obind (Some (deref b)) (\<lambda>out. obind (Some (?called out)) (?answer out)) = Some (Inr (r, s'))"
      using assms(2) p by (simp add: publish_msg_process_def)
    then obtain out s1 where cb: "?called out = Inr s1" and go: "?answer out s1 = Some (Inr (r, s'))"
      unfolding obind_eq_Some_Inr by auto
    have "sys_ok K d s1"
    proof (cases "publish_cb cb")
      case None
      with cb assms(1) show ?thesis by simp
    next
      case (Some f)
      with cb obtain topic payload where "f topic (pub_topic_len out) payload (ucast (pub_payload_len out)) s = Inr s1"
        by (auto simp: fbind_eq_Inr)
      with publish_cb_ok [OF assms(1) Some] show ?thesis by blast
    qed
    with go show ?thesis by (auto simp: acks_sent intro: puback_msg_sent_ok transmitted_ok split: if_splits)
  qed
qed

end

context application
begin

lemma dispatch_message_ok:
  assumes "sys_ok K d s" and "dispatch_message ctx cb t n ret s = Some (Inr (u, s'))"
  shows "sys_ok K d s'"
proof -
  have ret: "ret_of m = Some (Inr (u, s')) \<Longrightarrow> \<exists>r. m = Some (Inr (r, s'))" for m
    by (auto simp: ret_of_def obind_eq_Some_Inr simp del: obind.simps)
  have suback: "sys_ok K d s'" if run: "suback_msg_process ctx (sy_buffer s) n s = Inr (r, s')" for r
  proof -
    let ?k = "fresh (sy_heap s)"
    from run obtain q j d1 h1 where p: "suback_message_parse (Some (sy_buffer s)) n (Some 0)
        (Some \<lparr>sd_qos = NULL, sd_size = 0, sd_capacity = 0\<rparr>) (sy_heap s) = Inr (q, j, d1, h1)"
      and go: "(if q \<noteq> MQTT_SUCCESS then fbind (suback_data_release d1 h1) (\<lambda>(_, _, h). Inr (q, s\<lparr>sy_heap := h\<rparr>))
        else Inr (MQTT_SUCCESS, s\<lparr>sy_heap := h1\<rparr>)) = Inr (r, s')"
      unfolding suback_msg_process_def by (auto simp: fbind_eq_Inr)
    have u: "untouched ?k (sy_heap s) h1"
      using suback_message_parse_untouched [OF p sys_ok_heap [OF assms(1)]] by simp
    then obtain h2 where h2: "s' = s\<lparr>sy_heap := h2\<rparr>" "untouched ?k (sy_heap s) h2"
      using go suback_data_release_untouched [OF u] by (auto simp: fbind_eq_Inr split: if_splits)
    show ?thesis
      by (rule sys_ok_untouched [OF assms(1)]) (use h2 assms(1) in \<open>simp_all add: sys_ok_def\<close>)
  qed
  show ?thesis
    using assms ret suback
    by (cases t)
      (fastforce simp: dispatch_message_def Let_def puback_msg_process_def pubrec_msg_process_def pubrel_msg_process_def
        pubcomp_msg_process_def unsuback_msg_process_def pingresp_msg_process_def fbind_eq_Inr acks_sent
        dest!: ret intro: publish_msg_process_ok transmitted_ok split: if_splits)+
qed

end

lemma network_recv_trace:
  "network_recv c buf off n w = Inr (k, b, w') \<Longrightarrow> trace w' = Recv (socket_fd c) n # trace w \<and> length b = length buf"
  by (auto simp: network_recv_def Let_def fbind_eq_Inr dest: wr_bytes_length split: sum.splits)

text \<open>Receiving changes the buffer and makes one call.\<close>

lemma sys_ok_received:
  assumes "sys_ok K d s" and "network_recv c buf off n (sy_os s) = Inr (k, b, w)" and "length buf = BUFFER_SIZE"
  shows "sys_ok K d (s\<lparr>sy_buffer := b, sy_os := w\<rparr>)"
  by (rule sys_ok_calls [OF assms(1), where calls = "[Recv (socket_fd c) n]"])
    (use assms(1,3) network_recv_trace [OF assms(2)] in \<open>simp_all add: sys_ok_def\<close>)

context application
begin

lemma socket_turn_ok:
  assumes "sys_ok K d s" and "socket_turn ctx cb s = Some (Inr (t, s'))"
  shows "sys_ok K d s'"
proof -
  from assms(2) obtain k b w where recv: "network_recv (mc_conn (dc_client ctx)) (replicate BUFFER_SIZE 0) 0 MESSAGE_HEADER_LENGTH (sy_os s) = Inr (k, b, w)"
    unfolding socket_turn_def by (auto simp: obind_eq_Some_Inr simp del: obind.simps)
  let ?s = "s\<lparr>sy_buffer := b, sy_os := w\<rparr>"
  have ok: "sys_ok K d ?s" by (rule sys_ok_received [OF assms(1) recv]) simp
  from assms(2) recv have "s' = ?s \<or> (\<exists>n u q s1 q0. receive_rest ctx k n q0 ?s = Inr (q, s1) \<and>
      (s' = s1 \<or> dispatch_message ctx cb u n q s1 = Some (Inr (t, s'))))"
    unfolding socket_turn_def
    by (auto simp: obind_eq_Some_Inr Let_def simp del: obind.simps split: if_splits) blast+
  then show ?thesis
  proof (elim disjE exE conjE)
    assume "s' = ?s"
    with ok show ?thesis by simp
  next
    fix n u q s1 q0
    assume "receive_rest ctx k n q0 ?s = Inr (q, s1)"
    moreover have "length b = BUFFER_SIZE" using ok by (simp add: sys_ok_def)
    ultimately have s1: "sys_ok K d s1"
      using ok sys_ok_received [OF ok] by (auto simp: receive_rest_def fbind_eq_Inr split: if_splits)
    { assume "s' = s1" with s1 show ?thesis by simp }
    { assume "dispatch_message ctx cb u n q s1 = Some (Inr (t, s'))"
      with dispatch_message_ok [OF s1] show ?thesis by blast }
  qed
qed

end

context application
begin

lemma process_socket_event_ok:
  assumes "sys_ok K d s" and "process_socket_event ctx cb s = Some (Inr (r, s'))"
  shows "sys_ok K d s'"
proof -
  let ?P = "\<lambda>(ctx :: deamon_context_t) (c :: callbacks) (s :: sys) (y :: (int \<times> sys) res).
    c = cb \<longrightarrow> sys_ok K d s \<longrightarrow> (\<forall>r s'. y = Inr (r, s') \<longrightarrow> sys_ok K d s')"
  have "?P ctx cb s (Inr (r, s'))"
  proof (rule process_socket_event.raw_induct [of ?P ctx cb s "Inr (r, s')"])
    show "process_socket_event ctx cb s = Some (Inr (r, s'))" by (rule assms(2))
  next
    fix f ctx c s y
    assume ih: "\<And>ctx c s y. f ctx c s = Some y \<Longrightarrow> ?P ctx c s y"
      and step: "obind (socket_turn ctx c s) (\<lambda>(t, s). case t of Leave ret \<Rightarrow> Some (Inr (ret, s))
         | Next ret \<Rightarrow> if ret \<le> int BUFFER_SIZE then f ctx c s else Some (Inr (0, s))) = Some y"
    show "?P ctx c s y"
    proof (intro impI allI)
      fix r s'
      assume c: "c = cb" and ok: "sys_ok K d s" and y: "y = Inr (r, s')"
      with step obtain t s1 where t: "socket_turn ctx cb s = Some (Inr (t, s1))"
        and go: "(case t of Leave ret \<Rightarrow> Some (Inr (ret, s1))
         | Next ret \<Rightarrow> if ret \<le> int BUFFER_SIZE then f ctx cb s1 else Some (Inr (0, s1))) = Some (Inr (r, s'))"
        unfolding obind_eq_Some_Inr y by auto
      have s1: "sys_ok K d s1" by (rule socket_turn_ok [OF ok t])
      show "sys_ok K d s'"
      proof (cases "\<exists>q. t = Next q \<and> q \<le> int BUFFER_SIZE")
        case True
        with go have "f ctx cb s1 = Some (Inr (r, s'))" by auto
        with ih s1 show ?thesis by blast
      next
        case False
        with go have "s' = s1" by (cases t) auto
        with s1 show ?thesis by simp
      qed
    qed
  qed
  with assms(1) show ?thesis by blast
qed

end

lemma sys_ok_call_sys:
  assumes "sys_ok K d s" and "call_sys c s = (r, s')"
  shows "sys_ok K (lock_depth [c] + d) s'"
proof (rule sys_ok_calls [OF assms(1), where calls = "[c]"])
  have s': "s' = snd (call_sys c s)" using assms(2) by simp
  show "sy_heap s' = sy_heap s" "sy_send_list s' = sy_send_list s" "trace (sy_os s') = [c] @ trace (sy_os s)"
    by (simp_all add: s' call_sys_state)
  show "length (sy_buffer s') = length (sy_buffer s)" by (simp add: s' call_sys_def split_beta)
  show "depth s' = lock_depth [c] + d"
    using assms(1) by (cases c) (simp_all add: s' call_sys_state sys_ok_def)
qed

context application
begin

lemma expire_message_ok:
  assumes "sys_ok K d s" and "expire_message cb p s = Some (Inr s')"
  shows "sys_ok K d s'"
proof -
  from assms(2) obtain f s1 r l h and m :: message_send_t where f: "timeout_cb cb = Some f" "f p s = Inr s1"
    and "message_send_remove (Some (sy_send_list s1)) (ms_packet_id m) (sy_heap s1) = Some (Inr (r, l, h))"
    and "s' = s1\<lparr>sy_send_list := the l, sy_heap := h\<rparr>"
    unfolding expire_message_def
    by (auto simp: obind_eq_Some_Inr fbind_eq_Inr deref_def simp del: obind.simps split: option.splits)
  moreover have "sys_ok K d s1" by (rule timeout_cb_ok [OF assms(1) f])
  ultimately show ?thesis using sys_ok_remove by blast
qed

end

context application
begin

lemma timer_loop_ok:
  assumes "sys_ok K d s" and "timer_loop ctx cb now p s = Some (Inr s')"
  shows "sys_ok K d s'"
proof -
  let ?P = "\<lambda>(ctx :: deamon_context_t) (c :: callbacks) (now :: int) (p :: link) (s :: sys) (y :: sys res).
    c = cb \<longrightarrow> sys_ok K d s \<longrightarrow> (\<forall>s'. y = Inr s' \<longrightarrow> sys_ok K d s')"
  have "?P ctx cb now p s (Inr s')"
  proof (rule timer_loop.raw_induct [of ?P ctx cb now p s "Inr s'"])
    show "timer_loop ctx cb now p s = Some (Inr s')" by (rule assms(2))
  next
    fix f ctx c now p s y
    assume ih: "\<And>ctx c now p s y. f ctx c now p s = Some y \<Longrightarrow> ?P ctx c now p s y"
      and step: "(if p = NULL then Some (Inr s)
        else obind (Some (load_msg p (sy_heap s))) (\<lambda>m.
           obind (if timed_out ctx now m then expire_message c p s else Some (Inr s)) (\<lambda>s.
           obind (Some (load_msg p (sy_heap s))) (\<lambda>m. f ctx c now (ms_next m) s)))) = Some y"
    show "?P ctx c now p s y"
    proof (intro impI allI)
      fix s'
      assume c: "c = cb" and ok: "sys_ok K d s" and y: "y = Inr s'"
      show "sys_ok K d s'"
      proof (cases "p = NULL")
        case False
        with step y obtain m s1 and m1 :: message_send_t
          where m: "(if timed_out ctx now m then expire_message c p s else Some (Inr s)) = Some (Inr s1)"
            and go: "f ctx c now (ms_next m1) s1 = Some (Inr s')"
          by (auto simp: obind_eq_Some_Inr simp del: obind.simps)
        from m have "sys_ok K d s1" using expire_message_ok [OF ok] c ok by (auto split: if_splits)
        with ih [OF go] c show ?thesis by simp
      qed (use step y ok in simp)
    qed
  qed
  with assms(1) show ?thesis by simp
qed

end

lemma timer_ping_ok:
  assumes "sys_ok K d s" and "timer_ping ctx now s = Inr (r, s')"
  shows "sys_ok K d s'"
proof -
  obtain q t where t: "transmit ctx [0xC0, 0] s = (q, t)" by fastforce
  have t_ok: "sys_ok K d t" by (rule transmitted_ok [OF assms(1) t])
  obtain now' u where u: "call_sys Time t = (now', u)" by fastforce
  have u_ok: "sys_ok K d u" using sys_ok_call_sys [OF t_ok u] by simp
  have "sys_ok K d (u\<lparr>sy_keep_alive_timestamp := now'\<rparr>)"
    by (rule sys_ok_calls [OF u_ok, where calls = "[]"]) (use u_ok in \<open>simp_all add: sys_ok_def\<close>)
  with assms t_ok show ?thesis
    by (auto simp: timer_ping_def pingreq_msg_sent_eq t u split: if_splits)
qed

context application
begin

lemma process_timer_event_ok:
  assumes "sys_ok K d s" and "process_timer_event ctx cb s = Some (Inr (r, s'))"
  shows "sys_ok K d s'"
proof -
  obtain n s1 where 1: "call_sys (Timer_Read (dc_timer_fd ctx)) s = (n, s1)" by fastforce
  obtain now s2 where 2: "call_sys Time s1 = (now, s2)" by fastforce
  obtain l s3 where 3: "call_sys Lock s2 = (l, s3)" by fastforce
  have ok1: "sys_ok K d s1" using sys_ok_call_sys [OF assms(1) 1] by simp
  then have "sys_ok K d s2" using sys_ok_call_sys [OF _ 2] by fastforce
  then have ok3: "sys_ok K (d + 1) s3" using sys_ok_call_sys [OF _ 3] by (fastforce simp: add.commute)
  show ?thesis
  proof (cases "n = -1")
    case True
    with assms(2) 1 ok1 show ?thesis by (simp add: process_timer_event_def)
  next
    case False
    with assms(2) 1 2 3 have "obind (Some (timer_ping ctx now s3)) (\<lambda>(ret, s).
        obind (if ret \<noteq> MQTT_SUCCESS then Some (Inr s) else timer_loop ctx cb now (sy_send_list s) s) (\<lambda>s.
          Some (Inr (ret_code ret, snd (call_sys Unlock s))))) = Some (Inr (r, s'))"
      by (simp add: process_timer_event_def split_beta del: obind.simps cong: if_cong)
    then obtain q s4 s5 where ping: "timer_ping ctx now s3 = Inr (q, s4)"
      and loop: "(if q \<noteq> MQTT_SUCCESS then Some (Inr s4) else timer_loop ctx cb now (sy_send_list s4) s4) = Some (Inr s5)"
      and s': "s' = snd (call_sys Unlock s5)"
      by (auto simp: obind_eq_Some_Inr simp del: obind.simps)
    from loop have "sys_ok K (d + 1) s5"
      using timer_ping_ok [OF ok3 ping] by (auto intro: timer_loop_ok  split: if_splits)
    then show ?thesis using sys_ok_call_sys [of K "d + 1" s5 Unlock] s' by (cases "call_sys Unlock s5") fastforce
  qed
qed

end

section \<open>Subscribing keeps the invariant\<close>

lemma network_send_trace:
  "network_send c m n w = Inr (r, w') \<Longrightarrow> n \<le> length m \<and> trace w' = Send (socket_fd c) (take n m) # trace w"
  by (auto simp: network_send_def rd_bytes_def split: if_splits) (metis call_int_trace snd_conv)

text \<open>
  The exchange with the filter \<open>x\<close> and the message \<open>a\<close> in blocks of their own: the queue it leaves
  uses neither of them.
\<close>

definition apart :: "(nat \<rightharpoonup> u8 list) \<Rightarrow> nat set \<Rightarrow> int \<Rightarrow> sys \<Rightarrow> bool" where
  "apart K A d s \<longleftrightarrow> depth s = d \<and> length (sy_buffer s) = BUFFER_SIZE \<and> keeps_blocks K (sy_heap s) \<and> heap_ok (sy_heap s) \<and> (\<exists>as qs. send_list (sy_heap s) (sy_send_list s) as qs \<and>
     list_all (was_sent s) qs \<and> A \<inter> (set as \<union> copies (sy_heap s) as) = {}) \<and> A \<inter> dom K = {}"

lemma apart_start:
  assumes "sys_ok K d s0" and "untouched (fresh (sy_heap s0)) (sy_heap s0) (sy_heap s)" and "sy_send_list s = sy_send_list s0"
    and "trace (sy_os s) = calls @ trace (sy_os s0)" and "depth s = d" and "\<forall>a \<in> A. fresh (sy_heap s0) \<le> a"
    and "length (sy_buffer s) = length (sy_buffer s0)"
  shows "apart K A d s"
proof -
  from assms(1) obtain as qs where as: "send_list (sy_heap s0) (sy_send_list s0) as qs" "heap_ok (sy_heap s0)"
    and sent: "list_all (was_sent s0) qs" and K: "keeps_blocks K (sy_heap s0)" by (auto simp: sys_ok_def queue_def)
  note u = untouched_send_list [OF as assms(2)]
  have "list_all (was_sent s) qs" using sent was_sent_more [of s0 _ s] assms(4) by (auto simp: list_all_iff)
  moreover have "A \<inter> (set as \<union> copies (sy_heap s) as) = {}" using u(2) assms(6) by fastforce
  moreover have "A \<inter> dom K = {}"
  proof -
    have "a < fresh (sy_heap s0)" if "K a = Some bs" for a bs
      using K that as(2) live_iff [of a "sy_heap s0"] by (auto simp: keeps_blocks_def heap_ok_def)
    with assms(6) show ?thesis by fastforce
  qed
  ultimately show ?thesis
    using u(1) assms(1,2,3,5,7) keeps_blocks_untouched [OF K as(2) assms(2)] unfolding apart_def untouched_def sys_ok_def by auto
qed

lemma apart_add:
  assumes "apart K A d s" and "\<forall>a \<in> A. a < fresh (sy_heap s)" and "i \<noteq> 0" and "Send fd (take (unat n) buf) \<in> set (trace (sy_os s))"
    and "message_send_add (Some (sy_send_list s)) i (Some buf) n q (sy_heap s) = Some (Inr (r, list, h))"
  shows "apart K A d (s\<lparr>sy_heap := h, sy_send_list := the list\<rparr>)"
proof -
  let ?s = "s\<lparr>sy_heap := h, sy_send_list := the list\<rparr>"
  from assms(1) obtain as qs where as: "send_list (sy_heap s) (sy_send_list s) as qs" "heap_ok (sy_heap s)"
    and sent: "list_all (was_sent s) qs" and free: "A \<inter> (set as \<union> copies (sy_heap s) as) = {}" and d: "depth s = d" "length (sy_buffer s) = BUFFER_SIZE"
    and K: "keeps_blocks K (sy_heap s)" "A \<inter> dom K = {}" by (auto simp: apart_def)
  from message_send_add_any [OF as assms(5)] obtain p' as' where p': "list = Some p'" "heap_ok h" "keeps_bytes (sy_heap s) h"
    "set as' \<union> copies h as' \<subseteq> {fresh (sy_heap s), Suc (fresh (sy_heap s))} \<union> set as \<union> copies (sy_heap s) as"
    and list: "send_list h p' as' (if r = MQTT_SUCCESS then qs @ [(i, take (unat n) buf, q)] else qs)" by blast
  have "was_sent ?s = was_sent s" by (auto simp: was_sent_def)
  moreover have "was_sent s (i, take (unat n) buf, q)" using assms(3,4) by (auto simp: was_sent_def)
  ultimately have "list_all (was_sent ?s) (if r = MQTT_SUCCESS then qs @ [(i, take (unat n) buf, q)] else qs)" using sent by simp
  moreover have "A \<inter> (set as' \<union> copies h as') = {}" using p'(4) free assms(2) by fastforce
  ultimately show ?thesis using list p'(1,2) d K(2) keeps_blocks_bytes [OF K(1) p'(3)] unfolding apart_def by auto
qed

text \<open>Releasing the blocks.\<close>

lemma apart_free:
  assumes "apart K A d s" and "a \<in> A" and "free (Addr a) (sy_heap s) = Inr h"
  shows "apart K A d (s\<lparr>sy_heap := h\<rparr>)"
proof -
  from assms(3) have h: "h = (sy_heap s)\<lparr>cells := AList.delete a (cells (sy_heap s))\<rparr>"
    by (auto simp: free_def split: option.splits)
  from assms(1) obtain as qs where as: "send_list (sy_heap s) (sy_send_list s) as qs" "heap_ok (sy_heap s)"
    and sent: "list_all (was_sent s) qs" and free: "A \<inter> (set as \<union> copies (sy_heap s) as) = {}" and d: "depth s = d" "length (sy_buffer s) = BUFFER_SIZE"
    and K: "keeps_blocks K (sy_heap s)" "A \<inter> dom K = {}" by (auto simp: apart_def)
  have "send_list h (sy_send_list s) as qs" unfolding h by (rule send_list_delete_other [OF as(1)]) (use free assms(2) in auto)
  moreover have "heap_ok h" unfolding h by (rule heap_ok_delete [OF as(2)])
  moreover have "copies h as \<subseteq> copies (sy_heap s) as" unfolding h by (rule copies_delete)
  moreover have "was_sent (s\<lparr>sy_heap := h\<rparr>) = was_sent s" by (auto simp: was_sent_def)
  moreover have "keeps_blocks K h" using K assms(2) by (auto simp: keeps_blocks_def h AList.delete_conv')
  ultimately show ?thesis using free sent d K(2) unfolding apart_def by (intro conjI exI [of _ as] exI [of _ qs]) auto
qed

lemma apart_sys_ok: "apart K A d s \<Longrightarrow> sys_ok K d s"
  by (auto simp: apart_def sys_ok_def queue_def)

text \<open>
  The exchange with the filter \<open>x\<close> and the message \<open>a\<close> in blocks of their own: the queue it leaves
  uses neither of them.
\<close>

lemma subscribe_exchange_apart:
  assumes run: "subscribe_exchange x (Addr a) n qos cl s = Some (Inr (ret, cl', s'))"
    and ok: "sys_ok K d s0" and young: "untouched (fresh (sy_heap s0)) (sy_heap s0) (sy_heap s)" "\<forall>b \<in> {a, k}. fresh (sy_heap s0) \<le> b"
    and same: "sy_send_list s = sy_send_list s0" "sy_os s = sy_os s0" "sy_buffer s = sy_buffer s0" and id: "mc_packet_id_next cl \<noteq> 0"
    and k: "k < fresh (sy_heap s)"
  shows "apart K {a, k} d s'"
proof -
  from run obtain buf r0 buf' n' h1 where load: "load_bytes (Addr a) (sy_heap s) = Inr buf"
    and store: "store (Addr a) (Bytes buf') (sy_heap s) = Inr h1"
    and go: "(if r0 \<noteq> MQTT_SUCCESS then Some (Inr (r0, cl, s\<lparr>sy_heap := h1\<rparr>))
      else obind (Some (network_send (mc_conn cl) buf' (unat n') (sy_os (s\<lparr>sy_heap := h1\<rparr>)))) (\<lambda>(r, w).
          let s = s\<lparr>sy_heap := h1, sy_os := w\<rparr>
          in if r < 0 then Some (Inr (MQTT_MESSAGE_SEND_ERROR, cl, s))
             else obind (message_send_add (Some (sy_send_list s)) (mc_packet_id_next cl) (Some buf') n' qos (sy_heap s))
                    (\<lambda>(ret, list, h).
                  let s = s\<lparr>sy_heap := h, sy_send_list := the list\<rparr>
                  in if ret \<noteq> MQTT_SUCCESS then Some (Inr (MQTT_MEMORY_NOBUFFER, cl, s))
                     else let next_id = mc_packet_id_next cl + 1
                          in Some (Inr (MQTT_SUCCESS, cl\<lparr>mc_packet_id_next := (if next_id = 0 then 1 else next_id)\<rparr>, s))))) =
      Some (Inr (ret, cl', s'))"
    unfolding subscribe_exchange_def
    by (auto simp: obind_eq_Some_Inr fbind_eq_Inr simp del: obind.simps)
  have u: "untouched (fresh (sy_heap s0)) (sy_heap s0) h1"
    by (rule untouched_store [OF young(1) _ store]) (use young(2) in \<open>simp add: young_def\<close>)
  have d: "depth s0 = d" using ok by (simp add: sys_ok_def)
  have fresh: "fresh h1 = fresh (sy_heap s)" using store by (auto simp: store_def fbind_eq_Inr)
  have "heap_ok (sy_heap s)" using young(1) by (simp add: untouched_def)
  moreover have "a \<in> live (sy_heap s)" using load by (auto simp: load_bytes_eq_Inr live_iff)
  ultimately have below: "\<forall>b \<in> {a, k}. b < fresh h1" using k fresh by (auto simp: heap_ok_def)
  show ?thesis
  proof (cases "r0 = MQTT_SUCCESS")
    case False
    with go have "s' = s\<lparr>sy_heap := h1\<rparr>" by simp
    then show ?thesis
      by (intro apart_start [OF ok, where calls = "[]"]) (use u same d young(2) in simp_all)
  next
    case True
    from go True obtain r w where send: "network_send (mc_conn cl) buf' (unat n') (sy_os s) = Inr (r, w)"
      by (auto simp: obind_eq_Some_Inr simp del: obind.simps)
    let ?s = "s\<lparr>sy_heap := h1, sy_os := w\<rparr>"
    note tr = network_send_trace [OF send]
    have start: "apart K {a, k} d ?s"
      by (intro apart_start [OF ok, where calls = "[Send (socket_fd (mc_conn cl)) (take (unat n') buf')]"])
        (use u same d young(2) tr in simp_all)
    show ?thesis
    proof (cases "r < 0")
      case True
      with go \<open>r0 = MQTT_SUCCESS\<close> send have "s' = ?s" by simp
      with start show ?thesis by simp
    next
      case False
      with go \<open>r0 = MQTT_SUCCESS\<close> send obtain r2 list h
        where add: "message_send_add (Some (sy_send_list s)) (mc_packet_id_next cl) (Some buf') n' qos h1 = Some (Inr (r2, list, h))"
          and s': "s' = ?s\<lparr>sy_heap := h, sy_send_list := the list\<rparr>"
        by (auto simp: obind_eq_Some_Inr Let_def simp del: obind.simps split: if_splits)
      have "Send (socket_fd (mc_conn cl)) (take (unat n') buf') \<in> set (trace (sy_os ?s))" using tr by simp
      from apart_add [OF start _ id this, of qos r2 list h] add below show ?thesis unfolding s' by simp
    qed
  qed
qed

lemma local_filter_untouched:
  assumes "heap_ok h" and "local_filter f h = (p, h')"
  shows "p = Addr (fresh h)" and "untouched (fresh h) h h'" and "fresh h' = Suc (fresh h)"
proof -
  have h': "p = Addr (fresh h)" "h' = h\<lparr>cells := (fresh h, Filter f) # cells h, fresh := Suc (fresh h)\<rparr>"
    using assms(2) by (simp_all add: local_filter_def)
  then show "p = Addr (fresh h)" and "fresh h' = Suc (fresh h)" by simp_all
  from assms(1) have "heap_ok h'" unfolding h' by (fastforce simp: heap_ok_def live_def less_Suc_eq)
  then show "untouched (fresh h) h h'" by (simp add: untouched_def h')
qed

lemma mqtt_client_subscribe_ok:
  assumes ok: "sys_ok K d s" and id: "mc_packet_id_next cl \<noteq> 0"
    and run: "mqtt_client_subscribe (Some cl) topic n qos s = Some (Inr (ret, c', s'))"
  shows "sys_ok K d s' \<and> (\<exists>cl'. c' = Some cl' \<and> mc_packet_id_next cl' \<noteq> 0)"
proof (cases "topic = None \<or> n = 0")
  case True
  with run ok id show ?thesis by (auto simp: mqtt_client_subscribe_def)
next
  case False
  let ?h0 = "sy_heap s" and ?k = "fresh (sy_heap s)"
  have h0: "heap_ok ?h0" using ok by (auto simp: sys_ok_def queue_def)
  obtain flt h1 where flt: "local_filter \<lparr>tf_topic = topic, tf_len = n, tf_qos = qos, tf_next = NULL\<rparr> ?h0 = (flt, h1)" by fastforce
  note l = local_filter_untouched [OF h0 flt]
  from run False flt have "obind (subscribe_message_len_calc flt (Some 0) h1) (\<lambda>(_, m). let m = the m
        in case malloc (junk_bytes h1 (unat m)) h1 of (msg, h) \<Rightarrow>
             if msg = NULL
             then obind (Some (free flt h)) (\<lambda>h. Some (Inr (MQTT_MEMORY_NOBUFFER, Some cl, s\<lparr>sy_heap := h\<rparr>)))
             else obind (subscribe_exchange flt msg m qos cl (s\<lparr>sy_heap := h\<rparr>)) (\<lambda>(ret, cl, s).
                  obind (Some (fbind (free msg (sy_heap s)) (free flt))) (\<lambda>h.
                  Some (Inr (ret, Some cl, s\<lparr>sy_heap := h\<rparr>))))) = Some (Inr (ret, c', s'))"
    by (simp add: mqtt_client_subscribe_def Let_def del: obind.simps)
  then obtain m where go: "(case malloc (junk_bytes h1 (unat m)) h1 of (msg, h) \<Rightarrow>
             if msg = NULL
             then obind (Some (free flt h)) (\<lambda>h. Some (Inr (MQTT_MEMORY_NOBUFFER, Some cl, s\<lparr>sy_heap := h\<rparr>)))
             else obind (subscribe_exchange flt msg m qos cl (s\<lparr>sy_heap := h\<rparr>)) (\<lambda>(ret, cl, s).
                  obind (Some (fbind (free msg (sy_heap s)) (free flt))) (\<lambda>h.
                  Some (Inr (ret, Some cl, s\<lparr>sy_heap := h\<rparr>))))) = Some (Inr (ret, c', s'))"
    by (auto simp: obind_eq_Some_Inr Let_def simp del: obind.simps)
  obtain msg h2 where m: "malloc (junk_bytes h1 (unat m)) h1 = (msg, h2)" by fastforce
  note u = untouched_malloc [OF l(2) m]
  show ?thesis
  proof (cases "msg = NULL")
    case True
    with go m obtain h3 where h3: "free flt h2 = Inr h3" "s' = s\<lparr>sy_heap := h3\<rparr>" "c' = Some cl"
      by (auto simp: obind_eq_Some_Inr simp del: obind.simps)
    have "untouched ?k ?h0 h3" by (rule untouched_free [OF u(1) _ h3(1)]) (simp add: young_def l(1))
    then have "sys_ok K d s'"
      by (intro sys_ok_untouched [OF ok]) (use h3(2) ok in \<open>simp_all add: sys_ok_def\<close>)
    with h3(3) id show ?thesis by simp
  next
    case False
    then have msg: "msg = Addr (fresh h1)" using m by (auto simp: malloc_def split: if_splits)
    have f2: "fresh h2 = Suc (fresh h1)" using m by (auto simp: malloc_def split: if_splits)
    from go m False obtain cl' s1 h3 h4 where x: "subscribe_exchange flt msg m qos cl (s\<lparr>sy_heap := h2\<rparr>) = Some (Inr (ret, cl', s1))"
      and h3: "free msg (sy_heap s1) = Inr h3" and h4: "free flt h3 = Inr h4"
      and s': "s' = s1\<lparr>sy_heap := h4\<rparr>" and c': "c' = Some cl'"
      by (auto simp: obind_eq_Some_Inr fbind_eq_Inr simp del: obind.simps)
    have "apart K {fresh h1, ?k} d s1"
      by (rule subscribe_exchange_apart [OF x [unfolded msg] ok _ _ _ _ _ id]) (use u(1) l(3) f2 in auto)
    then have "apart K {fresh h1, ?k} d (s1\<lparr>sy_heap := h3\<rparr>)" by (rule apart_free) (use h3 msg in simp_all)
    then have "apart K {fresh h1, ?k} d (s1\<lparr>sy_heap := h3\<rparr>\<lparr>sy_heap := h4\<rparr>)" by (rule apart_free) (use h4 l(1) in simp_all)
    then have "sys_ok K d s'" unfolding s' by (intro apart_sys_ok) simp
    moreover have "mc_packet_id_next cl' \<noteq> 0" using subscribe_exchange_client [OF x] id by simp
    ultimately show ?thesis using c' by blast
  qed
qed

end
