(* ===== verification/Client_System.thy ===== *)
theory Client_System
  imports Client_Invariant
begin

text \<open>
  The client as a whole: a transition system that starts with the opening of a session and whose
  steps are the calls of the application and the events of the deamon, on the shared state, and
  what is true in every state it reaches.
\<close>

section \<open>Opening a session keeps the invariant\<close>

text \<open>Opening a session works on blocks of its own and leaves the lock alone.\<close>

lemma network_connect_lock_free: "network_connect host port conn w = (r, conn', w') \<Longrightarrow> lock_free_calls w w'"
  using network_connect_calls [of host port conn w r conn' w'] by (auto simp: lock_free_calls_def)

lemma network_send_lock_free: "network_send c m n w = Inr (r, w') \<Longrightarrow> lock_free_calls w w'"
  using network_send_trace by (intro lock_free_calls_cons [of w' "Send (socket_fd c) (take n m)"]) auto

lemma network_recv_lock_free: "network_recv c b off n w = Inr (r, b', w') \<Longrightarrow> lock_free_calls w w'"
  using network_recv_trace by (intro lock_free_calls_cons [of w' "Recv (socket_fd c) n"]) auto

lemma send_and_wait_loop_lock_free:
  assumes "send_and_wait_loop c m n retry ack k w = Some (Inr (ret, ack', k', w'))"
  shows "lock_free_calls w w'"
proof -
  let ?P = "\<lambda>(c :: network_connection_t) (m :: u8 list) (n :: nat) (retry :: nat) (ack :: u8 list) (k :: u32) w (y :: wait_result res).
    \<forall>ret ack' k' w'. y = Inr (ret, ack', k', w') \<longrightarrow> lock_free_calls w w'"
  have "?P c m n retry ack k w (Inr (ret, ack', k', w'))"
  proof (rule send_and_wait_loop.raw_induct [of ?P c m n retry ack k w "Inr (ret, ack', k', w')"])
    show "send_and_wait_loop c m n retry ack k w = Some (Inr (ret, ack', k', w'))" by (rule assms)
  next
    fix f c m n retry ack k w y
    assume ih: "\<And>c m n retry ack k w y. f c m n retry ack k w = Some y \<Longrightarrow> ?P c m n retry ack k w y"
      and step: "(if retry < MQTT_CLIENT_CONNECT_RETRY_MAX then
        (case network_send c m n w of
           Inl e \<Rightarrow> Some (Inl e)
         | Inr (ret, w) \<Rightarrow>
             if ret = -1 then Some (Inr (MQTT_MESSAGE_SEND_ERROR, ack, k, w))
             else (case network_recv c ack 0 (unat k) w of
                 Inl e \<Rightarrow> Some (Inl e)
               | Inr (ret, ack, w) \<Rightarrow>
                   if 0 < ret then Some (Inr (MQTT_SUCCESS, ack, of_int ret, w))
                   else if ret < 0
                   then (if errno w = EAGAIN \<or> errno w = EWOULDBLOCK
                         then f c m n (retry + 1) ack k w
                         else Some (Inr (MQTT_CLIENT_CONNECT_ERROR, ack, k, w)))
                   else f c m n retry ack k w))
      else Some (Inr (MQTT_CLIENT_CONNECT_ERROR, ack, k, w))) = Some y"
    show "?P c m n retry ack k w y"
    proof (intro allI impI)
      fix ret ack' k' w'
      assume y: "y = Inr (ret, ack', k', w')"
      show "lock_free_calls w w'"
      proof (cases "retry < 3")
        case False
        with step y show ?thesis by (simp add: lock_free_calls_refl)
      next
        case True
        with step y obtain r w1 where send: "network_send c m n w = Inr (r, w1)" by (auto split: sum.splits)
        note l1 = network_send_lock_free [OF send]
        show ?thesis
        proof (cases "r = -1")
          case True
          with step y send l1 \<open>retry < 3\<close> show ?thesis by simp
        next
          case False
          with step y send \<open>retry < 3\<close> obtain r2 ack2 w2 where recv: "network_recv c ack 0 (unat k) w1 = Inr (r2, ack2, w2)"
            by (auto split: sum.splits)
          note l2 = lock_free_calls_trans [OF l1 network_recv_lock_free [OF recv]]
          have "w' = w2 \<or> (\<exists>retry. f c m n retry ack2 k w2 = Some y)"
            using step y send recv False \<open>retry < 3\<close> by (auto split: if_splits)
          with ih y l2 show ?thesis by (blast intro: lock_free_calls_trans)
        qed
      qed
    qed
  qed
  then show ?thesis by simp
qed

lemma message_send_and_wait_ack_lock_free:
  assumes "message_send_and_wait_ack c m n ack k w = Some (Inr (ret, ack', k', w'))"
  shows "lock_free_calls w w'"
proof -
  let ?w = "snd (network_set_timeout (Some c) 5 w)"
  from assms obtain w1 where "send_and_wait_loop c m (unat n) 0 ack k ?w = Some (Inr (ret, ack', k', w1))"
    and w': "w' = snd (network_clean_timeout (Some c) w1)"
    by (auto simp: message_send_and_wait_ack_def split_beta obind_eq_Some_Inr simp del: obind.simps)
  then have "lock_free_calls ?w w1" by (intro send_and_wait_loop_lock_free)
  moreover have "lock_free_calls v (snd (network_set_timeout (Some c) n v))" for n v
    by (rule lock_free_calls_cons [OF network_set_timeout_trace(1)]) simp
  then have "lock_free_calls w ?w" "lock_free_calls w1 w'" by (simp_all add: w' network_clean_timeout_def)
  ultimately show ?thesis by (blast intro: lock_free_calls_trans)
qed

lemma connect_message_build_untouched:
  assumes "untouched k h0 h" and "connect_message_build p ka c r q m n h = Inr (ret, m', n', h')"
  shows "untouched k h0 h'"
proof -
  obtain b h1 where m: "malloc (junk_bytes h (unat (connect_payload_size p))) h = (b, h1)" by fastforce
  note u = untouched_malloc [OF assms(1) m]
  from assms(2) m have "h' = h \<or> h' = h1 \<or> free b h1 = Inr h'"
    by (auto simp: connect_message_build_def Let_def fbind_eq_Inr split: if_splits)
  then show ?thesis using assms(1) u untouched_free [OF u] by blast
qed

text \<open>After an accepting answer the client owns a block with its identifier.\<close>

definition owns_id :: "mqtt_client_config_t \<Rightarrow> mqtt_client_t \<Rightarrow> nat \<Rightarrow> u8 list \<Rightarrow> bool" where
  "owns_id cf cl a bs \<longleftrightarrow> mc_client_id cl = Addr a \<and> mc_client_id_len cl = cf_client_id_len cf \<and> mc_packet_id_next cl = 1 \<and>
     rd_ptr (cf_client_id cf) (unat (cf_client_id_len cf)) = Inr bs"

lemma connect_established_aside:
  assumes "aside s0 s" and "connect_established cl cf s = Inr (cl', s')"
  shows "aside s0 s' \<and> (\<exists>a bs. owns_id cf cl' a bs \<and> map_of (cells (sy_heap s')) a = Some (Bytes bs) \<and> fresh (sy_heap s) \<le> a)"
proof -
  obtain now w where t: "call_int Time (sy_os s) = (now, w)" by fastforce
  obtain p h where m: "malloc (junk_bytes (sy_heap s) (unat (cf_client_id_len cf))) (sy_heap s) = (p, h)" by fastforce
  from assms(2) t m obtain bs h2 where bs: "rd_ptr (cf_client_id cf) (unat (cf_client_id_len cf)) = Inr bs"
    and st: "store p (Bytes bs) h = Inr h2"
    and s': "s' = s\<lparr>sy_os := w, sy_keep_alive_timestamp := now, sy_heap := h2\<rparr>"
    and cl': "cl' = cl\<lparr>mc_keep_alive := cf_keep_alive cf, mc_client_id := p, mc_client_id_len := cf_client_id_len cf,
       mc_packet_id_next := 1, mc_state := MQTT_CLIENT_STATE_CONNECTED\<rparr>"
    by (auto simp: connect_established_def Let_def fbind_eq_Inr)
  have u0: "untouched (fresh (sy_heap s0)) (sy_heap s0) (sy_heap s)" using assms(1) by (simp add: aside_def)
  note u = untouched_malloc [OF u0 m]
  have u2: "untouched (fresh (sy_heap s0)) (sy_heap s0) h2" by (rule untouched_store [OF u st])
  have a: "p = Addr (fresh (sy_heap s))" using m st by (auto simp: malloc_def load_NULL store_def split: if_splits)
  then have "map_of (cells h2) (fresh (sy_heap s)) = Some (Bytes bs)"
    using st by (auto simp: store_def fbind_eq_Inr AList.update_conv')
  moreover have "aside s0 s'"
    using assms(1) u2 lock_free_calls_trans [OF _ lock_free_call_int [OF t]] by (simp add: s' aside_def)
  ultimately show ?thesis
    using a bs by (intro conjI exI [of _ "fresh (sy_heap s)"] exI [of _ bs]) (simp_all add: s' cl' owns_id_def)
qed

lemma connect_exchange_aside:
  assumes run: "connect_exchange jl (Addr m) n cl cf s = Some (Inr (ret, cl', s'))"
    and s: "aside s0 s" and m: "fresh (sy_heap s0) \<le> m"
  shows "aside s0 s' \<and> (ret = MQTT_SUCCESS \<longrightarrow>
     (\<exists>a bs. owns_id cf cl' a bs \<and> map_of (cells (sy_heap s')) a = Some (Bytes bs) \<and> fresh (sy_heap s) \<le> a))"
proof -
  define rest where "rest = (\<lambda>(q, buf, n, s). if q \<noteq> MQTT_SUCCESS then Some (Inr (q, cl, s))
     else obind (message_send_and_wait_ack (mc_conn cl) buf n (replicate CONNACK_MESSAGE_LEN 0)
                   (of_nat CONNACK_MESSAGE_LEN) (sy_os s)) (\<lambda>(ret, connack_message, ack_len, w).
     let s = s\<lparr>sy_os := w\<rparr>
     in if ret \<noteq> MQTT_SUCCESS then Some (Inr (ret, cl, s))
        else obind (Some (connack_message_parse jl (Some connack_message) ack_len (Some 0) (Some (mc_sp cl))))
               (\<lambda>(ret, connack_code, sp).
             let client = cl\<lparr>mc_sp := the sp\<rparr>
             in if ret \<noteq> MQTT_SUCCESS then Some (Inr (ret, client, s))
                else if connack_code \<noteq> Some (connack_value MQTT_CONNACK_ACCEPTED) then Some (Inr (MQTT_CLIENT_CONNECT_ERROR, client, s))
                else obind (Some (connect_established client cf s)) (\<lambda>(client, s).
                     Some (Inr (MQTT_SUCCESS, client, s))))))"
  have "obind (Some (fbind (load_bytes (Addr m) (sy_heap s)) (\<lambda>buf.
                  fbind (connect_message_build (conn_payload_of cf) (cf_keep_alive cf) (cf_clean_session cf)
                           (cf_will_retain cf) (cf_will_qos cf) buf n (sy_heap s)) (\<lambda>(ret, buf, n, h).
                  fbind (store (Addr m) (Bytes buf) h) (\<lambda>h. Inr (ret, buf, n, s\<lparr>sy_heap := h\<rparr>)))))) rest = Some (Inr (ret, cl', s'))"
    using run unfolding connect_exchange_def rest_def .
  then obtain buf q buf' n' h1 h2 where build: "connect_message_build (conn_payload_of cf) (cf_keep_alive cf) (cf_clean_session cf)
                           (cf_will_retain cf) (cf_will_qos cf) buf n (sy_heap s) = Inr (q, buf', n', h1)"
    and store: "store (Addr m) (Bytes buf') h1 = Inr h2"
    and go: "rest (q, buf', n', s\<lparr>sy_heap := h2\<rparr>) = Some (Inr (ret, cl', s'))"
    by (auto simp: obind_eq_Some_Inr fbind_eq_Inr simp del: obind.simps)
  have u1: "untouched (fresh (sy_heap s0)) (sy_heap s0) h1"
    by (rule connect_message_build_untouched [OF _ build]) (use s in \<open>simp add: aside_def\<close>)
  have u2: "untouched (fresh (sy_heap s0)) (sy_heap s0) h2"
    by (rule untouched_store [OF u1 _ store]) (use m in \<open>simp add: young_def\<close>)
  have f: "fresh (sy_heap s) \<le> fresh h2"
  proof -
    have "untouched (fresh (sy_heap s)) (sy_heap s) (sy_heap s)" using s by (auto simp: aside_def intro: untouched_refl simp: untouched_def)
    from connect_message_build_untouched [OF this build] have "fresh (sy_heap s) \<le> fresh h1" by (simp add: untouched_def)
    then show ?thesis using store by (auto simp: store_def fbind_eq_Inr)
  qed
  show ?thesis
  proof (cases "q = MQTT_SUCCESS")
    case False
    with go aside_heap [OF s u2] show ?thesis by (auto simp: rest_def)
  next
    case True
    with go obtain r ack k w where wait: "message_send_and_wait_ack (mc_conn cl) buf' n' (replicate CONNACK_MESSAGE_LEN 0)
                   (of_nat CONNACK_MESSAGE_LEN) (sy_os s) = Some (Inr (r, ack, k, w))"
      by (auto simp: rest_def obind_eq_Some_Inr simp del: obind.simps)
    let ?s = "s\<lparr>sy_heap := h2, sy_os := w\<rparr>"
    have o: "aside s0 ?s"
      using aside_os [OF aside_heap [OF s u2], of w] message_send_and_wait_ack_lock_free [OF wait] by simp
    from go True wait have "s' = ?s \<and> ret \<noteq> MQTT_SUCCESS \<or> (\<exists>cl1. connect_established cl1 cf ?s = Inr (cl', s'))"
      by (auto simp: rest_def obind_eq_Some_Inr Let_def simp del: obind.simps split: if_splits)
    then show ?thesis
    proof (elim disjE exE)
      fix cl1
      assume "connect_established cl1 cf ?s = Inr (cl', s')"
      from connect_established_aside [OF o this] f show ?thesis by fastforce
    qed (use o in simp)
  qed
qed

lemma connect_message_send_aside:
  assumes run: "connect_message_send jl cl cf s = Some (Inr (ret, cl', cf', s'))" and ok: "heap_ok (sy_heap s)"
  shows "aside s s' \<and> (ret = MQTT_SUCCESS \<longrightarrow> (\<exists>a bs. owns_id cf cl' a bs \<and> map_of (cells (sy_heap s')) a = Some (Bytes bs) \<and>
     fresh (sy_heap s) \<le> a))"
proof -
  define cf0 where "cf0 = (if cf_keep_alive cf = 0 then cf\<lparr>cf_keep_alive := 60\<rparr> else cf)"
  have owns: "owns_id cf0 = owns_id cf" by (intro ext) (simp add: owns_id_def cf0_def)
  have start: "aside s s" using ok by (simp add: aside_def untouched_refl lock_free_calls_refl)
  obtain n where run: "(case malloc (junk_bytes (sy_heap s) (unat n)) (sy_heap s) of (msg, h) \<Rightarrow>
      if msg = NULL then Some (Inr (MQTT_MEMORY_NOBUFFER, cl, cf0, s\<lparr>sy_heap := h\<rparr>))
      else obind (connect_exchange jl msg n cl cf0 (s\<lparr>sy_heap := h\<rparr>)) (\<lambda>(ret, client, s).
           obind (Some (free msg (sy_heap s))) (\<lambda>h. Some (Inr (ret, client, cf0, s\<lparr>sy_heap := h\<rparr>))))) =
      Some (Inr (ret, cl', cf', s'))"
    using run unfolding connect_message_send_def cf0_def [symmetric] Let_def split_beta by auto
  obtain msg h where m: "malloc (junk_bytes (sy_heap s) (unat n)) (sy_heap s) = (msg, h)" by fastforce
  have u: "untouched (fresh (sy_heap s)) (sy_heap s) h" "young (fresh (sy_heap s)) msg"
    using untouched_malloc [OF _ m] start by (auto simp: aside_def)
  then have b: "aside s (s\<lparr>sy_heap := h\<rparr>)" using aside_heap [OF start] by simp
  show ?thesis
  proof (cases "msg = NULL")
    case True
    with run m b show ?thesis by auto
  next
    case False
    then have msg: "msg = Addr (fresh (sy_heap s))" "fresh h = Suc (fresh (sy_heap s))"
      using m by (auto simp: malloc_def split: if_splits)
    from run m False obtain s1 h1 where x: "connect_exchange jl msg n cl cf0 (s\<lparr>sy_heap := h\<rparr>) = Some (Inr (ret, cl', s1))"
      and f: "free msg (sy_heap s1) = Inr h1" and s': "s' = s1\<lparr>sy_heap := h1\<rparr>"
      by (auto simp: obind_eq_Some_Inr simp del: obind.simps)
    from connect_exchange_aside [OF x [unfolded msg(1)] b] have b1: "aside s s1"
      and id: "ret = MQTT_SUCCESS \<Longrightarrow>
        \<exists>a bs. owns_id cf cl' a bs \<and> map_of (cells (sy_heap s1)) a = Some (Bytes bs) \<and> Suc (fresh (sy_heap s)) \<le> a"
      using owns msg(2) by auto
    have "aside s s'"
      unfolding s' by (rule aside_heap [OF b1 untouched_free [OF _ u(2) f]]) (use b1 in \<open>simp add: aside_def\<close>)
    moreover have "map_of (cells h1) a = map_of (cells (sy_heap s1)) a" if "Suc (fresh (sy_heap s)) \<le> a" for a
      using f that unfolding msg(1) by (auto simp: free_def AList.delete_conv' split: option.splits)
    ultimately show ?thesis using id s' by fastforce
  qed
qed

lemma mqtt_client_create_ok:
  assumes ok: "sys_ok K d s" and run: "mqtt_client_create jl (Some cl) (Some cf) s = Some (Inr (ret, c', cf', s'))"
  shows "sys_ok K d s' \<and> (ret = MQTT_SUCCESS \<longrightarrow>
     (\<exists>cl' a bs. c' = Some cl' \<and> owns_id cf cl' a bs \<and> sys_ok (K(a \<mapsto> bs)) d s'))"
proof -
  obtain r conn w where net: "network_connect (cf_hostname cf) (cf_port cf) (mc_conn cl) (sy_os s) = (r, conn, w)"
    by (metis prod_cases3)
  have heap: "heap_ok (sy_heap s)" using ok by (auto simp: sys_ok_def queue_def)
  then have b: "aside s (s\<lparr>sy_os := w\<rparr>)"
    using network_connect_lock_free [OF net] by (simp add: aside_def untouched_refl)
  show ?thesis
  proof (cases "r = MQTT_SUCCESS")
    case False
    with run net aside_sys_ok [OF ok b] show ?thesis by (simp add: mqtt_client_create_def)
  next
    case True
    with run net obtain cl1 cf1 s1 where send: "connect_message_send jl (cl\<lparr>mc_conn := conn\<rparr>) cf (s\<lparr>sy_os := w\<rparr>) = Some (Inr (ret, cl1, cf1, s1))"
      and c': "c' = Some (cl1\<lparr>mc_conn := \<lparr>socket_fd = 0\<rparr>\<rparr>)" and s': "s' = s1\<lparr>sy_os := snd (network_close (mc_conn cl1) (sy_os s1))\<rparr>"
      by (auto simp: mqtt_client_create_def Let_def split_beta obind_eq_Some_Inr simp del: obind.simps)
    from connect_message_send_aside [OF send] heap have x: "aside (s\<lparr>sy_os := w\<rparr>) s1" and id: "ret = MQTT_SUCCESS \<Longrightarrow>
        \<exists>a bs. owns_id cf cl1 a bs \<and> map_of (cells (sy_heap s1)) a = Some (Bytes bs)"
      by auto
    have "lock_free_calls (sy_os s1) (sy_os s')"
      by (rule lock_free_calls_cons [of _ "Close (socket_fd (mc_conn cl1))"]) (simp_all add: s' network_close_def)
    then have "aside s s'"
      using x network_connect_lock_free [OF net] unfolding s' aside_def
      by (auto intro: lock_free_calls_trans)
    from aside_sys_ok [OF ok this] have s'_ok: "sys_ok K d s'" .
    have "sys_ok (K(a \<mapsto> bs)) d s'" if "map_of (cells (sy_heap s1)) a = Some (Bytes bs)" for a bs
      using s'_ok that by (simp add: sys_ok_def keeps_blocks_def s')
    with s'_ok id c' show ?thesis by (fastforce simp: owns_id_def)
  qed
qed

section \<open>The transition system\<close>

text \<open>
  The steps: a call of \<open>mqtt_client_subscribe\<close>, \<open>mqtt_client_publish\<close> or
  \<open>client_deamon_create\<close> by the application, the deamon's wait for events, and its handlers. The
  descriptors \<open>fds\<close> are those the deamon was started with. The step of \<open>client_deamon_create\<close>
  leads to the state it returns in, with an error, or in which the thread begins to run; it never
  returns from the wait for the thread.
\<close>

type_synonym client_state = "mqtt_client_t \<times> sys"

definition context_of :: "int \<times> int \<times> int \<Rightarrow> mqtt_client_t \<Rightarrow> deamon_context_t" where
  "context_of fds cl = (case fds of (sock, timer, epoll) \<Rightarrow>
     \<lparr>dc_client = cl, dc_sock_fd = sock, dc_timer_fd = timer, dc_epoll_fd = epoll\<rparr>)"

text \<open>Starting the deamon makes calls and uses one block of its own.\<close>

lemma call_sys_buffer: "sy_buffer (snd (call_sys c s)) = sy_buffer s"
  by (simp add: call_sys_def split_beta)

lemma aside_call_sys [simp]:
  "aside s0 s \<Longrightarrow> lock_depth [c] = 0 \<Longrightarrow> aside s0 (snd (call_sys c s))"
  using lock_free_calls_cons [of "sy_os (snd (call_sys c s))" c "sy_os s"] lock_free_calls_trans
  by (auto simp: aside_def call_sys_state call_sys_buffer)

lemma deamon_launch_aside:
  assumes "heap_ok (sy_heap s)" and "deamon_launch cl ph s = Inr (r, started, s')"
  shows "aside s s'"
proof -
  have start: "aside s s" using assms(1) by (simp add: aside_def untouched_refl lock_free_calls_refl)
  have timer: "aside s (snd (init_global_timer t s1))" if "aside s s1" for t s1
    using that by (simp add: init_global_timer_def Let_def split_beta)
  have "aside s (snd (snd (deamon_start cl a b c s1)))" if "aside s s1" for a b c s1
    using that by (simp add: deamon_start_def Let_def split_beta)
  with timer have descriptors: "aside s (snd (snd (deamon_descriptors cl s1)))" if "aside s s1" for s1
    using that by (simp add: deamon_descriptors_def close_descriptors_def Let_def split_beta)
  obtain p h where m: "malloc (junk_bytes (sy_heap s) 24) (sy_heap s) = (p, h)" by fastforce
  have u: "untouched (fresh (sy_heap s)) (sy_heap s) h" "young (fresh (sy_heap s)) p"
    using untouched_malloc [OF _ m] start by (auto simp: aside_def)
  then have h: "aside s (s\<lparr>sy_heap := h\<rparr>)" using aside_heap [OF start] by simp
  let ?d = "snd (snd (deamon_descriptors cl (s\<lparr>sy_heap := h\<rparr>)))"
  have "s' = s \<or> s' = s\<lparr>sy_heap := h\<rparr> \<or> s' = ?d \<or> (\<exists>h'. free p (sy_heap ?d) = Inr h' \<and> s' = ?d\<lparr>sy_heap := h'\<rparr>)"
    using assms(2) m by (auto simp: deamon_launch_def Let_def fbind_eq_Inr split_beta split: if_splits option.splits)
  then show ?thesis
  proof (elim disjE exE conjE)
    fix h' assume h': "free p (sy_heap ?d) = Inr h'" "s' = ?d\<lparr>sy_heap := h'\<rparr>"
    show ?thesis
      unfolding h'(2) by (rule aside_heap [OF descriptors [OF h] untouched_free [OF _ u(2) h'(1)]])
        (use descriptors [OF h] in \<open>simp add: aside_def\<close>)
  qed (use start h descriptors in simp_all)
qed

inductive client_step :: "callbacks \<Rightarrow> int \<times> int \<times> int \<Rightarrow> client_state \<Rightarrow> client_state \<Rightarrow> bool" for cb fds where
  subscribe: "mqtt_client_subscribe (Some cl) topic n qos s = Some (Inr (ret, Some cl', s')) \<Longrightarrow>
     client_step cb fds (cl, s) (cl', s')"
| publish: "mqtt_client_publish (Some cl) topic n payload k qos s = (ret, s') \<Longrightarrow> client_step cb fds (cl, s) (cl, s')"
| deamon: "deamon_launch cl ph s = Inr (r, started, s') \<Longrightarrow> client_step cb fds (cl, s) (cl, s')"
| waited: "epoll_wait (dc_epoll_fd (context_of fds cl)) s = (reply, s') \<Longrightarrow> client_step cb fds (cl, s) (cl, s')"
| socket: "process_socket_event (context_of fds cl) cb s = Some (Inr (r, s')) \<Longrightarrow> client_step cb fds (cl, s) (cl, s')"
| timer: "process_timer_event (context_of fds cl) cb s = Some (Inr (r, s')) \<Longrightarrow> client_step cb fds (cl, s) (cl, s')"

inductive_cases client_stepE: "client_step cb fds st st'"

inductive client_reaches :: "callbacks \<Rightarrow> int \<times> int \<times> int \<Rightarrow> client_state \<Rightarrow> client_state \<Rightarrow> bool" for cb fds st where
  start: "client_reaches cb fds st st"
| step: "client_reaches cb fds st st1 \<Longrightarrow> client_step cb fds st1 st2 \<Longrightarrow> client_reaches cb fds st st2"

definition client_ok :: "(nat \<rightharpoonup> u8 list) \<Rightarrow> client_state \<Rightarrow> bool" where
  "client_ok K st \<longleftrightarrow> mc_packet_id_next (fst st) \<noteq> 0 \<and> sys_ok K 0 (snd st)"

lemma epoll_wait_ok:
  assumes "sys_ok K d s" and "epoll_wait fd s = (reply, s')"
  shows "sys_ok K d s'"
proof (rule sys_ok_calls [OF assms(1), where calls = "[Epoll_Wait fd]"])
  have s': "s' = snd (epoll_wait fd s)" using assms(2) by simp
  show "sy_heap s' = sy_heap s" "sy_send_list s' = sy_send_list s" "trace (sy_os s') = [Epoll_Wait fd] @ trace (sy_os s)"
    "length (sy_buffer s') = length (sy_buffer s)"
    by (simp_all add: s' epoll_wait_def Let_def split: sum.splits)
  then show "depth s' = d" using assms(1) by (simp add: sys_ok_def)
qed

context application
begin

lemma client_step_ok:
  assumes "client_step cb fds st st'" and "client_ok K st"
  shows "client_ok K st'"
  using assms(1,2)
proof cases
  case (subscribe cl topic n qos s ret cl' s')
  with assms(2) mqtt_client_subscribe_ok [of K 0 s cl topic n qos ret "Some cl'" s'] show ?thesis by (simp add: client_ok_def)
next
  case (publish cl topic n payload k qos s ret s')
  then have "s' = s" by (auto simp: mqtt_client_publish_def split: if_splits)
  with publish assms(2) show ?thesis by simp
next
  case (deamon cl ph s r started s')
  with assms(2) have "heap_ok (sy_heap s)" by (auto simp: client_ok_def sys_ok_def queue_def)
  from deamon_launch_aside [OF this deamon(3)] deamon assms(2) aside_sys_ok [of K 0 s s']
  show ?thesis by (simp add: client_ok_def)
next
  case (waited cl s reply s')
  with assms(2) epoll_wait_ok [of K 0 s] show ?thesis by (simp add: client_ok_def)
next
  case (socket cl s r s')
  with assms(2) process_socket_event_ok [of K 0 s] show ?thesis by (simp add: client_ok_def)
next
  case (timer cl s r s')
  with assms(2) process_timer_event_ok [of K 0 s] show ?thesis by (simp add: client_ok_def)
qed

lemma client_reaches_ok: "client_reaches cb fds st st' \<Longrightarrow> client_ok K st \<Longrightarrow> client_ok K st'"
  by (induction rule: client_reaches.induct) (auto intro: client_step_ok)

end

text \<open>No step changes the client's identifier.\<close>

lemma client_reaches_id:
  "client_reaches cb fds st st' \<Longrightarrow>
   mc_client_id (fst st') = mc_client_id (fst st) \<and> mc_client_id_len (fst st') = mc_client_id_len (fst st)"
proof (induction rule: client_reaches.induct)
  case (step st1 st2)
  from step(2) have "mc_client_id (fst st2) = mc_client_id (fst st1) \<and> mc_client_id_len (fst st2) = mc_client_id_len (fst st1)"
    by cases (auto dest: mqtt_client_subscribe_client split: if_splits)
  with step.IH show ?case by simp
qed simp

text \<open>
  The state before the program's first call: no message waits, the lock is free, and the global
  buffer has the size of its declaration.
\<close>

definition initial :: "sys \<Rightarrow> bool" where
  "initial s \<longleftrightarrow> heap_ok (sy_heap s) \<and> sy_send_list s = NULL \<and> depth s = 0 \<and> length (sy_buffer s) = BUFFER_SIZE"

lemma initial_ok: "initial s \<Longrightarrow> sys_ok Map.empty 0 s"
  by (auto simp: initial_def sys_ok_def queue_def keeps_blocks_def intro!: exI [of _ "[] :: packet list"])

text \<open>What holds in each state of a session that was opened from the initial state.\<close>

lemma session_state:
  assumes "callbacks_good cb" and "initial s0"
    and create: "mqtt_client_create jl (Some cl0) (Some cf) s0 = Some (Inr (MQTT_SUCCESS, Some cl1, cf1, s1))"
    and run: "client_reaches cb fds (cl1, s1) (cl2, s2)"
  shows "\<exists>a bs. mc_client_id cl2 = Addr a \<and> mc_client_id_len cl2 = cf_client_id_len cf \<and>
     rd_ptr (cf_client_id cf) (unat (cf_client_id_len cf)) = Inr bs \<and> client_ok [a \<mapsto> bs] (cl2, s2)"
proof -
  from mqtt_client_create_ok [OF initial_ok [OF assms(2)] create] obtain a bs
    where id: "owns_id cf cl1 a bs" and ok: "sys_ok [a \<mapsto> bs] 0 s1" by auto
  have "client_ok [a \<mapsto> bs] (cl2, s2)"
    by (rule application.client_reaches_ok [OF application.intro [OF assms(1)] run])
      (use id ok in \<open>simp add: client_ok_def owns_id_def\<close>)
  with client_reaches_id [OF run] id show ?thesis by (auto simp: owns_id_def)
qed

lemma mqtt_client_destroy_releases:
  assumes "sys_ok [a \<mapsto> bs] d s" and "mc_client_id cl = Addr a" and "mc_client_id_len cl \<noteq> 0"
  shows "\<exists>r s'. mqtt_client_destroy cl s = Inr (r, cl\<lparr>mc_client_id := NULL\<rparr>, s') \<and>
     live (sy_heap s') = live (sy_heap s) - {a} \<and> trace (sy_os s') = Close (socket_fd (mc_conn cl)) # trace (sy_os s)"
proof -
  have "map_of (cells (sy_heap s)) a = Some (Bytes bs)" using assms(1) by (simp add: sys_ok_def keeps_blocks_def)
  moreover have "0 < mc_client_id_len cl" using assms(3) by (simp add: word_neq_0_conv)
  ultimately show ?thesis
    using assms(2) by (simp add: mqtt_client_destroy_def free_live network_close_def split_beta)
qed

section \<open>An example session\<close>

text \<open>A client without data, a broker that accepts, and a subscription to the topic "a/b".\<close>

definition example_client :: mqtt_client_t where
  "example_client = \<lparr>mc_state = MQTT_CLIENT_STATE_DISCONNECTED, mc_conn = \<lparr>socket_fd = 0\<rparr>, mc_keep_alive = 0, mc_timeout_sec = 0,
      mc_client_id = NULL, mc_client_id_len = 0, mc_sp = 0, mc_packet_id_next = 0\<rparr>"

definition example_config :: mqtt_client_config_t where
  "example_config = \<lparr>cf_hostname = [49], cf_port = 1883, cf_keep_alive = 9, cf_clean_session = 1, cf_will_retain = 0, cf_will_qos = 0,
      cf_client_id = Some [97], cf_client_id_len = 1, cf_username = None, cf_username_len = 0, cf_password = None, cf_password_len = 0,
      cf_will_topic = None, cf_will_topic_len = 0, cf_will_msg = None, cf_will_msg_len = 0\<rparr>"

definition example_start :: sys where
  "example_start = \<lparr>sy_heap = \<lparr>cells = [], fresh = 0, oom = \<lambda>_. False, junk = \<lambda>_. 0\<rparr>,
      sy_os = \<lparr>trace = [], errno = 0, int_reply = \<lambda>t. Inr (if t = [Socket] then 3 else if t = [Inet_pton [49], Socket] then 1 else 0),
        recv_reply = \<lambda>_. Inr (connack_bytes True 0), wait_reply = \<lambda>_. Inr []\<rparr>,
      sy_keep_alive_timestamp = 0, sy_send_list = NULL, sy_buffer = replicate BUFFER_SIZE 0\<rparr>"

lemma example_initial: "initial example_start"
  by (simp add: initial_def example_start_def heap_ok_def live_def)

lemma example_session:
  "\<exists>cl1 s1 cl2 s2. mqtt_client_create 1 (Some example_client) (Some example_config) example_start =
       Some (Inr (MQTT_SUCCESS, Some cl1, Some example_config, s1)) \<and>
     client_reaches callbacks_default fds (cl1, s1) (cl2, s2) \<and> sy_send_list s2 \<noteq> NULL"
proof -
  from mqtt_client_create_accepted [of example_config example_start 3 0 1 True example_client] obtain cl1 s1
    where create: "mqtt_client_create 1 (Some example_client) (Some example_config) example_start =
       Some (Inr (MQTT_SUCCESS, Some cl1, Some example_config, s1))"
      and s1: "trace (sy_os s1) \<noteq> []" "heap_ok (sy_heap s1)" "\<forall>i. \<not> oom (sy_heap s1) i" "sy_send_list s1 = NULL"
        "int_reply (sy_os s1) = int_reply (sy_os example_start)"
    by (auto simp: example_start_def example_config_def payload_complete_def field_complete_def conn_payload_of_def heap_ok_def live_def)
  have "queue (sy_heap s1) (sy_send_list s1) []" using s1(2,4) by (simp add: queue_def)
  from mqtt_client_subscribe_accepted [of 3 "[97, 47, 98]" 1 s1 "[]" cl1 0, OF _ _ _ this s1(3)] obtain cl2 s2 q
    where "mqtt_client_subscribe (Some cl1) (Some [97, 47, 98]) 3 1 s1 = Some (Inr (MQTT_SUCCESS, Some cl2, s2))"
      and q: "queue (sy_heap s2) (sy_send_list s2) [q]"
    using s1(5) by (auto simp: example_start_def)
  then have "client_reaches callbacks_default fds (cl1, s1) (cl2, s2)"
    by (intro client_reaches.step [OF client_reaches.start] client_step.subscribe)
  moreover have "sy_send_list s2 \<noteq> NULL" using q by (auto simp: queue_def)
  ultimately show ?thesis using create by blast
qed

section \<open>Properties\<close>

text \<open>
  C2. The invariant of a session. From the start of the program, whatever memory, network, peer
  and clock do, whatever the application calls and with callbacks that leave the client's memory
  and lock alone: once \<open>mqtt_client_create\<close> has succeeded, in every state that subscriptions,
  publications, the start of the deamon and the deamon's events lead to, the next packet
  identifier is not 0, the lock is free, and the global list is a well-formed queue in which every
  packet has an identifier other than 0 and was handed to the network before.
\<close>

theorem session_invariant:
  assumes "callbacks_good cb" and "initial s0"
    and "mqtt_client_create jl (Some cl0) (Some cf) s0 = Some (Inr (MQTT_SUCCESS, Some cl1, cf1, s1))"
    and "client_reaches cb fds (cl1, s1) (cl2, s2)"
  shows "mc_packet_id_next cl2 \<noteq> 0 \<and> depth s2 = 0 \<and>
     (\<exists>qs. queue (sy_heap s2) (sy_send_list s2) qs \<and>
        (\<forall>(i, m, q) \<in> set qs. i \<noteq> 0 \<and> (\<exists>fd. Send fd m \<in> set (trace (sy_os s2)))))"
  using session_state [OF assms]
  by (fastforce simp: client_ok_def sys_ok_def was_sent_def list_all_iff)

theorem session_invariant_witness:
  "\<exists>cl1 s1 cl2 s2. mqtt_client_create 1 (Some example_client) (Some example_config) example_start =
       Some (Inr (MQTT_SUCCESS, Some cl1, Some example_config, s1)) \<and>
     client_reaches callbacks_default (0, 7, 8) (cl1, s1) (cl2, s2) \<and> sy_send_list s2 \<noteq> NULL \<and>
     mc_packet_id_next cl2 \<noteq> 0 \<and> depth s2 = 0 \<and>
     (\<exists>qs. queue (sy_heap s2) (sy_send_list s2) qs \<and>
        (\<forall>(i, m, q) \<in> set qs. i \<noteq> 0 \<and> (\<exists>fd. Send fd m \<in> set (trace (sy_os s2)))))"
proof -
  obtain cl1 s1 cl2 s2
    where e: "mqtt_client_create 1 (Some example_client) (Some example_config) example_start =
       Some (Inr (MQTT_SUCCESS, Some cl1, Some example_config, s1))"
      "client_reaches callbacks_default (0, 7, 8) (cl1, s1) (cl2, s2)" "sy_send_list s2 \<noteq> NULL"
    using example_session [of "(0, 7, 8)"] by metis
  from session_invariant [OF callbacks_default_good example_initial e(1,2)] e show ?thesis
    by (intro exI [of _ cl1] exI [of _ s1] exI [of _ cl2] exI [of _ s2]) (simp only: simp_thms)
qed

text \<open>
  C8. The client's identifier is owned by the client until it is released. When the session was
  opened with an identifier of at least one byte, then in every state of the session the client
  points to a live block with the identifier of the configuration, in spite of all the blocks
  other operations allocate and release; \<open>mqtt_client_destroy\<close> returns in that state, releases
  this block and no other, resets the pointer and closes the connection, and a second call
  releases nothing. (So the queue of sent messages is not released. An empty identifier is
  left out: with a length of 0 the function does not release the block.)
\<close>

theorem session_identifier_released_once:
  assumes "callbacks_good cb" and "initial s0"
    and "mqtt_client_create jl (Some cl0) (Some cf) s0 = Some (Inr (MQTT_SUCCESS, Some cl1, cf1, s1))"
    and "client_reaches cb fds (cl1, s1) (cl2, s2)" and "cf_client_id_len cf \<noteq> 0"
  shows "\<exists>a r s3 r' s4. mc_client_id cl2 = Addr a \<and>
     load_bytes (Addr a) (sy_heap s2) = rd_ptr (cf_client_id cf) (unat (cf_client_id_len cf)) \<and>
     mqtt_client_destroy cl2 s2 = Inr (r, cl2\<lparr>mc_client_id := NULL\<rparr>, s3) \<and>
     live (sy_heap s3) = live (sy_heap s2) - {a} \<and>
     trace (sy_os s3) = Close (socket_fd (mc_conn cl2)) # trace (sy_os s2) \<and>
     mqtt_client_destroy (cl2\<lparr>mc_client_id := NULL\<rparr>) s3 = Inr (r', cl2\<lparr>mc_client_id := NULL\<rparr>, s4) \<and>
     sy_heap s4 = sy_heap s3"
proof -
  from session_state [OF assms(1-4)] obtain a bs where a: "mc_client_id cl2 = Addr a" "mc_client_id_len cl2 \<noteq> 0"
    "rd_ptr (cf_client_id cf) (unat (cf_client_id_len cf)) = Inr bs" "sys_ok [a \<mapsto> bs] 0 s2"
    using assms(5) by (auto simp: client_ok_def)
  from mqtt_client_destroy_releases [OF a(4,1,2)] obtain r s3
    where 3: "mqtt_client_destroy cl2 s2 = Inr (r, cl2\<lparr>mc_client_id := NULL\<rparr>, s3)" "live (sy_heap s3) = live (sy_heap s2) - {a}"
      "trace (sy_os s3) = Close (socket_fd (mc_conn cl2)) # trace (sy_os s2)" by blast
  obtain r' s4 where "mqtt_client_destroy (cl2\<lparr>mc_client_id := NULL\<rparr>) s3 = Inr (r', cl2\<lparr>mc_client_id := NULL\<rparr>, s4)" "sy_heap s4 = sy_heap s3"
    by (simp add: mqtt_client_destroy_def split_beta)
  moreover have "load_bytes (Addr a) (sy_heap s2) = Inr bs"
    using a(4) by (simp add: sys_ok_def keeps_blocks_def load_bytes_eq_Inr)
  ultimately show ?thesis using 3 a(1,3) by auto
qed

theorem session_identifier_released_once_witness:
  "\<exists>cl1 s1 cl2 s2 a r s3 r' s4. mqtt_client_create 1 (Some example_client) (Some example_config) example_start =
       Some (Inr (MQTT_SUCCESS, Some cl1, Some example_config, s1)) \<and>
     client_reaches callbacks_default (0, 7, 8) (cl1, s1) (cl2, s2) \<and> mc_client_id cl2 = Addr a \<and>
     load_bytes (Addr a) (sy_heap s2) = rd_ptr (cf_client_id example_config) (unat (cf_client_id_len example_config)) \<and>
     mqtt_client_destroy cl2 s2 = Inr (r, cl2\<lparr>mc_client_id := NULL\<rparr>, s3) \<and>
     live (sy_heap s3) = live (sy_heap s2) - {a} \<and>
     trace (sy_os s3) = Close (socket_fd (mc_conn cl2)) # trace (sy_os s2) \<and>
     mqtt_client_destroy (cl2\<lparr>mc_client_id := NULL\<rparr>) s3 = Inr (r', cl2\<lparr>mc_client_id := NULL\<rparr>, s4) \<and>
     sy_heap s4 = sy_heap s3"
proof -
  obtain cl1 s1 cl2 s2
    where e: "mqtt_client_create 1 (Some example_client) (Some example_config) example_start =
       Some (Inr (MQTT_SUCCESS, Some cl1, Some example_config, s1))"
      "client_reaches callbacks_default (0, 7, 8) (cl1, s1) (cl2, s2)" "sy_send_list s2 \<noteq> NULL"
    using example_session [of "(0, 7, 8)"] by metis
  have "cf_client_id_len example_config \<noteq> 0" by (simp add: example_config_def)
  from session_identifier_released_once [OF callbacks_default_good example_initial e(1,2) this] e(1,2) show ?thesis
    by (intro exI [of _ cl1] exI [of _ s1] exI [of _ cl2] exI [of _ s2]) (simp only: simp_thms)
qed

end
