(* ===== verification/Add_Race.thy ===== *)
theory Add_Race
  imports Message_Keep
begin

text \<open>
  client/message_keep.c with two threads: the application adds the message of a subscription
  while the deamon takes an acknowledged message out. Neither \<open>mqtt_client_subscribe\<close> nor the
  handlers of acknowledgements take the lock, so the removal can come between any two accesses to
  the list in \<open>message_send_add\<close>: behind the test that the list is not empty, in the loop that
  looks for its end, where the test \<^verbatim>\<open>curr->next != NULL\<close> and the step
  \<^verbatim>\<open>curr = curr->next\<close> are two reads, and between this loop and the assignment
  behind it. Here the function is cut at these points. The removal itself is one operation.
\<close>

section \<open>The parts of the addition\<close>

text \<open>The first part ends with a result, or with the node to look at and the new one.\<close>

datatype added = Done mqtt_ret "link option" | Found link link

definition add_start :: "link option \<Rightarrow> u16 \<Rightarrow> u8 list option \<Rightarrow> u32 \<Rightarrow> u8 \<Rightarrow> heap \<Rightarrow> (added \<times> heap) res" where
  "add_start list packet_id message message_len qos h =
     (case list of
        None \<Rightarrow> Inr (Done MQTT_INVALID_PARAM list, h)
      | Some head \<Rightarrow>
          let (node, h) = malloc (Msg zero_message) h
          in if node = NULL then Inr (Done MQTT_MEMORY_NOBUFFER list, h)
          else let (copy, h) = malloc (junk_bytes h (unat message_len)) h
          in if copy = NULL then fbind (free node h) (\<lambda>h. Inr (Done MQTT_MEMORY_NOBUFFER list, h))
          else fbind (fbind (case message of None \<Rightarrow> (if message_len = 0 then Inr [] else Inl Null_Deref)
                                   | Some p \<Rightarrow> rd_bytes p (unat message_len)) (\<lambda>bytes.
                            fbind (store copy (Bytes bytes) h) (\<lambda>h.
                            store node (Msg (zero_message\<lparr>ms_packet_id := packet_id, ms_message := copy, ms_len := message_len,
                                               ms_qos := qos, ms_next := NULL\<rparr>)) h))) (\<lambda>h.
               if head = NULL then Inr (Done MQTT_SUCCESS (Some node), h) else Inr (Found head node, h)))"

text \<open>
  The test and the step of the loop, and its first \<open>k\<close> turns (fewer, if the list ends before).
\<close>

definition loop_test :: "link \<Rightarrow> heap \<Rightarrow> bool res" where
  "loop_test cur h = fbind (load_msg cur h) (\<lambda>n. Inr (ms_next n \<noteq> NULL))"

definition loop_step :: "link \<Rightarrow> heap \<Rightarrow> link res" where
  "loop_step cur h = fbind (load_msg cur h) (\<lambda>n. Inr (ms_next n))"

primrec walk_steps :: "nat \<Rightarrow> link \<Rightarrow> heap \<Rightarrow> link res" where
  "walk_steps 0 cur h = Inr cur"
| "walk_steps (Suc k) cur h =
     fbind (loop_test cur h) (\<lambda>go. if go then fbind (loop_step cur h) (\<lambda>cur. walk_steps k cur h) else Inr cur)"

definition add_link :: "link \<Rightarrow> link \<Rightarrow> heap \<Rightarrow> heap res" where
  "add_link cur node h = fbind (load_msg cur h) (\<lambda>n. store cur (Msg (n\<lparr>ms_next := node\<rparr>)) h)"

text \<open>With nothing in between the parts are the function, wherever the loop is cut.\<close>

lemma last_node_test:
  "last_node cur h =
     obind (Some (loop_test cur h)) (\<lambda>go. if go then obind (Some (loop_step cur h)) (\<lambda>cur. last_node cur h) else Some (Inr cur))"
  by (cases "load_msg cur h") (simp_all add: loop_test_def loop_step_def last_node.simps [of cur])

lemma last_node_steps: "obind (Some (walk_steps k cur h)) (\<lambda>cur. last_node cur h) = last_node cur h"
proof (induction k arbitrary: cur)
  case (Suc k)
  show ?case
  proof (cases "load_msg cur h")
    case (Inr n)
    with Suc [of "ms_next n"] show ?thesis
      by (cases "ms_next n = NULL") (simp_all add: last_node.simps [of cur] loop_test_def loop_step_def)
  qed (simp add: last_node.simps [of cur] loop_test_def)
qed simp

lemma message_send_add_parts:
  "message_send_add list i m n q h =
     obind (Some (add_start list i m n q h)) (\<lambda>(a, h). case a of
       Done ret list' \<Rightarrow> Some (Inr (ret, list', h))
     | Found head node \<Rightarrow> obind (Some (walk_steps k head h)) (\<lambda>cur. obind (last_node cur h) (\<lambda>cur.
         obind (Some (add_link cur node h)) (\<lambda>h. Some (Inr (MQTT_SUCCESS, list, h))))))"
proof (cases list)
  case (Some head)
  obtain node h1 where 1: "malloc (Msg zero_message) h = (node, h1)" by fastforce
  obtain copy h2 where 2: "malloc (junk_bytes h1 (unat n)) h1 = (copy, h2)" by fastforce
  note step = message_send_add_def add_start_def Some Let_def 1 2 option.case prod.case added.case
  have cut: "obind (Some (walk_steps k head h)) (\<lambda>cur. obind (last_node cur h) f) = obind (last_node head h) f" for h and f :: "link \<Rightarrow> 'x outcome"
    by (simp only: obind_assoc [symmetric] last_node_steps)
  show ?thesis
  proof (cases "node = NULL \<or> copy = NULL")
    case True
    then show ?thesis unfolding step by (cases "node = NULL"; cases "free node h2") simp_all
  next
    case False
    then show ?thesis
      unfolding step
      by (simp add: obind_assoc obind_fbind obind_if obind_Some_if obind_Inr cut add_link_def del: obind.simps cong: if_cong)
  qed
qed (simp add: message_send_add_def add_start_def)

section \<open>The parts on a queue\<close>

lemma add_start_found:
  assumes as: "send_list h p as qs" and ok: "heap_ok h" and "qs \<noteq> []" and n: "unat n = length bytes"
    and oom: "\<forall>k. \<not> oom h k"
  shows "add_start (Some p) j (Some (bytes @ rest)) n q h = Inr (Found p (Addr (fresh h)), filled j bytes n q h)"
proof -
  have p: "p \<noteq> NULL" using as assms(3) by auto
  then show ?thesis
    using oom n
    by (simp add: add_start_def malloc_def Let_def rd_bytes_append store_def load_Addr junk_bytes_def filled_def new_node_def)
qed

lemma walk_steps_at:
  "send_list h p as qs \<Longrightarrow> k < length as \<Longrightarrow> walk_steps k p h = Inr (Addr (as ! k))"
proof (induction k arbitrary: p as qs)
  case 0
  then show ?case by (cases as; cases qs) (auto simp: send_list_def)
next
  case (Suc k)
  then obtain a bs r rs where c: "as = a # bs" "qs = r # rs" by (cases as; cases qs) (auto simp: send_list_def)
  with Suc.prems obtain n where n: "p = Addr a" "map_of (cells h) a = Some (Msg n)" "send_list h (ms_next n) bs rs"
    by (auto simp: send_list_Cons)
  have "bs \<noteq> []" using Suc.prems(2) by (auto simp: c)
  then have "ms_next n \<noteq> NULL" using n(3) by auto
  with Suc n show ?case by (simp add: c load_msg_def load_Addr loop_test_def loop_step_def)
qed

lemma last_node_from:
  "send_list h p as qs \<Longrightarrow> c \<in> set as \<Longrightarrow> last_node (Addr c) h = Some (Inr (Addr (last as)))"
proof (induction as arbitrary: p qs)
  case (Cons a as)
  then obtain r rs where qs: "qs = r # rs" by (cases qs) (auto simp: send_list_def)
  with Cons.prems obtain n :: message_send_t where n: "p = Addr a" "send_list h (ms_next n) as rs" by (auto simp: send_list_Cons)
  show ?case
  proof (cases "c = a")
    case True
    with Cons.prems(1) n(1) show ?thesis by (simp add: last_node_eq)
  next
    case False
    with Cons.prems(2) have "c \<in> set as" by simp
    with Cons.IH [OF n(2) this] show ?thesis by auto
  qed
qed simp

lemma next_in_list:
  "send_list h p as qs \<Longrightarrow> c \<in> set as \<Longrightarrow>
   \<exists>n. map_of (cells h) c = Some (Msg n) \<and>
     (if c = last as then ms_next n = NULL else \<exists>d \<in> set as. ms_next n = Addr d)"
proof (induction as arbitrary: p qs)
  case (Cons a as)
  then obtain r rs where qs: "qs = r # rs" by (cases qs) (auto simp: send_list_def)
  with Cons.prems obtain n :: message_send_t where n: "map_of (cells h) a = Some (Msg n)" "send_list h (ms_next n) as rs" "a \<notin> set as"
    by (auto simp: send_list_Cons)
  show ?case
  proof (cases "as = []")
    case True
    with Cons.prems(2) n show ?thesis by simp
  next
    case False
    then obtain b bs where as: "as = b # bs" by (cases as) auto
    then have b: "ms_next n = Addr b" using n(2) by (cases rs) (auto simp: send_list_Cons)
    show ?thesis
    proof (cases "c = a")
      case True
      moreover have "last as \<noteq> a" using n(3) False last_in_set by metis
      ultimately show ?thesis using n(1) b False as by auto
    next
      case False
      with Cons.prems(2) Cons.IH [OF n(2)] \<open>as \<noteq> []\<close> show ?thesis by (auto split: if_splits)
    qed
  qed
qed simp

lemma add_link_last:
  assumes as: "send_list h p as qs" and ok: "heap_ok h" and "as \<noteq> []" and "holds h k new"
    and "map_of (cells h) k = Some (Msg m)" and "ms_next m = NULL" and "k \<notin> set as"
  shows "\<exists>h'. add_link (Addr (last as)) (Addr k) h = Inr h' \<and> queue h' p (qs @ [new])"
proof -
  obtain n where n: "map_of (cells h) (last as) = Some (Msg n)"
    using send_list_live [OF as last_in_set [OF assms(3)]] by blast
  let ?h = "h\<lparr>cells := AList.update (last as) (Msg (n\<lparr>ms_next := Addr k\<rparr>)) (cells h)\<rparr>"
  have "p \<noteq> NULL" using as assms(3) by auto
  then have "send_list ?h p (as @ [k]) (qs @ [new])" using send_list_link [OF as _ assms(4-7)] n by blast
  moreover have "heap_ok ?h" using n by (intro heap_ok_update [OF ok]) (simp add: live_iff)
  moreover have "add_link (Addr (last as)) (Addr k) h = Inr ?h"
    using n store_live [OF n] by (simp add: add_link_def load_msg_def load_Addr)
  ultimately show ?thesis by (auto simp: queue_def)
qed

text \<open>After the first part a removal works on the old queue and leaves the new node alone.\<close>

lemma removed_after_start:
  assumes as: "send_list h p as qs" and ok: "heap_ok h" and "qs \<noteq> []" and n: "unat n = length bytes"
  obtains p' h2 where "message_send_remove (Some p) i (filled j bytes n q h) =
       Some (Inr (if i \<in> fst ` set qs then MQTT_SUCCESS else MQTT_UNKNOWN, Some p', h2))"
    and "send_list h2 p' (without i qs as) (remove_packet i qs)" and "heap_ok h2"
    and "\<forall>k. taken_at i k qs \<longrightarrow> as ! k \<notin> live h2" and "holds h2 (fresh h) (j, bytes, q)"
    and "map_of (cells h2) (fresh h) = Some (Msg (new_node j n q h))"
proof -
  let ?h = "filled j bytes n q h"
  note f = filled_ok [OF as ok n, of j q]
  from message_send_remove_at [OF f(3,1) assms(3), of i] obtain p' h2 as'
    where r: "message_send_remove (Some p) i ?h = Some (Inr (if i \<in> fst ` set qs then MQTT_SUCCESS else MQTT_UNKNOWN, Some p', h2))"
      "send_list h2 p' as' (remove_packet i qs)" "heap_ok h2" "keeps_bytes ?h h2"
      "\<forall>b. b \<notin> set as \<longrightarrow> map_of (cells h2) b = map_of (cells ?h) b"
      "as' = without i qs as" "\<forall>k. taken_at i k qs \<longrightarrow> as ! k \<notin> live h2" by blast
  have new: "map_of (cells h2) (fresh h) = map_of (cells ?h) (fresh h)" using r(5) send_list_fresh [OF as ok] by blast
  show thesis
    by (rule that [OF r(1) r(2) [unfolded r(6)] r(3,7) holds_cong [OF f(4) new r(4)]])
      (use new in \<open>simp add: filled_def new_node_def\<close>)
qed

text \<open>
  The loop ends at \<open>tip\<close>, and the assignment behind it makes the list at \<open>p\<close> the queue \<open>qs\<close>.
\<close>

definition finishes :: "link outcome \<Rightarrow> link \<Rightarrow> heap \<Rightarrow> link \<Rightarrow> packet list \<Rightarrow> bool" where
  "finishes m node h p qs \<longleftrightarrow> (\<exists>tip h'. m = Some (Inr tip) \<and> add_link tip node h = Inr h' \<and> queue h' p qs)"

lemma finishes_from:
  assumes "send_list h p as qs" and "heap_ok h" and "c \<in> set as" and "holds h k new"
    and "map_of (cells h) k = Some (Msg m)" and "ms_next m = NULL" and "k \<notin> set as"
  shows "finishes (last_node (Addr c) h) (Addr k) h p (qs @ [new])"
    and "c = last as \<Longrightarrow> finishes (Some (Inr (Addr c))) (Addr k) h p (qs @ [new])"
proof -
  have "as \<noteq> []" using assms(3) by auto
  from add_link_last [OF assms(1,2) this assms(4-7)] last_node_from [OF assms(1,3)]
  show "finishes (last_node (Addr c) h) (Addr k) h p (qs @ [new])"
    and "c = last as \<Longrightarrow> finishes (Some (Inr (Addr c))) (Addr k) h p (qs @ [new])"
    by (auto simp: finishes_def)
qed

text \<open>
  The list after the removal, for a thread that is at its head or at the node \<open>c\<close> of the place
  \<open>k\<close> with the new node ready.
\<close>

lemma resumed:
  assumes as: "send_list h2 p' (without i qs as) (remove_packet i qs)" and ok: "heap_ok h2"
    and len: "length as = length qs" and k: "k < length qs" and dist: "distinct as"
    and gone: "\<forall>k. taken_at i k qs \<longrightarrow> as ! k \<notin> live h2"
    and new: "holds h2 a new" "map_of (cells h2) a = Some (Msg m)" "ms_next m = NULL" "a \<notin> set as"
  defines "c \<equiv> as ! k" and "qs' \<equiv> remove_packet i qs @ [new]"
  shows "if remove_packet i qs = [] then p' = NULL else finishes (last_node p' h2) (Addr a) h2 p' qs'"
    and "taken_at i k qs \<Longrightarrow> load_msg (Addr c) h2 = Inl Bad_Pointer"
    and "\<not> taken_at i k qs \<Longrightarrow> finishes (last_node (Addr c) h2) (Addr a) h2 p' qs'"
    and "\<not> taken_at i k qs \<Longrightarrow> Suc k = length qs \<Longrightarrow> finishes (Some (Inr (Addr c))) (Addr a) h2 p' qs'"
    and "\<not> taken_at i k qs \<Longrightarrow> Suc k < length qs \<Longrightarrow> \<exists>nx. loop_step (Addr c) h2 = Inr nx \<and>
      (if taken_at i (Suc k) qs \<and> Suc (Suc k) = length qs then nx = NULL else finishes (last_node nx h2) (Addr a) h2 p' qs')"
proof -
  let ?w = "without i qs as"
  have a: "a \<notin> set ?w" using set_without new(4) by blast
  note fin = finishes_from [OF as ok _ new(1-3) a, folded qs'_def]
  show "if remove_packet i qs = [] then p' = NULL else finishes (last_node p' h2) (Addr a) h2 p' qs'"
  proof (cases ?w)
    case (Cons b bs)
    then have "p' = Addr b" "remove_packet i qs \<noteq> []" using as by (cases "remove_packet i qs"; auto simp: send_list_Cons)+
    then show ?thesis using fin(1) [of b] Cons by simp
  qed (use as in simp)
  show "load_msg (Addr c) h2 = Inl Bad_Pointer" if "taken_at i k qs"
    using gone that by (simp add: load_msg_def load_Addr live_iff c_def)
  assume "\<not> taken_at i k qs"
  then have c: "c \<in> set ?w" using without_keeps [OF len k] by (simp add: c_def)
  show "finishes (last_node (Addr c) h2) (Addr a) h2 p' qs'" by (rule fin(1) [OF c])
  show "finishes (Some (Inr (Addr c))) (Addr a) h2 p' qs'" if last: "Suc k = length qs"
  proof (rule fin(2) [OF c])
    have "k = length qs - 1" "qs \<noteq> []" using last by auto
    moreover from this have "last as = as ! k" using len by (subst last_conv_nth) auto
    ultimately show "c = last ?w" using without_last [OF len, of i] \<open>\<not> taken_at i k qs\<close> by (simp add: c_def)
  qed
  assume more: "Suc k < length qs"
  from without_new_last [OF len dist more \<open>\<not> taken_at i k qs\<close>] next_in_list [OF as c] obtain n
    where n: "map_of (cells h2) c = Some (Msg n)" and
      nx: "if taken_at i (Suc k) qs \<and> Suc (Suc k) = length qs then ms_next n = NULL else \<exists>d \<in> set ?w. ms_next n = Addr d"
    by (auto simp: c_def split: if_splits)
  show "\<exists>nx. loop_step (Addr c) h2 = Inr nx \<and>
      (if taken_at i (Suc k) qs \<and> Suc (Suc k) = length qs then nx = NULL else finishes (last_node nx h2) (Addr a) h2 p' qs')"
    using n nx fin(1) by (intro exI [of _ "ms_next n"]) (auto simp: loop_step_def load_msg_def load_Addr)
qed

section \<open>Properties\<close>

text \<open>
  C11. What a removal in the middle of an addition does, for every queue that is not empty, every
  identifier and every point between two accesses of the addition to the list. The new node is
  ready when the removal comes; the removal, as one operation, is always as it should be. If the
  addition has seen that the list is not empty and not yet read its head, and the removal empties
  the list, the addition then reads through \<^verbatim>\<open>NULL\<close>. If the loop has made \<open>k\<close> steps and
  the removal takes out the node it is at, the addition then uses the node that was released,
  whether it goes on with the test or, the test being done, with the step or with the assignment
  behind the loop. If the test has found another node and the removal takes out this node and it
  was the last one, the step makes \<^verbatim>\<open>curr\<close> \<^verbatim>\<open>NULL\<close> and the next test reads
  through it. In all other cases the two operations do what they do one after the other: the
  queue is the one without the removed packet, with the new packet at the end.
\<close>

theorem removal_during_addition:
  assumes "queue h p qs" and "k < length qs" and "unat n = length bytes" and "\<forall>k. \<not> oom h k"
  shows "\<exists>cur node h1 p' h2. add_start (Some p) j (Some (bytes @ rest)) n q h = Inr (Found p node, h1) \<and>
     walk_steps k p h1 = Inr cur \<and> loop_test cur h1 = Inr (Suc k < length qs) \<and>
     message_send_remove (Some p) i h1 =
       Some (Inr (if i \<in> fst ` set qs then MQTT_SUCCESS else MQTT_UNKNOWN, Some p', h2)) \<and>
     queue h2 p' (remove_packet i qs) \<and>
     (if remove_packet i qs = [] then last_node p' h2 = Some (Inl Null_Deref)
      else finishes (last_node p' h2) node h2 p' (remove_packet i qs @ [(j, bytes, q)])) \<and>
     (if taken_at i k qs
      then last_node cur h2 = Some (Inl Bad_Pointer) \<and> loop_step cur h2 = Inl Bad_Pointer \<and> add_link cur node h2 = Inl Bad_Pointer
      else finishes (last_node cur h2) node h2 p' (remove_packet i qs @ [(j, bytes, q)]) \<and>
        (if Suc k = length qs then finishes (Some (Inr cur)) node h2 p' (remove_packet i qs @ [(j, bytes, q)])
         else \<exists>nx. loop_step cur h2 = Inr nx \<and>
           (if taken_at i (Suc k) qs \<and> Suc (Suc k) = length qs then last_node nx h2 = Some (Inl Null_Deref)
            else finishes (last_node nx h2) node h2 p' (remove_packet i qs @ [(j, bytes, q)]))))"
proof -
  from assms(1) obtain as where as: "send_list h p as qs" and ok: "heap_ok h" by (auto simp: queue_def)
  have len: "length as = length qs" by (rule send_list_length [OF as])
  have "qs \<noteq> []" using assms(2) by auto
  let ?h = "filled j bytes n q h" and ?c = "as ! k"
  note f = filled_ok [OF as ok assms(3), of j q]
  have start: "add_start (Some p) j (Some (bytes @ rest)) n q h = Inr (Found p (Addr (fresh h)), ?h)"
    by (rule add_start_found [OF as ok \<open>qs \<noteq> []\<close> assms(3,4)])
  have walk: "walk_steps k p ?h = Inr (Addr ?c)" using walk_steps_at [OF f(3)] assms(2) len by simp
  have dist: "distinct as" and c: "?c \<in> set as" using as assms(2) len by (simp_all add: send_list_def)
  have "as \<noteq> []" using c by auto
  then have "?c = last as \<longleftrightarrow> \<not> Suc k < length qs"
    using dist assms(2) len by (subst last_conv_nth) (auto simp: nth_eq_iff_index_eq)
  then have test: "loop_test (Addr ?c) ?h = Inr (Suc k < length qs)"
    using next_in_list [OF f(3) c] by (auto simp: loop_test_def load_msg_def load_Addr split: if_splits)
  obtain p' h2 where r: "message_send_remove (Some p) i ?h =
       Some (Inr (if i \<in> fst ` set qs then MQTT_SUCCESS else MQTT_UNKNOWN, Some p', h2))"
      "send_list h2 p' (without i qs as) (remove_packet i qs)" "heap_ok h2"
      "\<forall>k. taken_at i k qs \<longrightarrow> as ! k \<notin> live h2" "holds h2 (fresh h) (j, bytes, q)"
      "map_of (cells h2) (fresh h) = Some (Msg (new_node j n q h))"
    by (rule removed_after_start [OF as ok \<open>qs \<noteq> []\<close> assms(3)])
  have "ms_next (new_node j n q h) = NULL" by (simp add: new_node_def)
  note go = resumed [OF r(2,3) len assms(2) dist r(4,5,6) this send_list_fresh [OF as ok]]
  have null: "last_node NULL h2 = Some (Inl Null_Deref)" by (simp add: last_node.simps [of NULL] load_NULL)
  have more: "Suc k \<noteq> length qs \<Longrightarrow> Suc k < length qs" using assms(2) by simp
  show ?thesis
  proof (intro exI conjI)
    show "if remove_packet i qs = [] then last_node p' h2 = Some (Inl Null_Deref)
        else finishes (last_node p' h2) (Addr (fresh h)) h2 p' (remove_packet i qs @ [(j, bytes, q)])"
      using go(1) null by (auto split: if_splits)
    show "if taken_at i k qs
      then last_node (Addr ?c) h2 = Some (Inl Bad_Pointer) \<and> loop_step (Addr ?c) h2 = Inl Bad_Pointer \<and>
        add_link (Addr ?c) (Addr (fresh h)) h2 = Inl Bad_Pointer
      else finishes (last_node (Addr ?c) h2) (Addr (fresh h)) h2 p' (remove_packet i qs @ [(j, bytes, q)]) \<and>
        (if Suc k = length qs then finishes (Some (Inr (Addr ?c))) (Addr (fresh h)) h2 p' (remove_packet i qs @ [(j, bytes, q)])
         else \<exists>nx. loop_step (Addr ?c) h2 = Inr nx \<and>
           (if taken_at i (Suc k) qs \<and> Suc (Suc k) = length qs then last_node nx h2 = Some (Inl Null_Deref)
            else finishes (last_node nx h2) (Addr (fresh h)) h2 p' (remove_packet i qs @ [(j, bytes, q)])))"
    proof (cases "taken_at i k qs")
      case True
      from go(2) [OF True] show ?thesis
        using True by (simp add: last_node.simps [of "Addr ?c"] loop_step_def add_link_def)
    next
      case False
      with go(3-5) more null show ?thesis by (cases "Suc k = length qs") (auto split: if_splits)
    qed
  qed (use start walk test r(1-3) in \<open>auto simp: queue_def\<close>)
qed

text \<open>
  With the packets 3 and 4 in the queue: the loop is at the first node, has found the second one,
  and 4 is taken out.
\<close>

theorem removal_during_addition_witness:
  fixes h :: heap
  defines "h \<equiv> \<lparr>cells = [(0, Msg \<lparr>ms_packet_id = 3, ms_message = Addr 1, ms_len = 1, ms_qos = 1, ms_timestamp = 0, ms_next = Addr 2\<rparr>),
      (1, Bytes [9]), (2, Msg \<lparr>ms_packet_id = 4, ms_message = Addr 1, ms_len = 1, ms_qos = 0, ms_timestamp = 0, ms_next = NULL\<rparr>)],
      fresh = 3, oom = \<lambda>_. False, junk = \<lambda>_. 0\<rparr>"
  shows "\<exists>cur node h1 p' h2 nx. add_start (Some (Addr 0)) 5 (Some ([7, 8] @ [])) 2 1 h = Inr (Found (Addr 0) node, h1) \<and>
     walk_steps 0 (Addr 0) h1 = Inr cur \<and> loop_test cur h1 = Inr True \<and>
     message_send_remove (Some (Addr 0)) 4 h1 = Some (Inr (MQTT_SUCCESS, Some p', h2)) \<and>
     queue h2 p' [(3, [9], 1)] \<and> loop_step cur h2 = Inr nx \<and> last_node nx h2 = Some (Inl Null_Deref)"
proof -
  have "send_list h (Addr 0) [0, 2] [(3, [9], 1), (4, [9], 0)]"
    by (simp add: send_list_Cons holds_def h_def load_bytes_def load_Addr)
  then have q: "queue h (Addr 0) [(3, [9], 1), (4, [9], 0)]" by (auto simp: queue_def h_def heap_ok_def live_def)
  have "\<forall>k. \<not> oom h k" by (simp add: h_def)
  moreover have "0 < length [(3 :: u16, [9 :: u8], 1 :: u8), (4, [9], 0)]" "unat (2 :: u32) = length [7 :: u8, 8]" by simp_all
  ultimately show ?thesis
    using removal_during_addition [OF q, of 0 2 "[7, 8]" 5 "[]" 1 4] by simp blast
qed

end
