(* ===== verification/Log.thy ===== *)
theory Log
  imports Prelude
begin

text \<open>
  log/log.h and log/log.c: the level below which nothing is printed, the macros that print a line,
  and the dump of a byte buffer. What is printed is a string; the text of a message is taken as
  \<^verbatim>\<open>printf\<close> has formatted it.
\<close>

abbreviation (input) MQTT_LOG_LEVEL_DEBUG :: u32 where "MQTT_LOG_LEVEL_DEBUG \<equiv> 0"
abbreviation (input) MQTT_LOG_LEVEL_INFO :: u32 where "MQTT_LOG_LEVEL_INFO \<equiv> 1"
abbreviation (input) MQTT_LOG_LEVEL_WARN :: u32 where "MQTT_LOG_LEVEL_WARN \<equiv> 2"
abbreviation (input) MQTT_LOG_LEVEL_ERROR :: u32 where "MQTT_LOG_LEVEL_ERROR \<equiv> 3"
abbreviation (input) MQTT_LOG_LEVEL_FATAL :: u32 where "MQTT_LOG_LEVEL_FATAL \<equiv> 4"
abbreviation (input) MQTT_LOG_LEVEL_NONE :: u32 where "MQTT_LOG_LEVEL_NONE \<equiv> 5"

definition mqtt_log_level :: u32 where
  "mqtt_log_level = MQTT_LOG_LEVEL_DEBUG"

section \<open>Lines\<close>

text \<open>The library functions that are used: \<^verbatim>\<open>strrchr\<close>, and a number in decimal digits.\<close>

primrec strrchr :: "string \<Rightarrow> char \<Rightarrow> string option" where
  "strrchr [] c = None"
| "strrchr (x # s) c = (case strrchr s c of Some t \<Rightarrow> Some t | None \<Rightarrow> if x = c then Some (x # s) else None)"

definition digit :: "nat \<Rightarrow> char" where
  "digit n = ''0123456789ABCDEF'' ! n"

fun decimal :: "nat \<Rightarrow> string" where
  "decimal n = (if n < 10 then [digit n] else decimal (n div 10) @ [digit (n mod 10)])"

declare decimal.simps [simp del]

definition LOG_FILENAME :: "string \<Rightarrow> string" where
  "LOG_FILENAME file = (case strrchr file CHR ''/'' of Some t \<Rightarrow> drop 1 t | None \<Rightarrow> file)"

text \<open>\<open>threshold\<close> is the variable \<^verbatim>\<open>mqtt_log_level\<close>.\<close>

definition mqtt_log_printf :: "u32 \<Rightarrow> u32 \<Rightarrow> string \<Rightarrow> nat \<Rightarrow> string \<Rightarrow> string" where
  "mqtt_log_printf level threshold file line text =
     (if threshold \<le> level
      then ''[MQTT '' @ LOG_FILENAME file @ '':'' @ decimal line @ ''] '' @ text @ [CHR 0x0A] else [])"

definition mqtt_log_debug :: "u32 \<Rightarrow> string \<Rightarrow> nat \<Rightarrow> string \<Rightarrow> string" where
  "mqtt_log_debug = mqtt_log_printf MQTT_LOG_LEVEL_DEBUG"

definition mqtt_log_info :: "u32 \<Rightarrow> string \<Rightarrow> nat \<Rightarrow> string \<Rightarrow> string" where
  "mqtt_log_info = mqtt_log_printf MQTT_LOG_LEVEL_INFO"

definition mqtt_log_warn :: "u32 \<Rightarrow> string \<Rightarrow> nat \<Rightarrow> string \<Rightarrow> string" where
  "mqtt_log_warn = mqtt_log_printf MQTT_LOG_LEVEL_WARN"

definition mqtt_log_error :: "u32 \<Rightarrow> string \<Rightarrow> nat \<Rightarrow> string \<Rightarrow> string" where
  "mqtt_log_error = mqtt_log_printf MQTT_LOG_LEVEL_ERROR"

definition mqtt_log_fatal :: "u32 \<Rightarrow> string \<Rightarrow> nat \<Rightarrow> string \<Rightarrow> string" where
  "mqtt_log_fatal = mqtt_log_printf MQTT_LOG_LEVEL_FATAL"

section \<open>The dump\<close>

text \<open>The conversion \<^verbatim>\<open>%02X\<close> and the blank behind it.\<close>

definition hex_byte :: "u8 \<Rightarrow> string" where
  "hex_byte b = [digit (unat b div 16), digit (unat b mod 16), CHR '' '']"

text \<open>
  The counter is an \<^verbatim>\<open>int\<close>: adding 1 to its largest value is undefined. The length is
  the value of the macro's argument, of whatever integer type.
\<close>

abbreviation (input) INT_MAX :: int where "INT_MAX \<equiv> 2147483647"

definition int_succ :: "int \<Rightarrow> int res" where
  "int_succ i = (if i < INT_MAX then Inr (i + 1) else Inl Signed_Overflow)"

function hexdump_loop :: "u8 list \<Rightarrow> int \<Rightarrow> int \<Rightarrow> string \<Rightarrow> string res" where
  "hexdump_loop data n i out =
     (if i < n
      then fbind (rd data (nat i)) (\<lambda>b.
           fbind (int_succ i) (\<lambda>k.
           hexdump_loop data n k (out @ hex_byte b @ (if k mod 16 = 0 then [CHR 0x0A] else []))))
      else Inr out)"
  by pat_completeness auto
termination by (relation "measure (\<lambda>(_, n, i, _). nat (n - i))") (auto simp: int_succ_def split: if_splits)

declare hexdump_loop.simps [simp del]

definition mqtt_log_hexdump :: "u8 list \<Rightarrow> int \<Rightarrow> string res" where
  "mqtt_log_hexdump data n = fbind (hexdump_loop data n 0 []) (\<lambda>out. Inr (out @ [CHR 0x0A]))"

section \<open>Lemmas: names of files\<close>

lemma strrchr_None: "strrchr s c = None \<longleftrightarrow> c \<notin> set s"
  by (induction s) (auto split: option.splits)

lemma strrchr_Some: "strrchr s c = Some t \<Longrightarrow> \<exists>dir base. s = dir @ t \<and> t = c # base \<and> c \<notin> set base"
proof (induction s arbitrary: t)
  case (Cons x s)
  show ?case
  proof (cases "strrchr s c")
    case None
    with Cons.prems show ?thesis using strrchr_None [of s c] by (auto split: if_splits)
  next
    case (Some u)
    with Cons.prems have "u = t" by simp
    with Cons.IH [OF Some] show ?thesis by (metis append_Cons)
  qed
qed simp

lemma LOG_FILENAME_path: "CHR ''/'' \<notin> set base \<Longrightarrow> LOG_FILENAME (dir @ CHR ''/'' # base) = base"
proof -
  assume "CHR ''/'' \<notin> set base"
  then have "strrchr (dir @ CHR ''/'' # base) CHR ''/'' = Some (CHR ''/'' # base)"
    using strrchr_None [of base "CHR ''/''"] by (induction dir) simp_all
  then show ?thesis by (simp add: LOG_FILENAME_def)
qed

section \<open>Lemmas: the dump row by row\<close>

text \<open>The rows of at most 16 bytes, and how a row is printed.\<close>

fun rows :: "u8 list \<Rightarrow> u8 list list" where
  "rows [] = []"
| "rows (b # bs) = take 16 (b # bs) # rows (drop 16 (b # bs))"

definition row_text :: "u8 list \<Rightarrow> string" where
  "row_text r = concat (map hex_byte r) @ (if length r = 16 then [CHR 0x0A] else [])"

text \<open>The same text, byte by byte from number \<open>i\<close> on.\<close>

fun dump_from :: "nat \<Rightarrow> u8 list \<Rightarrow> string" where
  "dump_from i [] = []"
| "dump_from i (b # bs) = hex_byte b @ (if (i + 1) mod 16 = 0 then [CHR 0x0A] else []) @ dump_from (i + 1) bs"

lemma int_succ_of_nat: "i < 2147483647 \<Longrightarrow> int_succ (int i) = Inr (int (i + 1))"
  by (simp add: int_succ_def)

lemma int_mod_16: "int i mod 16 = 0 \<longleftrightarrow> i mod 16 = 0"
  by presburger

lemma hexdump_loop_step:
  assumes "int i < n" and "i < length data" and "i < 2147483647"
  shows "hexdump_loop data n (int i) out =
      hexdump_loop data n (int (i + 1)) (out @ hex_byte (data ! i) @ (if (i + 1) mod 16 = 0 then [CHR 0x0A] else []))"
  using assms int_mod_16 [of "i + 1"] int_succ_of_nat [OF assms(3)]
  by (subst hexdump_loop.simps) (simp add: rd_def)

lemma hexdump_loop_eq:
  "n \<le> length data \<Longrightarrow> n \<le> 2147483647 \<Longrightarrow>
   hexdump_loop data (int n) (int i) out = Inr (out @ dump_from i (drop i (take n data)))"
proof (induction "n - i" arbitrary: i out)
  case 0
  then show ?case by (subst hexdump_loop.simps) simp
next
  case (Suc d)
  then have i: "i < n" "i < length data" "i < 2147483647" by simp_all
  then have "drop i (take n data) = data ! i # drop (i + 1) (take n data)"
    by (simp add: Cons_nth_drop_Suc [symmetric])
  moreover have "d = n - (i + 1)" using Suc(2) by simp
  ultimately show ?case using Suc.hyps(1) [of "i + 1"] Suc.prems i by (simp add: hexdump_loop_step)
qed

lemma hexdump_loop_beyond:
  "i \<le> length data \<Longrightarrow> length data < n \<Longrightarrow> length data \<le> 2147483647 \<Longrightarrow>
   hexdump_loop data (int n) (int i) out = Inl Out_Of_Bounds"
proof (induction "length data - i" arbitrary: i out)
  case 0
  then show ?case by (subst hexdump_loop.simps) (simp add: rd_def)
next
  case (Suc d)
  then have "d = length data - (i + 1)" "i < length data" by simp_all
  with Suc.hyps(1) [of "i + 1"] Suc.prems show ?case by (simp add: hexdump_loop_step)
qed

text \<open>A dump of more than \<open>2\<^sup>3\<^sup>1 - 1\<close> bytes.\<close>

lemma hexdump_loop_overflow:
  "i \<le> 2147483647 \<Longrightarrow> 2147483647 < n \<Longrightarrow> 2147483647 < length data \<Longrightarrow>
   hexdump_loop data (int n) (int i) out = Inl Signed_Overflow"
proof (induction "2147483647 - i" arbitrary: i out)
  case 0
  then have "i = 2147483647" by simp
  with 0 show ?case by (subst hexdump_loop.simps) (simp add: rd_def int_succ_def)
next
  case (Suc d)
  then have "d = 2147483647 - (i + 1)" "i < 2147483647" by simp_all
  with Suc.hyps(1) [of "i + 1"] Suc.prems show ?case by (simp add: hexdump_loop_step)
qed

lemma dump_from_row:
  "i mod 16 + length r \<le> 16 \<Longrightarrow>
   dump_from i (r @ bs) =
     concat (map hex_byte r) @ (if r \<noteq> [] \<and> (i + length r) mod 16 = 0 then [CHR 0x0A] else []) @ dump_from (i + length r) bs"
proof (induction r arbitrary: i)
  case (Cons b r)
  show ?case
  proof (cases "r = []")
    case False
    then have "0 < length r" by simp
    with Cons.prems have "i mod 16 < 15" by (simp only: list.size)
    then have "(i + 1) mod 16 = i mod 16 + 1" by (simp add: mod_Suc)
    with Cons.IH [of "i + 1"] Cons.prems False show ?thesis by simp
  qed simp
qed simp

lemma dump_from_rows: "i mod 16 = 0 \<Longrightarrow> dump_from i bs = concat (map row_text (rows bs))"
proof (induction bs arbitrary: i rule: rows.induct)
  case (2 b bs)
  let ?r = "take 16 (b # bs)"
  have len: "length ?r \<le> 16" "0 < length ?r" by simp_all
  have "(i + length ?r) mod 16 = length ?r mod 16" using 2(2) mod_add_left_eq [of i 16 "length ?r"] by simp
  also have "length ?r mod 16 = 0 \<longleftrightarrow> length ?r = 16" using len by (cases "length ?r = 16") simp_all
  finally have full: "(i + length ?r) mod 16 = 0 \<longleftrightarrow> length ?r = 16" .
  from dump_from_row [of i ?r "drop 16 (b # bs)"] 2(2) len(1)
  have "dump_from i (b # bs) = row_text ?r @ dump_from (i + length ?r) (drop 16 (b # bs))"
    using full by (simp add: row_text_def)
  also have "dump_from (i + length ?r) (drop 16 (b # bs)) = concat (map row_text (rows (drop 16 (b # bs))))"
  proof (cases "length ?r = 16")
    case True
    with 2(1) [of "i + 16"] 2(2) show ?thesis by simp
  qed simp
  finally show ?case by simp
qed simp

section \<open>Properties\<close>

text \<open>
  C40. The dump of a buffer, for every buffer and every value of the length. A length of at most
  \<open>2\<^sup>3\<^sup>1 - 1\<close> that is within the buffer gives the text a reader expects: the same as the
  reference, which cuts the bytes into rows of 16 and prints each row as pairs of hexadecimal
  digits with a line break behind each full row and one at the end (no rows for a length that is
  not positive). With a length beyond a buffer of at most \<open>2\<^sup>3\<^sup>1 - 1\<close> bytes the macro reads out
  of bounds; in a longer buffer, which only an object of more than \<open>2\<^sup>3\<^sup>1 - 1\<close> bytes can be, its
  \<^verbatim>\<open>int\<close> counter overflows.
\<close>

theorem hexdump_equals_rows:
  "mqtt_log_hexdump data n =
     (if n \<le> int (length data) \<and> n \<le> 2147483647 then Inr (concat (map row_text (rows (take (nat n) data))) @ [CHR 0x0A])
      else if length data \<le> 2147483647 then Inl Out_Of_Bounds else Inl Signed_Overflow)"
proof (cases "n \<le> 0")
  case True
  then show ?thesis by (simp add: mqtt_log_hexdump_def hexdump_loop.simps [of data n 0])
next
  case False
  then obtain k where n: "n = int k" by (metis nonneg_int_cases linear)
  show ?thesis
    using hexdump_loop_eq [of k data 0 "[]"] hexdump_loop_beyond [of 0 data k "[]"] hexdump_loop_overflow [of 0 k data "[]"]
      dump_from_rows [of 0 "take k data"]
    by (auto simp: mqtt_log_hexdump_def n)
qed

text \<open>
  A line appears if and only if its level is not below the threshold, so that the level
  \<^verbatim>\<open>MQTT_LOG_LEVEL_NONE\<close> silences all five macros; it names the file without its
  directories.
\<close>

theorem log_lines:
  "(mqtt_log_printf level threshold file line text = [] \<longleftrightarrow> level < threshold) \<and>
   mqtt_log_debug MQTT_LOG_LEVEL_NONE file line text = [] \<and> mqtt_log_info MQTT_LOG_LEVEL_NONE file line text = [] \<and>
   mqtt_log_warn MQTT_LOG_LEVEL_NONE file line text = [] \<and> mqtt_log_error MQTT_LOG_LEVEL_NONE file line text = [] \<and>
   mqtt_log_fatal MQTT_LOG_LEVEL_NONE file line text = [] \<and>
   CHR ''/'' \<notin> set (LOG_FILENAME file) \<and> (\<exists>dir. file = dir @ LOG_FILENAME file)"
proof -
  have "CHR ''/'' \<notin> set (LOG_FILENAME file) \<and> (\<exists>dir. file = dir @ LOG_FILENAME file)"
  proof (cases "strrchr file CHR ''/''")
    case None
    then show ?thesis using strrchr_None [of "file" "CHR ''/''"] by (simp add: LOG_FILENAME_def)
  next
    case (Some t)
    from strrchr_Some [OF Some] obtain dir base where "file = dir @ t" "t = CHR ''/'' # base" "CHR ''/'' \<notin> set base" by blast
    then show ?thesis using Some by (auto simp: LOG_FILENAME_def intro!: exI [of _ "dir @ ''/''"])
  qed
  then show ?thesis
    by (auto simp: mqtt_log_printf_def mqtt_log_debug_def mqtt_log_info_def mqtt_log_warn_def mqtt_log_error_def mqtt_log_fatal_def
        word_le_nat_alt word_less_nat_alt)
qed

end
