(* ===== verification/Repository_Tests.thy ===== *)
theory Repository_Tests
  imports Msg_Ack Msg_Connack Msg_Connect Msg_Publish Msg_Subscribe Msg_Suback
begin

text \<open>
  The test programs of the repository (src/test), replayed on the model: the inputs are those of
  the tests, and each lemma says what the calls return. The tests of the remaining length,
  PUBACK, PUBLISH, SUBSCRIBE and SUBACK pass. The test of CONNACK reports a failure, since it
  expects the parser to accept a refusal; the test of CONNECT writes over the end of its buffer,
  which it computes without the length bytes of the fields.
\<close>

definition text_bytes :: "string \<Rightarrow> u8 list" where
  "text_bytes s = map (\<lambda>c. of_nat (of_char c)) s"

lemma length_text_bytes [simp]: "length (text_bytes s) = length s"
  by (simp add: text_bytes_def)

lemma text_bytes_Nil [simp]: "text_bytes s = [] \<longleftrightarrow> s = []"
  by (simp add: text_bytes_def)

section \<open>message\_test.c\<close>

text \<open>The table of the test: a length and the bytes it is encoded in.\<close>

definition length_table :: "(u32 \<times> u8 list) list" where
  "length_table = [(0, [0x00]), (127, [0x7F]), (128, [0x80, 0x01]), (16383, [0xFF, 0x7F]), (16384, [0x80, 0x80, 0x01]),
     (2097151, [0xFF, 0xFF, 0x7F]), (2097152, [0x80, 0x80, 0x80, 0x01]), (268435455, [0xFF, 0xFF, 0xFF, 0x7F])]"

lemma length_table_varint: "list_all (\<lambda>(len, bs). varint (unat len) = bs \<and> unat len < 268435456) length_table"
  by (simp add: length_table_def varint.simps)

lemma test_remain_length_encode:
  "list_all (\<lambda>(len, bs). remain_length_encode len (replicate 4 0) 0 =
      Inr (MQTT_SUCCESS, bs @ replicate (4 - length bs) 0, of_nat (length bs))) length_table"
proof -
  have "remain_length_encode len (replicate 4 0) 0 = Inr (MQTT_SUCCESS, varint (unat len) @ replicate (4 - length (varint (unat len))) 0,
      of_nat (length (varint (unat len))))" if "unat len < 268435456" for len
    using that length_varint_4 [of "unat len"] by (simp add: remain_length_encode_eq wr_bytes_at_0)
  with length_table_varint show ?thesis by (auto simp: list_all_iff)
qed

lemma test_remain_length_decode:
  "list_all (\<lambda>(len, bs). remain_length_decode (bs @ replicate (4 - length bs) 0) (of_nat (length bs)) =
      Inr (MQTT_SUCCESS, of_nat (length bs), len)) length_table"
proof -
  have "remain_length_decode (varint (unat len) @ rest) (of_nat (length (varint (unat len)))) =
      Inr (MQTT_SUCCESS, of_nat (length (varint (unat len))), len)" if "unat len < 268435456" for len and rest :: "u8 list"
  proof -
    have "length (varint (unat len)) \<le> 4" using that by (simp add: length_varint_4)
    then have "unat (of_nat (length (varint (unat len))) :: u32) = length (varint (unat len))"
      by (intro unat_u32_of_nat) linarith
    with that show ?thesis by (subst remain_length_decode_varint) simp_all
  qed
  with length_table_varint show ?thesis by (auto simp: list_all_iff)
qed

text \<open>The filter names every type the test encodes, but 0, which is no type.\<close>

lemma test_message_type_filter:
  "list_all (\<lambda>t. message_type_filter [message_type_encode t, 0, 0, 0] 4 = Inr (MQTT_SUCCESS, t))
     (filter (\<lambda>t. t \<noteq> MQTT_MESSAGE_TYPE_MIN \<and> t \<noteq> MQTT_MESSAGE_TYPE_MAX) all_types)"
  "message_type_filter [message_type_encode MQTT_MESSAGE_TYPE_MIN, 0, 0, 0] 4 = Inr (MQTT_MESSAGE_TYPE_ERROR, MQTT_MESSAGE_TYPE_MAX)"
  by (simp_all add: all_types_def message_type_filter_eq message_type_encode_def type_bits_def type_of_code_def)

section \<open>msg\_puback\_test.c, msg\_connack\_test.c\<close>

lemma test_puback_message:
  "puback_message_build 0x00F0 (Some (replicate 10 0)) (Some 10) =
     Inr (MQTT_SUCCESS, Some ([0x40, 2, 0x00, 0xF0] @ replicate 6 0), Some 4)"
  "puback_message_parse (Some ([0x40, 2, 0x00, 0xF0] @ replicate 6 0)) 4 (Some 0x00F0) = Inr (MQTT_SUCCESS, Some 0x00F0)"
proof -
  have "ack_bytes 0x40 0x00F0 = [0x40, 2, 0x00, 0xF0]" by (simp add: ack_bytes_def be16_def)
  with ack_build_ok [of 10 "replicate 10 0" "0x40" "0x00F0"] ack_parse_ok [of "\<lambda>n. n \<noteq> 4" "0x40" _ "0x00F0" "replicate 6 0"]
  show "puback_message_build 0x00F0 (Some (replicate 10 0)) (Some 10) =
     Inr (MQTT_SUCCESS, Some ([0x40, 2, 0x00, 0xF0] @ replicate 6 0), Some 4)"
  "puback_message_parse (Some ([0x40, 2, 0x00, 0xF0] @ replicate 6 0)) 4 (Some 0x00F0) = Inr (MQTT_SUCCESS, Some 0x00F0)"
    by (simp_all add: ack_unfold)
qed

lemma test_connack_message:
  "connack_message_build 1 (connack_value MQTT_CONNACK_NOT_AUTHORIZED) (replicate 10 0) = Inr (MQTT_SUCCESS, [0x20, 2, 1, 5] @ replicate 6 0, 4)"
  "\<exists>code sp. connack_message_parse junk_len (Some ([0x20, 2, 1, 5] @ replicate 6 0)) 4 (Some 0) (Some 0) =
     Inr (MQTT_CONNACK_MESSAGE_ERROR, code, sp)"
  using connack_message_parse_built [of junk_len True 5 "replicate 6 0" 0 0]
  by (simp_all add: connack_message_build_eq connack_bytes_simp wr_bytes_at_0)

section \<open>msg\_publish\_test.c\<close>

lemma test_publish_message:
  fixes topic payload :: "u8 list" and out :: publish_out
  defines "topic \<equiv> text_bytes ''test_topic''" and "payload \<equiv> text_bytes ''Hello MQTT!''"
  defines "m \<equiv> [0x30, 23, 0, 10] @ topic @ payload"
  shows "publish_message_build 0 MQTT_QOS_0 0 (Some topic) 10 None (Some payload) 11 (Some (replicate 512 0)) (Some 512) =
      Inr (MQTT_SUCCESS, Some (m @ replicate 487 0), Some 25, None)"
    and "\<exists>out'. publish_message_parse (Some (m @ replicate 487 0)) 25 (Some out) = Inr (MQTT_SUCCESS, Some out') \<and>
      pub_dup out' = 0 \<and> pub_qos out' = 0 \<and> pub_retain out' = 0 \<and> pub_topic_len out' = 10 \<and> pub_payload_len out' = 11 \<and>
      pub_topic out' = Some (topic @ payload @ replicate 487 0) \<and> pub_payload out' = Some (payload @ replicate 487 0)"
proof -
  have len: "length topic = 10" "length payload = 11" by (simp_all add: topic_def payload_def)
  have m: "frame (publish_flags False 0 False) (publish_body topic None payload) = m"
    using len by (simp add: frame_def publish_body_def field_def be16_def varint_small publish_flags_def m_def)
  have "topic \<noteq> []" using len by auto
  with publish_message_build_ok [of 10 topic 0 None 0 11 payload "publish_flags False 0 False" 0 0 512 "replicate 512 0"] len m
  show "publish_message_build 0 MQTT_QOS_0 0 (Some topic) 10 None (Some payload) 11 (Some (replicate 512 0)) (Some 512) =
      Inr (MQTT_SUCCESS, Some (m @ replicate 487 0), Some 25, None)"
    by (simp add: length_publish_body m_def)
  from publish_message_parse_frame [of topic 0 0 payload m False False "replicate 487 0" out] len m
  show "\<exists>out'. publish_message_parse (Some (m @ replicate 487 0)) 25 (Some out) = Inr (MQTT_SUCCESS, Some out') \<and>
      pub_dup out' = 0 \<and> pub_qos out' = 0 \<and> pub_retain out' = 0 \<and> pub_topic_len out' = 10 \<and> pub_payload_len out' = 11 \<and>
      pub_topic out' = Some (topic @ payload @ replicate 487 0) \<and> pub_payload out' = Some (payload @ replicate 487 0)"
    by (simp add: length_publish_body m_def)
qed

section \<open>msg\_connect\_test.c\<close>

text \<open>The buffer has 58 bytes, the message 65.\<close>

definition test_payload :: "u8 list option connect_payload_t" where
  "test_payload = \<lparr>cp_client_id_len = 9, cp_client_id = Some (text_bytes ''client_id''),
     cp_will_topic_len = 10, cp_will_topic = Some (text_bytes ''will_topic''),
     cp_will_msg_len = 8, cp_will_msg = Some (text_bytes ''will_msg''),
     cp_username_len = 8, cp_username = Some (text_bytes ''username''),
     cp_password_len = 8, cp_password = Some (text_bytes ''password'')\<rparr>"

lemma test_payload_complete: "payload_complete test_payload"
  by (simp add: test_payload_def payload_complete_def field_complete_def)

lemma length_test_frame: "length (connect_frame test_payload 60 0 0 2) = 65"
proof -
  have "length (connect_payload_bytes test_payload) = 53"
    by (simp add: connect_payload_bytes_def field_bytes_def field_value_def field_def has_will_def has_username_def
        has_password_def test_payload_def)
  then show ?thesis by (simp add: connect_frame_def frame_def varint_small)
qed

lemma test_connect_message:
  assumes "heap_ok h" and "\<not> oom h (fresh h)" and "length buf = 58"
  shows "connect_message_build test_payload 60 0 0 2 buf 58 h = Inl Out_Of_Bounds"
  using assms length_test_frame test_payload_complete
  by (simp add: connect_message_build_eq test_payload_def [THEN arg_cong, of cp_client_id_len] wr_bytes_def)

section \<open>msg\_subscribe\_test.c, msg\_suback\_test.c\<close>

text \<open>The three filters are a list of three blocks.\<close>

definition test_filter :: "nat \<Rightarrow> link \<Rightarrow> topic_filter_t" where
  "test_filter i p = \<lparr>tf_topic = Some (text_bytes (''test_topic_'' @ [char_of (49 + i)])), tf_len = 12, tf_qos = of_nat i, tf_next = p\<rparr>"

definition test_heap :: heap where
  "test_heap = \<lparr>cells = [(0, Filter (test_filter 0 (Addr 1))), (1, Filter (test_filter 1 (Addr 2))), (2, Filter (test_filter 2 NULL))],
     fresh = 3, oom = \<lambda>_. False, junk = \<lambda>_. 0\<rparr>"

lemma test_subscribe_message:
  "\<exists>buf' n' list gs h3.
     subscribe_message_build 0x00F0 (Addr 0) (Some (replicate 512 0)) (Some 512) test_heap = Some (Inr (MQTT_SUCCESS, Some buf', Some n')) \<and>
     subscribe_message_parse (Some buf') n' (Some 0x00F0) (Some l) test_heap = Inr (MQTT_SUCCESS, Some 0x00F0, Some list, h3) \<and>
     linked load_filter tf_next h3 list gs \<and>
     map filter_value gs = map filter_value [test_filter 0 (Addr 1), test_filter 1 (Addr 2), test_filter 2 NULL]"
proof -
  let ?fs = "[test_filter 0 (Addr 1), test_filter 1 (Addr 2), test_filter 2 NULL]"
  have complete: "list_all filter_complete ?fs" by (simp add: test_filter_def filter_complete_def)
  have len: "length (filter_body True 0x00F0 ?fs) = 47"
    by (simp add: filter_body_def filter_entry_def string_field_def test_filter_def)
  have linked: "linked load_filter tf_next test_heap (Addr 0) ?fs"
    by (simp add: test_heap_def load_filter_def load_Addr test_filter_def)
  have qos: "\<forall>f \<in> set ?fs. tf_qos f < MQTT_QOS_MAX" by (simp add: test_filter_def)
  have size: "length (frame (message_type_encode MQTT_MESSAGE_TYPE_SUBSCRIBE) (filter_body True 0x00F0 ?fs)) = 49"
    using len by (simp add: frame_def varint_small)
  have heap: "heap_ok test_heap" "\<forall>i. \<not> oom test_heap i" by (simp_all add: test_heap_def heap_ok_def live_def)
  have "length (filter_body True 0x00F0 ?fs) < 268435456" using len by simp
  from filter_message_roundtrip [OF linked _ complete qos this _ _ heap, of MQTT_MESSAGE_TYPE_SUBSCRIBE 512 "replicate 512 0" "0x00F0" l]
  show ?thesis
    unfolding subscribe_message_build_def subscribe_message_parse_def filter_sent_True size by fastforce
qed

definition test_codes :: "u8 list" where
  "test_codes = [0, 0, 1, 2, 1, 2, 0, 1, 2, 0x80]"

lemma test_suback_message:
  fixes d :: suback_data_t and h :: heap
  defines "d \<equiv> \<lparr>sd_qos = Addr 0, sd_size = 10, sd_capacity = 10\<rparr>"
    and "h \<equiv> \<lparr>cells = [(0, Bytes test_codes)], fresh = 1, oom = \<lambda>_. False, junk = \<lambda>_. 0\<rparr>"
  defines "m \<equiv> [0x90, 12, 0, 1] @ test_codes"
  shows "suback_message_build 1 (Some d) (Some (replicate 512 0)) (Some 512) h =
      Inr (MQTT_SUCCESS, Some (m @ replicate 498 0), Some 14)"
    and "\<exists>d' h'. suback_message_parse (Some (m @ replicate 498 0)) 14 (Some 0) (Some d) h = Inr (MQTT_SUCCESS, Some 1, Some d', h') \<and>
      suback_repr h' d' test_codes"
proof -
  have len: "length test_codes = 10" by (simp add: test_codes_def)
  have m: "frame 0x90 (be16 1 @ test_codes) = m" using len by (simp add: m_def frame_def be16_def varint_small)
  have legal: "list_all legal_code test_codes" by (simp add: test_codes_def legal_code_def)
  have "suback_repr h d test_codes" using len by (auto simp: suback_repr_def d_def h_def heap_ok_def live_def)
  from suback_message_build_ok [OF this legal, of 1 512 "replicate 512 0"] len m
  show "suback_message_build 1 (Some d) (Some (replicate 512 0)) (Some 512) h =
      Inr (MQTT_SUCCESS, Some (m @ replicate 498 0), Some 14)"
    by (simp add: m_def)
  have "heap_ok h" "\<forall>i. \<not> oom h i" by (simp_all add: h_def heap_ok_def live_def)
  moreover have "length test_codes \<le> 65526" "unat (14 :: u32) = length (frame 0x90 (be16 1 @ test_codes))"
    using len m by (simp_all add: m_def)
  ultimately have "\<exists>d' h'. suback_message_parse (Some (m @ replicate 498 0)) 14 (Some 0) (Some d) h =
      Inr (MQTT_SUCCESS, Some 1, Some d', h') \<and> suback_repr h' d' test_codes"
    using suback_message_parse_ok [OF legal, of 14 1 h "replicate 498 0" 0 d] unfolding m by blast
  then
  show "\<exists>d' h'. suback_message_parse (Some (m @ replicate 498 0)) 14 (Some 0) (Some d) h = Inr (MQTT_SUCCESS, Some 1, Some d', h') \<and>
      suback_repr h' d' test_codes"
    .
qed

end
