(* ===== verification/Spec2Isabelle.thy ===== *)
theory Spec2Isabelle
  imports Msg_Ack Msg_Ping Msg_Connack Msg_Connect Msg_Publish Msg_Subscribe Msg_Unsubscribe Msg_Suback
    Message_Keep Network Client Client_Process Deamon_Socket Client_Deamon Server_Stream
    Subscription_Timeout Client_System Add_Race Log Repository_Tests
begin

text \<open>
  A model of simple_mqtt, a C implementation of the MQTT 3.1.1 message formats and of an MQTT
  client.

  \<^bold>\<open>The program.\<close> The directory message holds a builder and a parser for each kind of
  MQTT message, on top of the two codecs of message.c (the remaining length and text fields). The
  directory network wraps a socket. The client consists of client.c (open a session, subscribe,
  close), message_keep.c (a linked list of the messages that were sent and wait for an answer),
  client_deamon.c (a thread that waits for the socket and a timer, receives messages, keeps the
  session alive and looks for messages without an answer) and client_message_process.c (what is
  done with each kind of message). The parts share global variables: the list, the time of the
  last sign of life, the receive buffer and the two callbacks of the application.

  \<^bold>\<open>How the code is represented.\<close> Integers of \<open>w\<close> bits are words, so that sums wrap
  as in C; \<^verbatim>\<open>time_t\<close> and \<^verbatim>\<open>int\<close> results of system calls are integers. Every
  function returns a value of \<open>'a res\<close>: \<open>Inr\<close> with the results, the objects written and the
  new state, or \<open>Inl\<close> with the undefined behaviour the code runs into (an access out of
  bounds, through \<^verbatim>\<open>NULL\<close>, to a block that is not live, or through a pointer without a
  value). A function with a loop that need not end has type \<open>'a outcome\<close>, that is \<open>'a res\<close> or
  \<open>None\<close> for a run that never returns; these loops are partial functions without fuel, and
  that a call returns, or never does, is a theorem. Return codes of the program are ordinary
  results. Memory from \<^verbatim>\<open>malloc\<close> is a heap of blocks; which allocations fail and what
  fresh memory holds are fields of the heap that no function reads in another way, so a theorem
  holds for all choices. The operating system is a record of reply functions: an answer may depend
  on all calls made so far, the calls are recorded in a trace, and statements about what is sent,
  in which order and under which lock are statements about that trace.

  \<^bold>\<open>Theories and sources\<close> (all paths under src/src).
  \<^item> Prelude: outcomes, byte pointers and buffers, byte order.
  \<^item> Memory: the heap, well-formed heaps, linked chains of blocks, loops over lists.
  \<^item> Common: mqtt.h, message/common.h, message/message.h (return codes, message types).
  \<^item> Remaining_Length, Message: message/message.c. Locales \<open>prefix_code\<close> and \<open>framing\<close> state
    what messages need of an encoding; they are interpreted on the decoders of the program.
  \<^item> Msg_Ack: message/msg_puback.c, msg_pubrec.c, msg_pubrel.c, msg_pubcomp.c, msg_unsuback.c,
    which are the same text up to constants. Locale \<open>ack_codec\<close> is interpreted on all five.
  \<^item> Msg_Ping: msg_pingreq.c, msg_pingresp.c, msg_disconnect.c. Msg_Connack: msg_connack.c and msg_connack.h.
  \<^item> Msg_Connect: msg_connect.c. Msg_Publish: msg_publish.c.
  \<^item> Msg_Subscribe: msg_subscribe.c, with definitions shared by Msg_Unsubscribe
    (msg_unsubscribe.c). Msg_Suback: msg_suback.c with its growing array.
  \<^item> Message_Keep: client/message_keep.c. Network: network/network.c and the system calls.
  \<^item> Client: client/client.c. The record \<open>sys\<close> holds the globals, the heap and the system.
  \<^item> Client_Process: client/client_message_process.c.
  \<^item> Deamon_Socket, Client_Deamon: client/client_deamon.c; the handler of the socket with the
    callbacks, and the timer, the thread and its creation.
  \<^item> Server_Stream: the conversation with a server as a function of the list of its messages, which
    the socket handler implements; locale \<open>observer\<close> is about callbacks that only look, and is
    interpreted on the default callback. Subscription_Timeout: a subscription through client.c,
    client_message_process.c and client_deamon.c.
  \<^item> Heap_Frame: operations that leave older blocks alone. Client_Invariant: the invariant of the
    shared state, kept by each operation; locale \<open>application\<close> states what the callbacks must not
    touch and is interpreted on the callbacks of client_deamon.c. Client_System: the client as a
    transition system, from the opening of a session.
  \<^item> Add_Race: client/message_keep.c with a removal by the deamon's thread at any turn of the loop
    in an addition by the application's thread.
  \<^item> Log: log/log.h, log/log.c. Repository_Tests: the programs of src/test replayed on the model.

  \<^bold>\<open>What is shown.\<close> For the codecs: what a builder writes is the byte sequence of the standard
  (\<open>frame\<close>, \<open>varint\<close>, \<open>field\<close>) and is parsed back, within the bounds the statements name; lengths
  stay in range, or wrap where the code lets them; parsers accept only what they should, or the
  theorem says what else they accept. For the list: it implements a queue of packets
  (\<open>queue\<close>, \<open>remove_packet\<close>). For the client: opening, subscribing and the packet identifiers as
  a whole, over an arbitrary network. For the deamon: it treats a stream of messages of the
  server, of all types, in order and completely, which joins the socket handler, the header
  decoder, the dispatcher, the parsers, the callback and the answers in one statement, and from
  which follow what is sent and what becomes of the list; the timer handler keeps the session alive and always
  releases its lock; creation gives all resources back. For the client as a whole: in every state that a
  session reaches, through whatever calls and events and with whatever answers of the system, the
  list is a queue of messages that were sent under identifiers other than 0, the lock is free, the
  shared objects have their types, and the client's identifier is in a block of its own that is
  released exactly once. Where the code deviates from what it means
  to do, the theorem states the deviation: the buffer overflow, the reading of a released node,
  the lost bytes, the endless loops, the unprotected list, the subscription that times out after
  its acknowledgement, the PUBREL without an answer.

  \<^bold>\<open>Bounds.\<close> The bounds in the statements are those of the formats and of the code: \<open>2\<^sup>2\<^sup>8\<close> for
  a remaining length, \<open>2\<^sup>1\<^sup>6\<close> for a text field, 1024 for the receive buffer, 5 for the first
  receive. No definition uses fuel.

  \<^bold>\<open>Not modelled.\<close> The calls of the log macros: they print and nothing depends on it (the
  macros themselves are in Log). The broker's files are empty. The test programs print; only their
  calls are replayed. Callbacks, the operating system and the peer are parameters. The thread of
  the deamon and the application's thread take turns by whole operations in Client_System; the
  code takes its lock in the timer handler only, and of the interleavings inside an operation
  those of one removal with one addition are represented (Add_Race). Contents of messages that
  are only printed are not kept.
\<close>

end
